(* ===== verification/PM_Prelude.thy ===== *)
theory PM_Prelude
  imports Main "HOL-Library.Word"
begin

text \<open>
  Prelude of the development: the scalar types of \<^verbatim>\<open>src/packetmachine/common.hpp\<close>, the exceptions of
  \<^verbatim>\<open>src/packetmachine/exception.hpp\<close> as values of an error type, byte order (a host load is
  little-endian, \<^verbatim>\<open>ntohs\<close>/\<^verbatim>\<open>ntohl\<close> swap the bytes), slices of byte lists, the decimal and hexadecimal
  printing that \<^verbatim>\<open>std::ostream\<close> performs, and the collections of simplification rules that the
  component theories share.
\<close>

unbundle bit_operations_syntax

named_theorems pm_defs \<open>definitions of straight-line operations, unfolded by the component proofs\<close>
named_theorems pm_simps \<open>derived equations of the operations, used by client components\<close>

subsection \<open>Scalar types and errors\<close>

type_synonym byte = "8 word"
type_synonym param_id = int
type_synonym event_id = int
type_synonym mod_id = int
type_synonym hdlr_id = int

definition Param_NONE :: param_id where "Param_NONE = -1"

definition Event_NONE :: event_id where "Event_NONE = -2"

datatype pm_error =
    ConfigError string
  | TypeError string
  | KeyError string
  | IndexError string
  | NoDataError string
  | RunTimeError string
  | AssertFailed
  | UndefinedBehaviour

type_synonym 'a res = "pm_error + 'a"

text \<open>Sequencing of computations that may raise: the exception propagates.\<close>

definition bind_res :: "'a res \<Rightarrow> ('a \<Rightarrow> 'b res) \<Rightarrow> 'b res" where
  "bind_res r f = (case r of Inl e \<Rightarrow> Inl e | Inr x \<Rightarrow> f x)"

lemma bind_res_simps [simp]:
  "bind_res (Inl e) f = Inl e"
  "bind_res (Inr x) f = f x"
  by (simp_all add: bind_res_def)

lemma bind_res_eq_Inr [simp]:
  "bind_res r f = Inr y \<longleftrightarrow> (\<exists>x. r = Inr x \<and> f x = Inr y)"
  by (cases r) simp_all

subsection \<open>Slices of byte lists\<close>

definition bslice :: "nat \<Rightarrow> nat \<Rightarrow> 'a list \<Rightarrow> 'a list" where
  "bslice off n xs = take n (drop off xs)"

definition bslice_opt :: "nat \<Rightarrow> nat \<Rightarrow> 'a list \<Rightarrow> 'a list option" where
  "bslice_opt off n xs = (if off + n \<le> length xs then Some (bslice off n xs) else None)"

lemma length_bslice [simp]: "off + n \<le> length xs \<Longrightarrow> length (bslice off n xs) = n"
  by (simp add: bslice_def)

lemma bslice_0 [simp]: "bslice off 0 xs = []"
  by (simp add: bslice_def)

lemma nth_bslice [simp]: "i < n \<Longrightarrow> off + i < length xs \<Longrightarrow> bslice off n xs ! i = xs ! (off + i)"
  by (simp add: bslice_def)

lemma bslice_opt_eq_Some [simp]:
  "bslice_opt off n xs = Some ys \<longleftrightarrow> off + n \<le> length xs \<and> ys = bslice off n xs"
  by (auto simp: bslice_opt_def)

lemma bslice_opt_eq_None [simp]: "bslice_opt off n xs = None \<longleftrightarrow> length xs < off + n"
  by (simp add: bslice_opt_def)

lemma bslice_bslice: "i + k \<le> n \<Longrightarrow> bslice i k (bslice off n xs) = bslice (off + i) k xs"
  by (simp add: bslice_def drop_take min_def add.commute)

lemma bslice_append_left: "off + n \<le> length xs \<Longrightarrow> bslice off n (xs @ ys) = bslice off n xs"
  by (simp add: bslice_def)

lemma bslice_all: "bslice 0 (length xs) xs = xs"
  by (simp add: bslice_def)

lemma bslice_1: "off < length xs \<Longrightarrow> bslice off 1 xs = [xs ! off]"
  by (simp add: bslice_def take_Suc hd_drop_conv_nth)

lemma bslice_2:
  "off + 2 \<le> length xs \<Longrightarrow> bslice off 2 xs = [xs ! off, xs ! (off + 1)]"
  by (rule nth_equalityI) (auto simp: less_Suc_eq numeral_2_eq_2)

lemma list_length_cases_4:
  assumes "length xs = 4"
  obtains a b c d where "xs = [a, b, c, d]"
  using assms by (auto simp: numeral_eq_Suc length_Suc_conv)

lemma list_length_cases_8:
  assumes "length xs = 8"
  obtains a b c d e f g h where "xs = [a, b, c, d, e, f, g, h]"
  using assms by (auto simp: numeral_eq_Suc length_Suc_conv)

subsection \<open>Byte order\<close>

text \<open>The number a byte string denotes in either byte order.\<close>

fun le_nat :: "byte list \<Rightarrow> nat" where
  "le_nat [] = 0"
| "le_nat (b # bs) = unat b + 256 * le_nat bs"

definition be_nat :: "byte list \<Rightarrow> nat" where
  "be_nat bs = le_nat (rev bs)"

text \<open>A load of an integer object through a pointer, on a little-endian host.\<close>

definition load_le :: "byte list \<Rightarrow> 'a::len word" where
  "load_le bs = word_of_nat (le_nat bs)"

text \<open>The object representation of a local integer, as \<^verbatim>\<open>cpy(&x, sizeof(x))\<close> copies it.\<close>

fun store_le :: "nat \<Rightarrow> nat \<Rightarrow> byte list" where
  "store_le 0 n = []"
| "store_le (Suc k) n = word_of_nat (n mod 256) # store_le k (n div 256)"

definition ntohs :: "16 word \<Rightarrow> 16 word" where
  "ntohs w = push_bit 8 w OR drop_bit 8 w"

definition ntohl :: "32 word \<Rightarrow> 32 word" where
  "ntohl w = push_bit 24 (w AND 0xFF) OR push_bit 8 (w AND 0xFF00)
             OR drop_bit 8 (w AND 0xFF0000) OR drop_bit 24 (w AND 0xFF000000)"

lemma length_store_le [simp]: "length (store_le k n) = k"
  by (induction k arbitrary: n) auto

lemma le_nat_store_le: "le_nat (store_le k n) = n mod 256 ^ k"
proof (induction k arbitrary: n)
  case 0
  then show ?case by simp
next
  case (Suc k)
  have "unat (word_of_nat (n mod 256) :: byte) = n mod 256"
    by (simp add: unat_of_nat)
  with Suc show ?case
    by (simp add: mod_mult2_eq)
qed

lemma byte_less: "unat (b :: byte) < 256"
  using unsigned_less [of b, where 'a = nat] by simp

lemma le_nat_less: "le_nat bs < 256 ^ length bs"
proof (induction bs)
  case Nil
  then show ?case by simp
next
  case (Cons b bs)
  have "unat b < 256"
    by (rule byte_less)
  moreover have "le_nat bs + 1 \<le> 256 ^ length bs"
    using Cons by simp
  then have "256 * le_nat bs + 256 \<le> 256 * 256 ^ length bs"
    by simp
  ultimately show ?case by simp
qed

lemma be_nat_less: "be_nat bs < 256 ^ length bs"
  using le_nat_less [of "rev bs"] by (simp add: be_nat_def)

lemma bit_le_nat:
  "bit (le_nat bs) n \<longleftrightarrow> n div 8 < length bs \<and> bit (bs ! (n div 8)) (n mod 8)"
proof (induction bs arbitrary: n)
  case Nil
  then show ?case by simp
next
  case (Cons b bs)
  have "unat b < 2 ^ 8"
    using byte_less [of b] by simp
  then have small: "take_bit 8 (unat b) = unat b"
    by (simp only: take_bit_nat_eq_self_iff)
  have split: "le_nat (b # bs) = unat b OR push_bit 8 (le_nat bs)"
  proof -
    have "unat b + push_bit 8 (le_nat bs) = unat b OR push_bit 8 (le_nat bs)"
    proof (rule disjunctive_add_eq_or, rule bit_eqI)
      fix k
      have "\<not> bit (unat b) k" if "8 \<le> k"
        using that small bit_take_bit_iff [of 8 "unat b" k] by simp
      then show "bit (unat b AND push_bit 8 (le_nat bs)) k = bit 0 k"
        by (auto simp: bit_simps)
    qed
    then show ?thesis by (simp add: push_bit_eq_mult)
  qed
  show ?case
  proof (cases "n < 8")
    case True
    then show ?thesis
      by (simp only: split) (simp add: bit_simps)
  next
    case False
    then obtain k where k: "n = k + 8"
      by (metis add.commute le_Suc_ex not_less)
    have "\<not> bit (unat b) n"
      using False small bit_take_bit_iff [of 8 "unat b" n] by simp
    moreover have "(k + 8) div 8 = Suc (k div 8)"
      by simp
    ultimately show ?thesis
      by (simp only: split) (simp add: k bit_simps Cons)
  qed
qed

lemma bit_load_le:
  "bit (load_le bs :: 'a::len word) n \<longleftrightarrow>
     n < LENGTH('a) \<and> n div 8 < length bs \<and> bit (bs ! (n div 8)) (n mod 8)"
  by (simp add: load_le_def bit_simps bit_le_nat)

lemma unat_load_le:
  "(256 :: nat) ^ length bs \<le> 2 ^ LENGTH('a) \<Longrightarrow> unat (load_le bs :: 'a::len word) = le_nat bs"
  using le_nat_less [of bs]
  by (simp add: load_le_def unat_of_nat take_bit_nat_eq_self_iff)

lemma ntohs_load_le: "ntohs (load_le [a, b]) = load_le [b, a]"
proof (rule bit_word_eqI)
  fix n assume "n < LENGTH(16)"
  then have "n \<in> set [0..<16]" by simp
  then show "bit (ntohs (load_le [a, b])) n = bit (load_le [b, a] :: 16 word) n"
    by (simp add: upt_conv_Cons)
      (elim disjE; simp add: ntohs_def bit_simps bit_load_le flip: numeral_2_eq_2)
qed

lemma ntohl_load_le: "ntohl (load_le [a, b, c, d]) = load_le [d, c, b, a]"
proof (rule bit_word_eqI)
  fix n assume "n < LENGTH(32)"
  then have "n \<in> set [0..<32]" by simp
  then show "bit (ntohl (load_le [a, b, c, d])) n = bit (load_le [d, c, b, a] :: 32 word) n"
    by (simp add: upt_conv_Cons)
      (elim disjE; simp add: ntohl_def bit_simps bit_load_le flip: numeral_2_eq_2)
qed

end
