(* ===== verification/Std_Map.thy ===== *)
theory Std_Map
  imports PM_Prelude "HOL-Library.Char_ord" "HOL-Library.List_Lexorder"
begin

text \<open>
  The part of \<^verbatim>\<open>std::map\<close> the sources use, as a list of entries kept in ascending key order (the order
  in which a range-for visits the map). \<^verbatim>\<open>insert\<close> leaves an existing entry alone, which
  \<^verbatim>\<open>Module::define_param\<close>, \<^verbatim>\<open>value::Map::insert\<close> and \<^verbatim>\<open>Kernel::add_handler\<close> rely on; \<^verbatim>\<open>it->second = v\<close>
  overwrites one. Strings are compared bytewise, as \<^verbatim>\<open>std::string\<close> compares them. The locale states the
  contract of a map whose \<^verbatim>\<open>insert\<close> does not overwrite; the clients use its lemmas.
\<close>

type_synonym ('k, 'v) smap = "('k \<times> 'v) list"

definition smap_wf :: "('k::linorder, 'v) smap \<Rightarrow> bool" where
  "smap_wf m \<longleftrightarrow> sorted_wrt (<) (map fst m)"

definition smap_find :: "('k, 'v) smap \<Rightarrow> 'k \<Rightarrow> 'v option" where
  "smap_find m k = map_of m k"

fun smap_insert :: "'k::linorder \<Rightarrow> 'v \<Rightarrow> ('k, 'v) smap \<Rightarrow> ('k, 'v) smap" where
  "smap_insert k v [] = [(k, v)]"
| "smap_insert k v ((k', v') # m) =
     (if k < k' then (k, v) # (k', v') # m
      else if k = k' then (k', v') # m
      else (k', v') # smap_insert k v m)"

fun smap_assign :: "'k \<Rightarrow> 'v \<Rightarrow> ('k, 'v) smap \<Rightarrow> ('k, 'v) smap" where
  "smap_assign k v [] = []"
| "smap_assign k v ((k', v') # m) = (if k = k' then (k', v) # m else (k', v') # smap_assign k v m)"

fun smap_erase :: "'k \<Rightarrow> ('k, 'v) smap \<Rightarrow> ('k, 'v) smap" where
  "smap_erase k [] = []"
| "smap_erase k ((k', v') # m) = (if k = k' then m else (k', v') # smap_erase k m)"

subsection \<open>The contract\<close>

locale insert_map =
  fixes find :: "'m \<Rightarrow> 'k \<Rightarrow> 'v option"
    and insert :: "'k \<Rightarrow> 'v \<Rightarrow> 'm \<Rightarrow> 'm"
    and erase :: "'k \<Rightarrow> 'm \<Rightarrow> 'm"
    and empty :: 'm
    and wf :: "'m \<Rightarrow> bool"
  assumes wf_empty: "wf empty"
    and find_empty: "find empty k = None"
    and wf_insert: "wf m \<Longrightarrow> wf (insert k v m)"
    and find_insert: "wf m \<Longrightarrow>
      find (insert k v m) k' = (if k' = k \<and> find m k = None then Some v else find m k')"
    and wf_erase: "wf m \<Longrightarrow> wf (erase k m)"
    and find_erase: "wf m \<Longrightarrow> find (erase k m) k' = (if k' = k then None else find m k')"
begin

lemma find_insert_existing: "wf m \<Longrightarrow> find m k = Some w \<Longrightarrow> find (insert k v m) k' = find m k'"
  by (simp add: find_insert)

lemma find_insert_fresh: "wf m \<Longrightarrow> find m k = None \<Longrightarrow> find (insert k v m) k = Some v"
  by (simp add: find_insert)

lemma find_insert_other: "wf m \<Longrightarrow> k' \<noteq> k \<Longrightarrow> find (insert k v m) k' = find m k'"
  by (simp add: find_insert)

lemma wf_insert_all: "wf m \<Longrightarrow> wf (fold (\<lambda>(k, v). insert k v) kvs m)"
  by (induction kvs arbitrary: m) (auto simp: wf_insert)

text \<open>Inserting a sequence of pairs: the earliest pair of a key wins, and never against the map.\<close>

lemma find_insert_all:
  "wf m \<Longrightarrow> find (fold (\<lambda>(k, v). insert k v) kvs m) k =
     (case find m k of Some w \<Rightarrow> Some w | None \<Rightarrow> map_of kvs k)"
proof (induction kvs arbitrary: m)
  case Nil
  then show ?case by (simp split: option.split)
next
  case (Cons kv kvs)
  obtain k0 v0 where kv: "kv = (k0, v0)" by (cases kv)
  from Cons show ?case
    by (auto simp: kv wf_insert find_insert split: option.split)
qed

end

subsection \<open>The sorted association list implements it\<close>

lemma fst_set_smap_insert: "fst ` set (smap_insert k v m) = insert k (fst ` set m)"
  by (induction k v m rule: smap_insert.induct) auto

lemma smap_wf_Cons:
  "smap_wf ((k, v) # m) \<longleftrightarrow> (\<forall>x \<in> fst ` set m. k < x) \<and> smap_wf m"
  by (auto simp: smap_wf_def)

lemma smap_wf_Nil [simp]: "smap_wf []"
  by (simp add: smap_wf_def)

lemma smap_wf_insert: "smap_wf m \<Longrightarrow> smap_wf (smap_insert k v m)"
proof (induction k v m rule: smap_insert.induct)
  case (1 k v)
  then show ?case by (simp add: smap_wf_def)
next
  case (2 k v k' v' m)
  consider "k < k'" | "k = k'" | "k' < k" by (rule linorder_less_linear [THEN disjE]) auto
  then show ?case
  proof cases
    case 3
    with 2 have "smap_wf (smap_insert k v m)"
      by (simp add: smap_wf_Cons)
    with 2 3 show ?thesis
      by (auto simp: smap_wf_Cons fst_set_smap_insert)
  qed (use 2 in \<open>auto simp: smap_wf_Cons\<close>)
qed

lemma smap_find_below: "smap_wf ((k', v') # m) \<Longrightarrow> k < k' \<Longrightarrow> map_of ((k', v') # m) k = None"
  by (force simp: smap_wf_Cons map_of_eq_None_iff)

lemma smap_find_insert:
  "smap_wf m \<Longrightarrow>
     smap_find (smap_insert k v m) q = (if q = k \<and> smap_find m k = None then Some v else smap_find m q)"
proof (induction k v m rule: smap_insert.induct)
  case (1 k v)
  then show ?case by (simp add: smap_find_def)
next
  case (2 k v k' v' m)
  show ?case
  proof (cases "k < k'")
    case True
    with "2.prems" have "map_of ((k', v') # m) k = None"
      by (rule smap_find_below)
    with True show ?thesis by (auto simp: smap_find_def)
  next
    case False
    with 2 show ?thesis by (auto simp: smap_find_def smap_wf_Cons)
  qed
qed

lemma set_smap_erase: "set (smap_erase k m) \<subseteq> set m"
  by (induction k m rule: smap_erase.induct) auto

lemma smap_wf_erase: "smap_wf m \<Longrightarrow> smap_wf (smap_erase k m)"
  using set_smap_erase by (induction k m rule: smap_erase.induct) (fastforce simp: smap_wf_Cons)+

lemma smap_find_erase:
  "smap_wf m \<Longrightarrow> smap_find (smap_erase k m) q = (if q = k then None else smap_find m q)"
proof (induction k m rule: smap_erase.induct)
  case (1 k)
  then show ?case by (simp add: smap_find_def)
next
  case (2 k k' v' m)
  have "map_of m k' = None"
    using "2.prems" by (force simp: smap_wf_Cons map_of_eq_None_iff)
  with 2 show ?case by (auto simp: smap_find_def smap_wf_Cons)
qed

interpretation sm: insert_map smap_find smap_insert smap_erase "[]" smap_wf
  by unfold_locales
    (simp_all add: smap_wf_insert smap_find_insert smap_wf_erase smap_find_erase, simp add: smap_find_def)

lemma keys_smap_assign [simp]: "map fst (smap_assign k v m) = map fst m"
  by (induction k v m rule: smap_assign.induct) auto

lemma dom_smap_assign [simp]: "fst ` set (smap_assign k v m) = fst ` set m"
  by (metis keys_smap_assign list.set_map)

lemma smap_wf_assign: "smap_wf m \<Longrightarrow> smap_wf (smap_assign k v m)"
  by (simp add: smap_wf_def)

lemma smap_find_assign:
  "smap_find (smap_assign k v m) q =
     (if q = k \<and> smap_find m k \<noteq> None then Some v else smap_find m q)"
  by (induction k v m rule: smap_assign.induct) (auto simp: smap_find_def)

lemma smap_find_in_set: "smap_find m k = Some v \<Longrightarrow> (k, v) \<in> set m"
  by (simp add: smap_find_def map_of_SomeD)

lemma smap_find_iff: "smap_wf m \<Longrightarrow> smap_find m k = Some v \<longleftrightarrow> (k, v) \<in> set m"
proof -
  assume "smap_wf m"
  then have "distinct (map fst m)"
    by (simp add: smap_wf_def strict_sorted_iff)
  then show ?thesis
    by (simp add: smap_find_def)
qed

end
