(* ===== verification/Std_Stream.thy ===== *)
theory Std_Stream
  imports PM_Prelude
begin

text \<open>
  The part of \<^verbatim>\<open>std::ostream\<close> the sources use: text appended at the end, and the formatting state
  that a manipulator changes and that stays in force afterwards (\<^verbatim>\<open>std::hex\<close>, \<^verbatim>\<open>std::setfill\<close>;
  \<^verbatim>\<open>std::setw\<close> holds for one insertion only and is an argument here). Decimal and hexadecimal
  printing are the reference against which the hand-written printers are checked.
\<close>

record ostream =
  os_text :: string
  os_hex :: bool
  os_fill :: char

definition os_new :: ostream where
  "os_new = \<lparr>os_text = [], os_hex = False, os_fill = CHR '' ''\<rparr>"

definition digit_char :: "nat \<Rightarrow> char" where
  "digit_char d = (if d < 10 then char_of (48 + d) else char_of (87 + d))"

fun dec_string :: "nat \<Rightarrow> string" where
  "dec_string n = (if n < 10 then [digit_char n] else dec_string (n div 10) @ [digit_char (n mod 10)])"

fun hex_string :: "nat \<Rightarrow> string" where
  "hex_string n = (if n < 16 then [digit_char n] else hex_string (n div 16) @ [digit_char (n mod 16)])"

declare dec_string.simps [simp del]
declare hex_string.simps [simp del]

definition os_puts :: "string \<Rightarrow> ostream \<Rightarrow> ostream" where
  "os_puts s os = os\<lparr>os_text := os_text os @ s\<rparr>"

definition os_set_hex :: "ostream \<Rightarrow> ostream" where
  "os_set_hex os = os\<lparr>os_hex := True\<rparr>"

definition os_setfill :: "char \<Rightarrow> ostream \<Rightarrow> ostream" where
  "os_setfill c os = os\<lparr>os_fill := c\<rparr>"

text \<open>Insertion of an unsigned number, padded on the left to the width of \<^verbatim>\<open>setw\<close>.\<close>

definition os_putnum :: "nat \<Rightarrow> nat \<Rightarrow> ostream \<Rightarrow> ostream" where
  "os_putnum w n os =
     (let s = (if os_hex os then hex_string n else dec_string n)
      in os_puts (replicate (w - length s) (os_fill os) @ s) os)"

text \<open>Joining parts with a separator and cutting the text again: the reference for the address printers.\<close>

fun join :: "string \<Rightarrow> string list \<Rightarrow> string" where
  "join sep [] = []"
| "join sep [x] = x"
| "join sep (x # xs) = x @ sep @ join sep xs"

fun split_at :: "char \<Rightarrow> string \<Rightarrow> string \<Rightarrow> string list" where
  "split_at c acc [] = [acc]"
| "split_at c acc (x # xs) = (if x = c then acc # split_at c [] xs else split_at c (acc @ [x]) xs)"

definition hex2 :: "byte \<Rightarrow> string" where
  "hex2 b = [digit_char (unat b div 16), digit_char (unat b mod 16)]"

lemmas os_defs = os_puts_def os_set_hex_def os_setfill_def os_putnum_def

lemma os_puts_append: "os_puts t (os_puts s os) = os_puts (s @ t) os"
  by (simp add: os_puts_def)

text \<open>Reading the digits back.\<close>

definition digit_val :: "char \<Rightarrow> nat" where
  "digit_val c = (if of_char c < (58 :: nat) then of_char c - 48 else of_char c - 87)"

definition dec_val :: "string \<Rightarrow> nat" where
  "dec_val s = foldl (\<lambda>acc c. 10 * acc + digit_val c) 0 s"

lemma digit_val_char: "d < 16 \<Longrightarrow> digit_val (digit_char d) = d"
  by (simp add: digit_val_def digit_char_def)

lemma digit_char_not_dot: "d < 16 \<Longrightarrow> digit_char d \<noteq> CHR ''.''"
  by (auto simp: digit_char_def dest: arg_cong [where f = "of_char :: char \<Rightarrow> nat"])

lemma dec_val_string: "dec_val (dec_string n) = n"
proof (induction n rule: dec_string.induct)
  case (1 n)
  show ?case
  proof (cases "n < 10")
    case True
    then show ?thesis
      by (subst dec_string.simps) (simp add: dec_val_def digit_val_char)
  next
    case False
    with 1 have "dec_val (dec_string (n div 10)) = n div 10" by simp
    with False show ?thesis
      by (subst dec_string.simps) (simp add: dec_val_def digit_val_char)
  qed
qed

lemma dec_string_no_dot: "CHR ''.'' \<notin> set (dec_string n)"
proof (induction n rule: dec_string.induct)
  case (1 n)
  have "n mod 10 < 16" by (rule less_trans [of _ 10]) simp_all
  then show ?case
    using 1 digit_char_not_dot [of n] digit_char_not_dot [of "n mod 10"]
    by (subst dec_string.simps) auto
qed

lemma dec_string_nonempty: "dec_string n \<noteq> []"
  by (subst dec_string.simps) simp

lemma split_at_part: "c \<notin> set xs \<Longrightarrow> split_at c acc (xs @ c # ys) = (acc @ xs) # split_at c [] ys"
  by (induction xs arbitrary: acc) auto

lemma split_at_last: "c \<notin> set xs \<Longrightarrow> split_at c acc xs = [acc @ xs]"
  by (induction xs arbitrary: acc) auto

lemma split_at_join:
  "xs \<noteq> [] \<Longrightarrow> \<forall>x \<in> set xs. c \<notin> set x \<Longrightarrow> split_at c [] (join [c] xs) = xs"
proof (induction "[c]" xs rule: join.induct)
  case (3 x y ys)
  then show ?case by (simp add: split_at_part)
qed (simp_all add: split_at_last)

lemma dec_string_1: "n < 10 \<Longrightarrow> dec_string n = [digit_char n]"
  by (subst dec_string.simps) simp

lemma dec_string_2: "10 \<le> n \<Longrightarrow> n < 100 \<Longrightarrow> dec_string n = [digit_char (n div 10), digit_char (n mod 10)]"
  by (subst dec_string.simps) (simp add: dec_string_1)

lemma dec_string_3:
  "100 \<le> n \<Longrightarrow> n < 1000 \<Longrightarrow>
     dec_string n = [digit_char (n div 100), digit_char ((n div 10) mod 10), digit_char (n mod 10)]"
  by (subst dec_string.simps) (simp add: dec_string_2 div_mult2_eq [symmetric])

lemma dec_string_byte_cases:
  fixes b :: byte
  obtains "unat b < 10" | "10 \<le> unat b" "unat b < 100" | "100 \<le> unat b" "unat b < 1000"
  using byte_less [of b] by fastforce

lemma length_dec_string_byte: "length (dec_string (unat (b :: byte))) \<le> 3"
  by (rule dec_string_byte_cases [of b]) (simp_all add: dec_string_1 dec_string_2 dec_string_3)

lemma hex_string_small: "n < 16 \<Longrightarrow> hex_string n = [digit_char n]"
  by (subst hex_string.simps) simp

lemma digit_char_0: "digit_char 0 = CHR ''0''"
  by code_simp

lemma hex_pad_byte:
  "replicate (2 - length (hex_string (unat b))) (CHR ''0'') @ hex_string (unat b) = hex2 (b :: byte)"
proof (cases "unat b < 16")
  case True
  then show ?thesis by (simp add: hex_string_small hex2_def digit_char_0)
next
  case False
  then have "hex_string (unat b) = [digit_char (unat b div 16), digit_char (unat b mod 16)]"
    using byte_less [of b] by (subst hex_string.simps) (simp add: hex_string_small)
  then show ?thesis by (simp add: hex2_def)
qed

lemma put_mac_octet:
  "os_putnum 2 (unat (b :: byte)) (os_setfill (CHR ''0'') (os_set_hex os))
     = (os_puts (hex2 b) os)\<lparr>os_hex := True, os_fill := CHR ''0''\<rparr>"
  by (simp add: os_defs Let_def hex_pad_byte)

end
