(* ===== verification/PM_Value.thy ===== *)
theory PM_Value
  imports Std_Map Std_Stream
begin

text \<open>
  \<^verbatim>\<open>src/packetmachine/value.hpp\<close> and \<^verbatim>\<open>src/value.cc\<close>: the class \<^verbatim>\<open>Value\<close> and the classes derived from it.
  A \<^verbatim>\<open>Value\<close> does not own the bytes it shows: \<^verbatim>\<open>set\<close> stores a pointer, \<^verbatim>\<open>cpy\<close> copies into the value's own
  buffer. A pointer is therefore a symbolic address (null, an offset into the packet buffer, the own
  buffer, a reassembly buffer), and a read goes through the memory, failing when the range is not
  inside the object. Derived classes extend the base record by their class and its members, as the
  C++ classes extend \<^verbatim>\<open>Value\<close>; references between values are addresses in the property's tables.
\<close>

subsection \<open>State\<close>

datatype endian = LITTLE | BIG

datatype ptr =
    NullPtr
  | PktPtr nat
  | OwnPtr
  | BufPtr nat

record mem =
  m_pkt :: "byte list"
  m_buf :: "nat \<Rightarrow> byte list option"

record bvalue =
  v_active :: bool
  v_ptr :: ptr
  v_len :: nat
  v_buf :: "byte list"
  v_endian :: "endian option"

datatype vref =
    RNone
  | RVal nat nat

datatype vclass =
    VPlain
  | VNone
  | VArray "vref list"
  | VMap "(string, vref option) smap"
  | VIPv4Addr
  | VIPv6Addr
  | VPortNumber
  | VStorage "bvalue list"
  | VIcmpType
  | VIcmpCode "byte option"
  | VNSName "(ptr \<times> nat) option"
  | VNSData "(16 word \<times> ptr \<times> nat) option"
  | VNSType
  | VNSRecord "(string, vref option) smap"
  | VDhcpOption "(string, vref option) smap"

text \<open>The dynamic type of an object, for \<^verbatim>\<open>dynamic_cast\<close>.\<close>

fun class_name :: "vclass \<Rightarrow> string" where
  "class_name VPlain = ''Value''"
| "class_name VNone = ''None''"
| "class_name (VArray vs) = ''Array''"
| "class_name (VMap kvs) = ''Map''"
| "class_name VIPv4Addr = ''IPv4Addr''"
| "class_name VIPv6Addr = ''IPv6Addr''"
| "class_name VPortNumber = ''PortNumber''"
| "class_name (VStorage vs) = ''ValueStorage''"
| "class_name VIcmpType = ''IcmpType''"
| "class_name (VIcmpCode t) = ''IcmpCode''"
| "class_name (VNSName b) = ''NameServiceName''"
| "class_name (VNSData d) = ''NameServiceData''"
| "class_name VNSType = ''NameServiceType''"
| "class_name (VNSRecord kvs) = ''NameServiceRecord''"
| "class_name (VDhcpOption kvs) = ''DhcpOption''"

text \<open>The constructors of the map classes with named members put the entries that their iterators denote, and the modules only
  assign to them.\<close>

fun cls_wf :: "vclass \<Rightarrow> bool" where
  "cls_wf (VNSRecord kvs) = (map fst kvs = [''data'', ''name'', ''type''])"
| "cls_wf (VDhcpOption kvs) = (map fst kvs = [''data'', ''length'', ''type''])"
| "cls_wf c = True"

definition is_a :: "string \<Rightarrow> vclass \<Rightarrow> bool" where
  "is_a n c \<longleftrightarrow> class_name c = n \<and> cls_wf c"

record pvalue = bvalue +
  v_cls :: vclass

definition Value_new :: bvalue where
  "Value_new = \<lparr>v_active = False, v_ptr = NullPtr, v_len = 0, v_buf = [], v_endian = None\<rparr>"

definition new_object :: "vclass \<Rightarrow> pvalue" where
  "new_object c = bvalue.extend Value_new \<lparr>v_cls = c\<rparr>"

subsection \<open>Memory\<close>

fun ptr_add :: "ptr \<Rightarrow> nat \<Rightarrow> ptr" where
  "ptr_add (PktPtr off) n = PktPtr (off + n)"
| "ptr_add p n = p"

fun mem_read :: "mem \<Rightarrow> byte list \<Rightarrow> ptr \<Rightarrow> nat \<Rightarrow> byte list option" where
  "mem_read m own NullPtr n = (if n = 0 then Some [] else None)"
| "mem_read m own (PktPtr off) n = bslice_opt off n (m_pkt m)"
| "mem_read m own OwnPtr n = bslice_opt 0 n own"
| "mem_read m own (BufPtr k) n =
     (case m_buf m k of None \<Rightarrow> None | Some bs \<Rightarrow> bslice_opt 0 n bs)"

definition v_bytes :: "mem \<Rightarrow> 'a bvalue_scheme \<Rightarrow> byte list option" where
  "v_bytes m v = mem_read m (v_buf v) (v_ptr v) (v_len v)"

subsection \<open>Operations of Value\<close>

definition value_set :: "ptr \<Rightarrow> nat \<Rightarrow> endian \<Rightarrow> 'a bvalue_scheme \<Rightarrow> 'a bvalue_scheme" where
  "value_set p n e v = v\<lparr>v_active := True, v_endian := Some e, v_ptr := p, v_len := n\<rparr>"

definition value_cpy :: "byte list \<Rightarrow> endian \<Rightarrow> 'a bvalue_scheme \<Rightarrow> 'a bvalue_scheme" where
  "value_cpy bs e v =
     (let v = (if length (v_buf v) < length bs
               then v\<lparr>v_buf := v_buf v @ replicate (length bs - length (v_buf v)) 0\<rparr> else v)
      in v\<lparr>v_active := True, v_endian := Some e,
           v_buf := bs @ drop (length bs) (v_buf v), v_ptr := OwnPtr, v_len := length bs\<rparr>)"

definition isprint :: "byte \<Rightarrow> bool" where
  "isprint c \<longleftrightarrow> 32 \<le> unat c \<and> unat c \<le> 126"

definition char_of_byte :: "byte \<Rightarrow> char" where
  "char_of_byte b = char_of (unat b)"

definition repr_bytes :: "byte list \<Rightarrow> string" where
  "repr_bytes bs = map (\<lambda>c. if isprint c then char_of_byte c else CHR ''.'') bs"

definition value_repr :: "mem \<Rightarrow> 'a bvalue_scheme \<Rightarrow> ostream \<Rightarrow> ostream res" where
  "value_repr m v os =
     (if v_active v then
        (case v_bytes m v of None \<Rightarrow> Inl UndefinedBehaviour
         | Some bs \<Rightarrow> Inr (os_puts (repr_bytes bs) os))
      else Inr os)"

definition value_hex :: "mem \<Rightarrow> 'a bvalue_scheme \<Rightarrow> ostream \<Rightarrow> (ostream \<times> bool) res" where
  "value_hex m v os = Inr (os, False)"

definition is_hex :: "'a bvalue_scheme \<Rightarrow> bool" where "is_hex v = v_active v"

definition is_ip4 :: "'a bvalue_scheme \<Rightarrow> bool" where
  "is_ip4 v \<longleftrightarrow> v_active v \<and> v_len v = 4"

definition is_ip6 :: "'a bvalue_scheme \<Rightarrow> bool" where
  "is_ip6 v \<longleftrightarrow> v_active v \<and> v_len v = 16"

definition is_mac :: "'a bvalue_scheme \<Rightarrow> bool" where
  "is_mac v \<longleftrightarrow> v_active v \<and> v_len v = 6"

definition is_uint :: "'a bvalue_scheme \<Rightarrow> bool" where
  "is_uint v \<longleftrightarrow> v_active v \<and> (v_len v = 1 \<or> v_len v = 2 \<or> v_len v = 4 \<or> v_len v = 8)"

text \<open>
  The hand-written replacement of \<^verbatim>\<open>inet_ntop\<close>: the digits of one octet are stored through the
  running pointer, then a dot; the last dot is overwritten by the terminator.
\<close>

definition ip4_octet :: "byte \<Rightarrow> string" where
  "ip4_octet b =
     (let n = unat b
      in (if n \<ge> 100 then [char_of (n div 100 + 48)] else [])
       @ (if n \<ge> 10 then [char_of ((n div 10) mod 10 + 48)] else [])
       @ [char_of (n mod 10 + 48), CHR ''.''])"

fun ip4_fill :: "byte list \<Rightarrow> string \<Rightarrow> string" where
  "ip4_fill [] addr = addr"
| "ip4_fill (b # bs) addr = ip4_fill bs (addr @ ip4_octet b)"

definition value_ip4 :: "mem \<Rightarrow> 'a bvalue_scheme \<Rightarrow> ostream \<Rightarrow> (ostream \<times> bool) res" where
  "value_ip4 m v os =
     (if is_ip4 v then
        (case v_bytes m v of None \<Rightarrow> Inl UndefinedBehaviour
         | Some bs \<Rightarrow> Inr (os_puts (butlast (ip4_fill bs [])) os, True))
      else Inr (os, False))"

text \<open>\<^verbatim>\<open>inet_ntop(AF_INET6, ...)\<close> is a parameter: it belongs to the C library of the host.\<close>

definition value_ip6 ::
  "(byte list \<Rightarrow> string) \<Rightarrow> mem \<Rightarrow> 'a bvalue_scheme \<Rightarrow> ostream \<Rightarrow> (ostream \<times> bool) res" where
  "value_ip6 inet_ntop m v os =
     (if is_ip6 v then
        (case v_bytes m v of None \<Rightarrow> Inl UndefinedBehaviour
         | Some bs \<Rightarrow> Inr (os_puts (inet_ntop bs) os, True))
      else Inr (os, False))"

fun mac_fill :: "nat \<Rightarrow> byte list \<Rightarrow> ostream \<Rightarrow> ostream" where
  "mac_fill i [] os = os"
| "mac_fill i (b # bs) os =
     (let os = os_putnum 2 (unat b) (os_setfill (CHR ''0'') (os_set_hex os))
      in mac_fill (Suc i) bs (if i < 5 then os_puts '':'' os else os))"

definition value_mac :: "mem \<Rightarrow> 'a bvalue_scheme \<Rightarrow> ostream \<Rightarrow> (ostream \<times> bool) res" where
  "value_mac m v os =
     (if is_mac v then
        (case v_bytes m v of None \<Rightarrow> Inl UndefinedBehaviour
         | Some bs \<Rightarrow> Inr (mac_fill 0 bs os, True))
      else Inr (os, False))"

definition bswap64 :: "64 word \<Rightarrow> 64 word" where
  "bswap64 r =
     drop_bit 56 (r AND 0xFF00000000000000) OR
     drop_bit 40 (r AND 0x00FF000000000000) OR
     drop_bit 24 (r AND 0x0000FF0000000000) OR
     drop_bit 8 (r AND 0x000000FF00000000) OR
     push_bit 8 (r AND 0x00000000FF000000) OR
     push_bit 24 (r AND 0x0000000000FF0000) OR
     push_bit 40 (r AND 0x000000000000FF00) OR
     push_bit 56 (r AND 0x00000000000000FF)"

definition value_uint64 :: "mem \<Rightarrow> 'a bvalue_scheme \<Rightarrow> (64 word option) res" where
  "value_uint64 m v =
     (if is_uint v then
        (case (v_bytes m v, v_endian v) of
           (Some bs, Some e) \<Rightarrow>
             Inr (Some
               (if v_len v = 1 then ucast (load_le bs :: 8 word)
                else if v_len v = 2 then
                  (let t = load_le bs :: 16 word in ucast (if e = BIG then ntohs t else t))
                else if v_len v = 4 then
                  (let t = load_le bs :: 32 word in ucast (if e = BIG then ntohl t else t))
                else (let r = load_le bs :: 64 word in if e = BIG then bswap64 r else r)))
         | _ \<Rightarrow> Inl UndefinedBehaviour)
      else Inr None)"

definition value_uint :: "mem \<Rightarrow> 'a bvalue_scheme \<Rightarrow> (32 word option) res" where
  "value_uint m v = bind_res (value_uint64 m v) (\<lambda>d. Inr (map_option ucast d))"

definition value_uint_or_0 :: "mem \<Rightarrow> 'a bvalue_scheme \<Rightarrow> (32 word) res" where
  "value_uint_or_0 m v =
     (if v_active v \<and> is_uint v
      then bind_res (value_uint m v) (\<lambda>d. Inr (case d of Some x \<Rightarrow> x | None \<Rightarrow> 0))
      else Inr 0)"

definition value_uint64_or_0 :: "mem \<Rightarrow> 'a bvalue_scheme \<Rightarrow> (64 word) res" where
  "value_uint64_or_0 m v =
     (if v_active v \<and> is_uint v
      then bind_res (value_uint64 m v) (\<lambda>d. case d of Some x \<Rightarrow> Inr x | None \<Rightarrow> Inl UndefinedBehaviour)
      else Inr 0)"

definition value_raw :: "'a bvalue_scheme \<Rightarrow> (ptr \<times> nat) option" where
  "value_raw v = (if v_active v then Some (v_ptr v, v_len v) else None)"

subsection \<open>The derived classes\<close>

fun value_clear :: "pvalue \<Rightarrow> pvalue" where
  "value_clear v =
     (case v_cls v of
        VArray refs \<Rightarrow> v\<lparr>v_cls := VArray []\<rparr>
      | VMap m \<Rightarrow> v\<lparr>v_cls := VMap []\<rparr>
      | VNSRecord m \<Rightarrow> v\<lparr>v_cls := VNSRecord (smap_assign ''data'' (Some RNone) m)\<rparr>
      | VDhcpOption m \<Rightarrow>
          v\<lparr>v_cls := VDhcpOption (smap_assign ''data'' None
                       (smap_assign ''length'' None (smap_assign ''type'' None m)))\<rparr>
      | _ \<Rightarrow> v\<lparr>v_active := False\<rparr>)"

definition value_is_null :: "pvalue \<Rightarrow> bool" where
  "value_is_null v = (v_cls v = VNone)"

fun cls_is_array :: "vclass \<Rightarrow> bool" where
  "cls_is_array (VArray _) = True"
| "cls_is_array _ = False"

fun cls_map :: "vclass \<Rightarrow> (string, vref option) smap option" where
  "cls_map (VMap m) = Some m"
| "cls_map (VNSRecord m) = Some m"
| "cls_map (VDhcpOption m) = Some m"
| "cls_map _ = None"

definition cls_is_map :: "vclass \<Rightarrow> bool" where
  "cls_is_map c = (cls_map c \<noteq> None)"

fun cls_size :: "vclass \<Rightarrow> nat" where
  "cls_size (VArray refs) = length refs"
| "cls_size (VStorage vs) = length vs"
| "cls_size c = (case cls_map c of Some m \<Rightarrow> length m | None \<Rightarrow> 0)"

fun array_get :: "vclass \<Rightarrow> nat \<Rightarrow> vref res" where
  "array_get (VArray refs) idx = Inr (if idx < length refs then refs ! idx else RNone)"
| "array_get c idx = Inl (TypeError ''not Array'')"

fun array_push :: "vref \<Rightarrow> vclass \<Rightarrow> vclass res" where
  "array_push r (VArray refs) = Inr (VArray (refs @ [r]))"
| "array_push r c = Inl (TypeError ''not Array'')"

text \<open>\<^verbatim>\<open>Map::find\<close> dereferences the stored pointer, which may be null.\<close>

definition map_find :: "vclass \<Rightarrow> string \<Rightarrow> vref res" where
  "map_find c key =
     (case cls_map c of
        None \<Rightarrow> Inl (TypeError ''not Map'')
      | Some m \<Rightarrow>
          (case smap_find m key of
             None \<Rightarrow> Inr RNone
           | Some None \<Rightarrow> Inl UndefinedBehaviour
           | Some (Some r) \<Rightarrow> Inr r))"

fun map_insert :: "string \<Rightarrow> vref \<Rightarrow> vclass \<Rightarrow> vclass res" where
  "map_insert key r (VMap m) = Inr (VMap (smap_insert key (Some r) m))"
| "map_insert key r (VNSRecord m) = Inr (VNSRecord (smap_insert key (Some r) m))"
| "map_insert key r (VDhcpOption m) = Inr (VDhcpOption (smap_insert key (Some r) m))"
| "map_insert key r c = Inl (TypeError ''not Map'')"

definition port_repr :: "mem \<Rightarrow> 'a bvalue_scheme \<Rightarrow> ostream \<Rightarrow> ostream res" where
  "port_repr m v os =
     bind_res (value_uint64 m v)
       (\<lambda>d. case d of Some x \<Rightarrow> Inr (os_putnum 0 (unat x) os) | None \<Rightarrow> Inl UndefinedBehaviour)"

definition ipv4addr_repr :: "mem \<Rightarrow> 'a bvalue_scheme \<Rightarrow> ostream \<Rightarrow> ostream res" where
  "ipv4addr_repr m v os = bind_res (value_ip4 m v os) (\<lambda>(os, _). Inr os)"

definition ipv6addr_repr ::
  "(byte list \<Rightarrow> string) \<Rightarrow> mem \<Rightarrow> 'a bvalue_scheme \<Rightarrow> ostream \<Rightarrow> ostream res" where
  "ipv6addr_repr inet_ntop m v os = bind_res (value_ip6 inet_ntop m v os) (\<lambda>(os, _). Inr os)"

subsection \<open>set and cpy\<close>

lemma value_set_sel [simp]:
  "v_active (value_set p n e v)" "v_ptr (value_set p n e v) = p" "v_len (value_set p n e v) = n"
  "v_endian (value_set p n e v) = Some e" "v_buf (value_set p n e v) = v_buf v"
  by (simp_all add: value_set_def)

lemma v_cls_value_set [simp]: "v_cls (value_set p n e v) = v_cls v"
  by (simp add: value_set_def)

lemma value_cpy_sel [simp]:
  "v_active (value_cpy bs e v)" "v_ptr (value_cpy bs e v) = OwnPtr"
  "v_len (value_cpy bs e v) = length bs" "v_endian (value_cpy bs e v) = Some e"
  by (simp_all add: value_cpy_def Let_def)

lemma v_cls_value_cpy [simp]: "v_cls (value_cpy bs e v) = v_cls v"
  by (simp add: value_cpy_def Let_def)

lemma v_bytes_set_pkt [simp]: "v_bytes m (value_set (PktPtr off) n e v) = bslice_opt off n (m_pkt m)"
  by (simp add: v_bytes_def)

lemma v_bytes_cpy [simp]: "v_bytes m (value_cpy bs e v) = Some bs"
  by (simp add: v_bytes_def value_cpy_def Let_def bslice_def)

lemma new_object_sel [simp]:
  "v_cls (new_object c) = c" "v_active (new_object c) = False"
  "v_ptr (new_object c) = NullPtr" "v_len (new_object c) = 0"
  by (simp_all add: new_object_def Value_new_def bvalue.defs)

subsection \<open>Numbers\<close>

lemma bswap64_load_le:
  "bswap64 (load_le [a, b, c, d, e, f, g, h]) = load_le [h, g, f, e, d, c, b, a]"
proof (rule bit_word_eqI)
  fix n assume "n < LENGTH(64)"
  then have "n \<in> set [0..<64]" by simp
  then show "bit (bswap64 (load_le [a, b, c, d, e, f, g, h])) n
             = bit (load_le [h, g, f, e, d, c, b, a] :: 64 word) n"
    by (simp add: upt_conv_Cons)
      (elim disjE; simp add: bswap64_def bit_simps bit_load_le flip: numeral_2_eq_2)
qed

lemma length_v_bytes: "v_bytes m v = Some bs \<Longrightarrow> length bs = v_len v"
  by (cases "v_ptr v") (auto simp: v_bytes_def split: if_splits option.splits)

lemma unat_ucast_64:
  "unat (ucast (x :: 8 word) :: 64 word) = unat x"
  "unat (ucast (y :: 16 word) :: 64 word) = unat y"
  "unat (ucast (z :: 32 word) :: 64 word) = unat z"
  by (simp_all add: unsigned_ucast_eq)
    (simp_all add: take_bit_nat_eq_self_iff order_less_le_trans [OF unsigned_less])

text \<open>
  C31: \<^verbatim>\<open>Value::uint64\<close> returns the number its bytes denote in the byte order the value was set with:
  for an active value of 1, 2, 4 or 8 readable bytes the host load followed by \<^verbatim>\<open>ntohs\<close>, \<^verbatim>\<open>ntohl\<close> or
  the masked 64-bit swap is the big-endian number for \<^verbatim>\<open>BIG\<close> and the little-endian one for \<^verbatim>\<open>LITTLE\<close>.
\<close>

theorem value_uint64_number:
  assumes "v_active v" and "v_bytes m v = Some bs" and "v_endian v = Some e"
    and "length bs \<in> {1, 2, 4, 8}"
  shows "\<exists>d. value_uint64 m v = Inr (Some d)
             \<and> unat d = (if e = BIG then be_nat bs else le_nat bs)"
proof -
  have len: "v_len v = length bs"
    using assms(2) by (simp add: length_v_bytes)
  have uint: "is_uint v"
    using assms(1,4) len by (auto simp: is_uint_def)
  consider a where "bs = [a]" | a b where "bs = [a, b]" | a b c d where "bs = [a, b, c, d]"
    | a b c d e f g h where "bs = [a, b, c, d, e, f, g, h]"
    using assms(4) by (auto simp: numeral_eq_Suc length_Suc_conv)
  then show ?thesis
    by cases
      (use assms len uint in \<open>auto simp: value_uint64_def be_nat_def unat_ucast_64 unat_load_le Let_def
         ntohs_load_le ntohl_load_le bswap64_load_le\<close>)
qed

theorem value_uint64_number_witness:
  "\<exists>d. value_uint64 \<lparr>m_pkt = [0, 0x12, 0x34, 0x56, 0x78], m_buf = (\<lambda>_. None)\<rparr>
          (value_set (PktPtr 1) 4 BIG Value_new) = Inr (Some d) \<and> unat d = 0x12345678"
  using value_uint64_number [of "value_set (PktPtr 1) 4 BIG Value_new"
      "\<lparr>m_pkt = [0, 0x12, 0x34, 0x56, 0x78], m_buf = (\<lambda>_. None)\<rparr>" "[0x12, 0x34, 0x56, 0x78]" BIG]
  by (simp add: be_nat_def bslice_def)

subsection \<open>Addresses\<close>

lemma ip4_octet_dec: "ip4_octet b = dec_string (unat b) @ ''.''"
  by (rule dec_string_byte_cases [of b])
    (simp_all add: ip4_octet_def dec_string_1 dec_string_2 dec_string_3 digit_char_def add.commute Let_def)

lemma ip4_fill_join:
  "bs \<noteq> [] \<Longrightarrow> ip4_fill bs acc = acc @ join ''.'' (map (dec_string \<circ> unat) bs) @ ''.''"
proof (induction bs acc rule: ip4_fill.induct)
  case (2 b bs acc)
  then show ?case by (cases bs) (simp_all add: ip4_octet_dec)
qed simp

text \<open>
  The hand-written octet loop of \<^verbatim>\<open>Value::ip4\<close> prints the dotted decimal of the four bytes: the text is
  the decimal numbers joined by dots, cutting it at the dots and reading the parts gives the bytes back,
  and with its terminator it fits the buffer of \<^verbatim>\<open>INET_ADDRSTRLEN\<close> (16) characters.
\<close>

theorem value_ip4_dotted:
  assumes "is_ip4 v" and "v_bytes m v = Some bs"
  shows "\<exists>t. value_ip4 m v os = Inr (os_puts t os, True)
           \<and> t = join ''.'' (map (dec_string \<circ> unat) bs)
           \<and> map dec_val (split_at (CHR ''.'') [] t) = map unat bs
           \<and> length t < 16"
proof -
  from assms have "length bs = 4"
    by (cases "v_ptr v") (auto simp: v_bytes_def is_ip4_def split: if_splits option.splits)
  then obtain a b c d where bs: "bs = [a, b, c, d]"
    by (rule list_length_cases_4)
  let ?t = "join ''.'' (map (dec_string \<circ> unat) bs)"
  have "value_ip4 m v os = Inr (os_puts ?t os, True)"
    using assms by (simp add: value_ip4_def bs ip4_octet_dec butlast_append)
  moreover have "map dec_val (split_at (CHR ''.'') [] ?t) = map unat bs"
    by (subst split_at_join) (auto simp: bs dec_string_no_dot dec_val_string)
  moreover have "length ?t < 16"
    using length_dec_string_byte [of a] length_dec_string_byte [of b]
      length_dec_string_byte [of c] length_dec_string_byte [of d] by (simp add: bs)
  ultimately show ?thesis by blast
qed

theorem value_ip4_dotted_witness:
  "value_ip4 \<lparr>m_pkt = [192, 168, 0, 10], m_buf = (\<lambda>_. None)\<rparr>
     (value_set (PktPtr 0) 4 BIG Value_new) os_new = Inr (os_puts ''192.168.0.10'' os_new, True)"
proof -
  have "join ''.'' (map (dec_string \<circ> unat) [192, 168, 0, 10 :: byte]) = ''192.168.0.10''"
    by code_simp
  then show ?thesis
    using value_ip4_dotted [of "value_set (PktPtr 0) 4 BIG Value_new"
        "\<lparr>m_pkt = [192, 168, 0, 10], m_buf = (\<lambda>_. None)\<rparr>" "[192, 168, 0, 10]" os_new]
    by (simp add: is_ip4_def bslice_def del: join.simps list.map)
qed

text \<open>
  \<^verbatim>\<open>Value::mac\<close> prints the six bytes as two lower-case hexadecimal digits each, joined by colons,
  and leaves the stream in hexadecimal with fill character \<^verbatim>\<open>0\<close>: a number inserted into the same stream
  afterwards, such as a port printed by \<^verbatim>\<open>PortNumber::repr\<close>, comes out in hexadecimal.
\<close>

theorem value_mac_colons:
  assumes "is_mac v" and "v_bytes m v = Some bs" and "value_uint64 m w = Inr (Some port)"
  shows "\<exists>os'. value_mac m v os = Inr (os', True)
           \<and> os_text os' = os_text os @ join '':'' (map hex2 bs)
           \<and> port_repr m w os' = Inr (os_puts (hex_string (unat port)) os')"
proof -
  from assms have "length bs = 6"
    by (simp add: length_v_bytes is_mac_def)
  then obtain a b c d e f where bs: "bs = [a, b, c, d, e, f]"
    by (auto simp: numeral_eq_Suc length_Suc_conv)
  have "value_mac m v os =
     Inr ((os_puts (join '':'' (map hex2 bs)) os)\<lparr>os_hex := True, os_fill := CHR ''0''\<rparr>, True)"
    using assms by (simp add: value_mac_def bs put_mac_octet Let_def) (simp add: os_defs)
  with assms(3) show ?thesis
    by (simp add: port_repr_def os_defs Let_def)
qed

theorem value_mac_colons_witness:
  "\<exists>os'. value_mac \<lparr>m_pkt = [1, 2, 3, 4, 5, 0xff, 0, 80], m_buf = (\<lambda>_. None)\<rparr>
            (value_set (PktPtr 0) 6 BIG Value_new) os_new = Inr (os', True)
       \<and> os_text os' = ''01:02:03:04:05:ff''
       \<and> port_repr \<lparr>m_pkt = [1, 2, 3, 4, 5, 0xff, 0, 80], m_buf = (\<lambda>_. None)\<rparr>
            (value_set (PktPtr 6) 2 BIG Value_new) os' = Inr (os_puts ''50'' os')"
proof -
  let ?m = "\<lparr>m_pkt = [1, 2, 3, 4, 5, 0xff, 0, 80], m_buf = (\<lambda>_. None)\<rparr>"
  have "value_uint64 ?m (value_set (PktPtr 6) 2 BIG Value_new) = Inr (Some 80)"
    by code_simp
  moreover have "hex_string 80 = ''50''"
    by code_simp
  moreover have "join '':'' (map hex2 [1, 2, 3, 4, 5, 0xff]) = ''01:02:03:04:05:ff''"
    by code_simp
  ultimately show ?thesis
    using value_mac_colons [of "value_set (PktPtr 0) 6 BIG Value_new" ?m "[1, 2, 3, 4, 5, 0xff]"
        "value_set (PktPtr 6) 2 BIG Value_new" 80 os_new]
    by (simp add: is_mac_def bslice_def os_new_def)
qed

end
