(* ===== verification/PM_Packet.thy ===== *)
theory PM_Packet
  imports PM_Value
begin

text \<open>
  \<^verbatim>\<open>src/packet.cc\<close> (class \<^verbatim>\<open>Packet\<close>, the captured bytes in a buffer that is reused for later packets) and
  class \<^verbatim>\<open>Payload\<close> of \<^verbatim>\<open>src/property.cc\<close> (the decoding cursor over a packet). The locale \<open>reader\<close> is what
  the protocol modules rely on: \<^verbatim>\<open>retain\<close> hands out consecutive ranges that lie inside the packet, or
  nothing at all.
\<close>

subsection \<open>Packet\<close>

record timeval =
  tv_sec :: int
  tv_usec :: int

record packet =
  pk_len :: nat
  pk_cap_len :: "64 word"
  pk_buf_len :: nat
  pk_buf :: "byte list option"
  pk_tv :: timeval

text \<open>The constructor leaves \<^verbatim>\<open>len_\<close>, \<^verbatim>\<open>cap_len_\<close> and \<^verbatim>\<open>tv_\<close> uninitialised: arguments here.\<close>

definition Packet_new :: "nat \<Rightarrow> 64 word \<Rightarrow> timeval \<Rightarrow> packet" where
  "Packet_new len0 cap0 tv0 =
     \<lparr>pk_len = len0, pk_cap_len = cap0, pk_buf_len = 0, pk_buf = None, pk_tv = tv0\<rparr>"

text \<open>\<open>realloc n\<close> says whether the allocation of \<open>n\<close> bytes succeeds.\<close>

definition packet_store :: "(nat \<Rightarrow> bool) \<Rightarrow> byte list \<Rightarrow> packet \<Rightarrow> bool \<times> packet" where
  "packet_store realloc data pkt =
     (if pk_buf pkt = None \<or> pk_buf_len pkt < length data then
        (if \<not> realloc (length data) then (False, pkt\<lparr>pk_buf := None\<rparr>)
         else (True, pkt\<lparr>pk_buf := Some data, pk_buf_len := length data, pk_len := length data\<rparr>))
      else (True, pkt\<lparr>pk_buf := map_option (\<lambda>b. data @ drop (length data) b) (pk_buf pkt),
                      pk_len := length data\<rparr>))"

definition packet_set_cap_len :: "32 word \<Rightarrow> packet \<Rightarrow> packet" where
  "packet_set_cap_len c pkt = pkt\<lparr>pk_cap_len := ucast c\<rparr>"

definition packet_set_tv :: "timeval \<Rightarrow> packet \<Rightarrow> packet" where
  "packet_set_tv tv pkt = pkt\<lparr>pk_tv := \<lparr>tv_sec = tv_sec tv, tv_usec = tv_usec tv\<rparr>\<rparr>"

text \<open>The bytes of the packet that is stored now: the first \<^verbatim>\<open>len_\<close> bytes of the buffer.\<close>

definition packet_bytes :: "packet \<Rightarrow> byte list" where
  "packet_bytes pkt = (case pk_buf pkt of None \<Rightarrow> [] | Some b \<Rightarrow> take (pk_len pkt) b)"

definition packet_wf :: "packet \<Rightarrow> bool" where
  "packet_wf pkt \<longleftrightarrow> (case pk_buf pkt of None \<Rightarrow> True | Some b \<Rightarrow> length b = pk_buf_len pkt)"

subsection \<open>Payload\<close>

record payload =
  pl_pkt :: bool
  pl_ptr :: nat
  pl_end :: nat
  pl_length :: nat

definition payload_reset :: "packet \<Rightarrow> payload \<Rightarrow> payload" where
  "payload_reset pkt pd =
     pd\<lparr>pl_pkt := True, pl_length := pk_len pkt, pl_ptr := 0, pl_end := 0 + pk_len pkt\<rparr>"

definition payload_retain :: "nat \<Rightarrow> payload \<Rightarrow> (nat option \<times> payload) res" where
  "payload_retain sz pd =
     (if \<not> pl_pkt pd then Inl AssertFailed
      else
        let n = pl_ptr pd + sz; p = pl_ptr pd
        in if sz \<le> pl_length pd \<and> n \<le> pl_end pd
           then Inr (Some p, pd\<lparr>pl_length := pl_length pd - sz, pl_ptr := n\<rparr>)
           else Inr (None, pd))"

definition payload_shrink :: "nat \<Rightarrow> payload \<Rightarrow> bool \<times> payload" where
  "payload_shrink n pd = (if n > pl_length pd then (False, pd) else (True, pd\<lparr>pl_length := n\<rparr>))"

definition payload_eop :: "payload \<Rightarrow> bool" where
  "payload_eop pd = (pl_length pd = 0)"

text \<open>The cursor stays inside a packet of \<open>N\<close> bytes.\<close>

definition payload_inv :: "nat \<Rightarrow> payload \<Rightarrow> bool" where
  "payload_inv N pd \<longleftrightarrow> pl_pkt pd \<and> pl_ptr pd + pl_length pd \<le> pl_end pd \<and> pl_end pd \<le> N"

subsection \<open>What the modules rely on\<close>

text \<open>A sequence of retains, stopping at the first that fails; the offsets handed out.\<close>

fun retain_run ::
  "(nat \<Rightarrow> 's \<Rightarrow> (nat option \<times> 's) res) \<Rightarrow> nat list \<Rightarrow> 's \<Rightarrow> (nat list option \<times> 's) res" where
  "retain_run retain [] s = Inr (Some [], s)"
| "retain_run retain (n # ns) s =
     bind_res (retain n s) (\<lambda>(r, s').
       case r of None \<Rightarrow> Inr (None, s')
       | Some off \<Rightarrow>
           bind_res (retain_run retain ns s') (\<lambda>(offs, s''). Inr (map_option ((#) off) offs, s'')))"

locale reader =
  fixes retain :: "nat \<Rightarrow> 's \<Rightarrow> (nat option \<times> 's) res"
    and pos :: "'s \<Rightarrow> nat"
    and remaining :: "'s \<Rightarrow> nat"
    and inv :: "nat \<Rightarrow> 's \<Rightarrow> bool"
  assumes inv_range: "inv N s \<Longrightarrow> pos s + remaining s \<le> N"
    and retain_ok: "inv N s \<Longrightarrow> sz \<le> remaining s \<Longrightarrow>
      \<exists>s'. retain sz s = Inr (Some (pos s), s') \<and> inv N s'
           \<and> pos s' = pos s + sz \<and> remaining s' = remaining s - sz"
    and retain_short: "inv N s \<Longrightarrow> remaining s < sz \<Longrightarrow> retain sz s = Inr (None, s)"
begin

lemma retain_total:
  assumes "inv N s"
  obtains (ok) s' where "sz \<le> remaining s" "retain sz s = Inr (Some (pos s), s')" "inv N s'"
      "pos s' = pos s + sz" "remaining s' = remaining s - sz" "pos s + sz \<le> N"
  | (short) "remaining s < sz" "retain sz s = Inr (None, s)"
proof (cases "sz \<le> remaining s")
  case True
  with retain_ok [OF assms True] inv_range [OF assms] show ?thesis
    using ok by fastforce
next
  case False
  with retain_short [OF assms] show ?thesis
    using short by simp
qed

lemma retain_inv:
  assumes "inv N s" and "retain sz s = Inr (r, s')"
  shows "inv N s'"
  using assms(1) by (rule retain_total [where sz = sz]) (use assms in auto)

lemma retain_in_bounds:
  "inv N s \<Longrightarrow> retain sz s = Inr (Some off, s') \<Longrightarrow> off = pos s \<and> off + sz \<le> N"
  by (erule retain_total [where sz = sz]) auto

lemma retain_remaining_le: "inv N s \<Longrightarrow> retain sz s = Inr (r, s') \<Longrightarrow> remaining s' \<le> remaining s"
  by (erule retain_total [where sz = sz]) auto

text \<open>A run of retains succeeds when the sizes add up to at most what is left.\<close>

lemma run_ok:
  "inv N s \<Longrightarrow> sum_list ns \<le> remaining s \<Longrightarrow>
     \<exists>offs s'. retain_run retain ns s = Inr (Some offs, s') \<and> inv N s' \<and> pos s' = pos s + sum_list ns
       \<and> length offs = length ns
       \<and> concat (map2 (\<lambda>off n. bslice off n bs) offs ns) = bslice (pos s) (sum_list ns) bs"
proof (induction ns arbitrary: s)
  case Nil
  then show ?case by simp
next
  case (Cons n ns)
  then have "n \<le> remaining s" by simp
  with retain_ok [OF Cons.prems(1)] obtain s' where
    s': "retain n s = Inr (Some (pos s), s')" "inv N s'" "pos s' = pos s + n"
      "remaining s' = remaining s - n" by blast
  with Cons.IH [of s'] Cons.prems(2) obtain offs s'' where
    *: "retain_run retain ns s' = Inr (Some offs, s'')" "inv N s''" "pos s'' = pos s' + sum_list ns"
      "length offs = length ns"
      "concat (map2 (\<lambda>off n. bslice off n bs) offs ns) = bslice (pos s') (sum_list ns) bs"
    by fastforce
  have "bslice (pos s) n bs @ bslice (pos s + n) (sum_list ns) bs = bslice (pos s) (n + sum_list ns) bs"
    by (simp add: bslice_def take_add add.commute)
  with s' * show ?case by simp
qed

end

lemma payload_retain_ok:
  "payload_inv N pd \<Longrightarrow> sz \<le> pl_length pd \<Longrightarrow>
     payload_retain sz pd =
       Inr (Some (pl_ptr pd), pd\<lparr>pl_length := pl_length pd - sz, pl_ptr := pl_ptr pd + sz\<rparr>)"
  by (auto simp: payload_retain_def payload_inv_def)

lemma payload_retain_short:
  "payload_inv N pd \<Longrightarrow> pl_length pd < sz \<Longrightarrow> payload_retain sz pd = Inr (None, pd)"
  by (auto simp: payload_retain_def payload_inv_def)

interpretation rd: reader payload_retain pl_ptr pl_length payload_inv
proof unfold_locales
  fix N pd sz
  assume "payload_inv N pd" and "sz \<le> pl_length pd"
  then show "\<exists>s'. payload_retain sz pd = Inr (Some (pl_ptr pd), s') \<and> payload_inv N s'
      \<and> pl_ptr s' = pl_ptr pd + sz \<and> pl_length s' = pl_length pd - sz"
    by (simp add: payload_retain_ok) (auto simp: payload_inv_def)
qed (auto simp: payload_retain_short payload_inv_def)

lemma payload_shrink_inv: "payload_inv N pd \<Longrightarrow> payload_inv N (snd (payload_shrink n pd))"
  by (auto simp: payload_inv_def payload_shrink_def)

lemma payload_shrink_length: "pl_length (snd (payload_shrink n pd)) = min n (pl_length pd)"
  by (auto simp: payload_shrink_def)

lemma payload_reset_inv: "payload_inv (pk_len pkt) (payload_reset pkt pd)"
  by (simp add: payload_inv_def payload_reset_def)

lemma payload_reset_sel [simp]:
  "pl_ptr (payload_reset pkt pd) = 0" "pl_length (payload_reset pkt pd) = pk_len pkt"
  by (simp_all add: payload_reset_def)

lemma packet_store_wf: "packet_wf pkt \<Longrightarrow> packet_wf (snd (packet_store realloc data pkt))"
  by (auto simp: packet_wf_def packet_store_def split: option.splits)

lemma packet_store_bytes:
  "packet_wf pkt \<Longrightarrow> fst (packet_store realloc data pkt) \<Longrightarrow>
     packet_bytes (snd (packet_store realloc data pkt)) = data
     \<and> pk_len (snd (packet_store realloc data pkt)) = length data"
  by (auto simp: packet_wf_def packet_store_def packet_bytes_def split: option.splits if_splits)

text \<open>
  C32: a stored packet is what the decoder reads. Whatever the packet object held before, after a
  successful \<^verbatim>\<open>store\<close> and \<^verbatim>\<open>Payload::reset\<close> any sequence of \<^verbatim>\<open>retain\<close> calls whose sizes add up to at most
  the packet length succeeds, every returned range lies inside the packet, and the ranges read one
  after the other are the stored bytes from the beginning.
\<close>

theorem store_reset_retain:
  assumes "packet_wf pkt" and "packet_store realloc data pkt = (True, pkt')"
    and "sum_list ns \<le> length data"
  shows "\<exists>offs pd'. retain_run payload_retain ns (payload_reset pkt' pd) = Inr (Some offs, pd')
     \<and> payload_inv (length data) pd' \<and> pl_ptr pd' = sum_list ns
     \<and> concat (map2 (\<lambda>off n. bslice off n (packet_bytes pkt')) offs ns) = take (sum_list ns) data"
proof -
  have st: "packet_bytes pkt' = data" "pk_len pkt' = length data"
    using packet_store_bytes [OF assms(1), of realloc data] assms(2) by simp_all
  have "payload_inv (length data) (payload_reset pkt' pd)"
    using payload_reset_inv [of pkt' pd] by (simp add: st)
  then show ?thesis
    using rd.run_ok [of "length data" "payload_reset pkt' pd" ns data] assms(3)
    by (auto simp: st bslice_def)
qed

theorem store_reset_retain_witness:
  "\<exists>offs pd'. retain_run payload_retain [2, 3]
       (payload_reset (snd (packet_store (\<lambda>_. True) [1, 2, 3, 4, 5, 6, 7]
          (Packet_new 99 0 \<lparr>tv_sec = 0, tv_usec = 0\<rparr>)))
        \<lparr>pl_pkt = False, pl_ptr = 0, pl_end = 0, pl_length = 0\<rparr>) = Inr (Some offs, pd')
     \<and> pl_ptr pd' = 5"
proof -
  let ?pkt = "Packet_new 99 0 \<lparr>tv_sec = 0, tv_usec = 0\<rparr>"
  let ?data = "[1, 2, 3, 4, 5, 6, 7] :: byte list"
  have "packet_wf ?pkt" by (simp add: packet_wf_def Packet_new_def)
  moreover have "packet_store (\<lambda>_. True) ?data ?pkt
      = (True, snd (packet_store (\<lambda>_. True) ?data ?pkt))"
    by (simp add: packet_store_def Packet_new_def)
  moreover have "sum_list [2, 3] \<le> length ?data" by simp
  ultimately show ?thesis
    using store_reset_retain [of ?pkt "\<lambda>_. True" ?data
        "snd (packet_store (\<lambda>_. True) ?data ?pkt)" "[2, 3]"
        "\<lparr>pl_pkt = False, pl_ptr = 0, pl_end = 0, pl_length = 0\<rparr>"]
    by fastforce
qed

end
