(* ===== verification/PM_Config.thy ===== *)
theory PM_Config
  imports Std_Map
begin

text \<open>
  \<^verbatim>\<open>src/packetmachine/config.hpp\<close> and \<^verbatim>\<open>src/config.cc\<close>: typed configuration values and the key/value
  store a user hands to \<^verbatim>\<open>Machine\<close>. A value answers only the accessor of its own type and raises
  \<^verbatim>\<open>TypeError\<close> otherwise; the store raises \<^verbatim>\<open>KeyError\<close> for a missing key.
\<close>

datatype config_value =
    CInt (cv_key: string) int
  | CStr (cv_key: string) string
  | CBool (cv_key: string) bool

type_synonym config = "(string, config_value) smap"

fun as_bool :: "config_value \<Rightarrow> bool res" where
  "as_bool (CBool k b) = Inr b"
| "as_bool v = Inl (TypeError (''config: '' @ cv_key v @ '' does not allow bool type''))"

fun as_int :: "config_value \<Rightarrow> int res" where
  "as_int (CInt k i) = Inr i"
| "as_int v = Inl (TypeError (''config: '' @ cv_key v @ '' does not allow int type''))"

fun as_str :: "config_value \<Rightarrow> string res" where
  "as_str (CStr k s) = Inr s"
| "as_str v = Inl (TypeError (''config: '' @ cv_key v @ '' does not allow str type''))"

fun config_rename :: "string \<Rightarrow> config_value \<Rightarrow> config_value" where
  "config_rename n (CInt k i) = CInt n i"
| "config_rename n (CStr k s) = CStr n s"
| "config_rename n (CBool k b) = CBool n b"

definition config_set_ptr :: "string \<Rightarrow> config_value \<Rightarrow> config \<Rightarrow> config" where
  "config_set_ptr key v c =
     (case smap_find c key of
        None \<Rightarrow> smap_insert key v c
      | Some _ \<Rightarrow> smap_assign key v c)"

definition make_value_int :: "string \<Rightarrow> int \<Rightarrow> config_value" where
  "make_value_int key val = CInt key val"

definition make_value_bool :: "string \<Rightarrow> bool \<Rightarrow> config_value" where
  "make_value_bool key val = CBool key val"

definition make_value_str :: "string \<Rightarrow> string \<Rightarrow> config_value" where
  "make_value_str key val = CStr key val"

definition config_set_int :: "string \<Rightarrow> int \<Rightarrow> config \<Rightarrow> config" where
  "config_set_int key val c = config_set_ptr key (make_value_int key val) c"

definition config_set_str :: "string \<Rightarrow> string \<Rightarrow> config \<Rightarrow> config" where
  "config_set_str key val c = config_set_ptr key (make_value_str key val) c"

definition config_set_true :: "string \<Rightarrow> config \<Rightarrow> config" where
  "config_set_true key c = config_set_ptr key (make_value_bool key True) c"

definition config_set_false :: "string \<Rightarrow> config \<Rightarrow> config" where
  "config_set_false key c = config_set_ptr key (make_value_bool key False) c"

definition config_has :: "string \<Rightarrow> config \<Rightarrow> bool" where
  "config_has key c = (smap_find c key \<noteq> None)"

definition config_get :: "string \<Rightarrow> config \<Rightarrow> config_value res" where
  "config_get key c =
     (case smap_find c key of
        None \<Rightarrow> Inl (KeyError (key @ '' does not exist''))
      | Some v \<Rightarrow> Inr v)"

text \<open>\<^verbatim>\<open>get\<close> returns a reference to the value and \<^verbatim>\<open>ptr\<close> the shared pointer; the values are immutable once they are stored.\<close>

definition config_ptr :: "string \<Rightarrow> config \<Rightarrow> config_value res" where
  "config_ptr key c =
     (case smap_find c key of
        None \<Rightarrow> Inl (KeyError (key @ '' does not exist''))
      | Some v \<Rightarrow> Inr v)"

lemma config_set_ptr_wf: "smap_wf c \<Longrightarrow> smap_wf (config_set_ptr key v c)"
  by (simp add: config_set_ptr_def sm.wf_insert smap_wf_assign split: option.split)

lemma config_find_set_ptr:
  "smap_wf c \<Longrightarrow> smap_find (config_set_ptr key v c) q = (if q = key then Some v else smap_find c q)"
  by (auto simp: config_set_ptr_def sm.find_insert smap_find_assign split: option.split)

lemma config_get_set_ptr:
  "smap_wf c \<Longrightarrow>
     config_get q (config_set_ptr key v c) = (if q = key then Inr v else config_get q c)"
  by (simp add: config_get_def config_find_set_ptr)

lemmas config_setters = config_set_int_def config_set_str_def config_set_true_def config_set_false_def
  make_value_int_def make_value_bool_def make_value_str_def



end
