(* ===== verification/PM_Module.thy ===== *)
theory PM_Module
  imports PM_Packet PM_Config
begin

text \<open>
  \<^verbatim>\<open>src/module.hpp\<close> and \<^verbatim>\<open>src/module.cc\<close>: the definitions a protocol module registers. A \<^verbatim>\<open>ParamDef\<close>
  carries the constructor of its values; a \<^verbatim>\<open>MajorParamDef\<close> has minor parameters whose values are
  computed on demand by a deferred function from the header bytes the major value points to. The
  members that only \<^verbatim>\<open>finalize\<close> sets hold \<^verbatim>\<open>NONE\<close> before.
\<close>

subsection \<open>Definitions of parameters, events and configurations\<close>

type_synonym deferred = "mem \<Rightarrow> ptr \<Rightarrow> bvalue \<Rightarrow> bvalue res"

record mdef =
  mn_module_id :: mod_id
  mn_id :: param_id
  mn_key :: param_id
  mn_name :: string
  mn_local_name :: string
  mn_minor_id :: param_id
  mn_defer :: deferred

record pdef =
  df_module_id :: mod_id
  df_id :: param_id
  df_key :: param_id
  df_name :: string
  df_local_name :: string
  df_cons :: vclass
  df_minors :: "(string, mdef) smap option"

record edef =
  ev_module_id :: mod_id
  ev_id :: event_id
  ev_name :: string
  ev_local_name :: string

record cdef =
  cd_module_id :: mod_id
  cd_name :: string
  cd_local_name :: string
  cd_default :: "config_value option"

record pmodule =
  mo_param_map :: "(string, pdef) smap"
  mo_event_map :: "(string, edef) smap"
  mo_config_map :: "(string, cdef) smap"
  mo_id :: mod_id
  mo_name :: string

definition Module_NONE :: mod_id where "Module_NONE = -1"

text \<open>The constructors. The ids that a constructor leaves uninitialised are \<open>-1\<close> here; \<^verbatim>\<open>Decoder::init\<close> writes them before anything reads
  them. \<open>ConfigDef_new\<close> is the constructor followed by \<^verbatim>\<open>set_default\<close>.\<close>

definition ParamDef_new :: "string \<Rightarrow> vclass \<Rightarrow> pdef" where
  "ParamDef_new lname cons =
     \<lparr>df_module_id = Module_NONE, df_id = Param_NONE, df_key = Param_NONE, df_name = [],
      df_local_name = lname, df_cons = cons, df_minors = None\<rparr>"

definition MajorParamDef_new :: "string \<Rightarrow> pdef" where
  "MajorParamDef_new lname = (ParamDef_new lname (VStorage []))\<lparr>df_minors := Some []\<rparr>"

definition MinorParamDef_new :: "string \<Rightarrow> deferred \<Rightarrow> mdef" where
  "MinorParamDef_new lname dfr =
     \<lparr>mn_module_id = Module_NONE, mn_id = Param_NONE, mn_key = Param_NONE, mn_name = [],
      mn_local_name = lname, mn_minor_id = Param_NONE, mn_defer = dfr\<rparr>"

definition EventDef_new :: "string \<Rightarrow> edef" where
  "EventDef_new lname =
     \<lparr>ev_module_id = Module_NONE, ev_id = Event_NONE, ev_name = [], ev_local_name = lname\<rparr>"

definition ConfigDef_new :: "string \<Rightarrow> config_value option \<Rightarrow> cdef" where
  "ConfigDef_new lname dflt =
     \<lparr>cd_module_id = Module_NONE, cd_name = [], cd_local_name = lname, cd_default = dflt\<rparr>"

definition Module_new :: pmodule where
  "Module_new =
     \<lparr>mo_param_map = [], mo_event_map = [], mo_config_map = [], mo_id = Module_NONE, mo_name = []\<rparr>"

subsection \<open>What a module constructor calls\<close>

definition define_param :: "string \<Rightarrow> vclass \<Rightarrow> pmodule \<Rightarrow> pmodule" where
  "define_param name cons m =
     m\<lparr>mo_param_map := smap_insert name (ParamDef_new name cons) (mo_param_map m)\<rparr>"

definition define_major_param :: "string \<Rightarrow> pmodule \<Rightarrow> pmodule res" where
  "define_major_param name m =
     (if smap_find (mo_param_map m) name \<noteq> None then Inl AssertFailed
      else Inr (m\<lparr>mo_param_map := smap_insert name (MajorParamDef_new name) (mo_param_map m)\<rparr>))"

definition define_minor_def :: "string \<Rightarrow> deferred \<Rightarrow> pdef \<Rightarrow> pdef res" where
  "define_minor_def name dfr d =
     (case df_minors d of
        None \<Rightarrow> Inl UndefinedBehaviour
      | Some ms \<Rightarrow>
          if smap_find ms name \<noteq> None then Inl AssertFailed
          else Inr (d\<lparr>df_minors := Some (smap_insert name (MinorParamDef_new name dfr) ms)\<rparr>))"

text \<open>\<^verbatim>\<open>p_hdr_->define_minor\<close>: the major definition is reached through the module's own map.\<close>

definition define_minor :: "string \<Rightarrow> string \<Rightarrow> deferred \<Rightarrow> pmodule \<Rightarrow> pmodule res" where
  "define_minor major name dfr m =
     (case smap_find (mo_param_map m) major of
        None \<Rightarrow> Inl UndefinedBehaviour
      | Some d \<Rightarrow>
          bind_res (define_minor_def name dfr d)
            (\<lambda>d'. Inr (m\<lparr>mo_param_map := smap_assign major d' (mo_param_map m)\<rparr>)))"

definition define_event :: "string \<Rightarrow> pmodule \<Rightarrow> pmodule res" where
  "define_event name m =
     (if smap_find (mo_event_map m) name \<noteq> None then Inl AssertFailed
      else Inr (m\<lparr>mo_event_map := smap_insert name (EventDef_new name) (mo_event_map m)\<rparr>))"

definition define_config :: "string \<Rightarrow> config_value option \<Rightarrow> pmodule \<Rightarrow> pmodule res" where
  "define_config name dflt m =
     (if smap_find (mo_config_map m) name \<noteq> None then Inl AssertFailed
      else Inr (m\<lparr>mo_config_map := smap_insert name (ConfigDef_new name dflt) (mo_config_map m)\<rparr>))"

subsection \<open>Finalisation by the decoder\<close>

definition minor_finalize :: "mod_id \<Rightarrow> param_id \<Rightarrow> string \<Rightarrow> nat \<Rightarrow> mdef \<Rightarrow> mdef" where
  "minor_finalize mid pid prefix minor_id d =
     d\<lparr>mn_module_id := mid, mn_name := prefix @ ''.'' @ mn_local_name d,
       mn_id := pid, mn_key := pid, mn_minor_id := int minor_id\<rparr>"

fun minors_finalize ::
  "mod_id \<Rightarrow> param_id \<Rightarrow> string \<Rightarrow> nat \<Rightarrow> (string, mdef) smap \<Rightarrow> (string, mdef) smap" where
  "minors_finalize mid pid prefix i [] = []"
| "minors_finalize mid pid prefix i ((k, d) # ms) =
     (k, minor_finalize mid pid prefix i d) # minors_finalize mid pid prefix (Suc i) ms"

definition param_finalize :: "mod_id \<Rightarrow> param_id \<Rightarrow> string \<Rightarrow> pdef \<Rightarrow> pdef" where
  "param_finalize mid pid prefix d =
     (let d = d\<lparr>df_module_id := mid, df_name := prefix @ ''.'' @ df_local_name d,
                df_id := pid, df_key := pid\<rparr>
      in d\<lparr>df_minors := map_option (minors_finalize mid pid (df_name d) 0) (df_minors d)\<rparr>)"

definition event_finalize :: "mod_id \<Rightarrow> event_id \<Rightarrow> string \<Rightarrow> string \<Rightarrow> edef \<Rightarrow> edef" where
  "event_finalize mid eid mod_name lname d =
     d\<lparr>ev_module_id := mid, ev_id := eid,
       ev_name := (if length lname > 0 then mod_name @ ''.'' @ lname else mod_name)\<rparr>"

definition config_finalize :: "mod_id \<Rightarrow> string \<Rightarrow> cdef \<Rightarrow> cdef" where
  "config_finalize mid prefix d =
     d\<lparr>cd_module_id := mid, cd_name := prefix @ ''.'' @ cd_local_name d\<rparr>"

subsection \<open>ValueStorage\<close>

definition storage_resize :: "nat \<Rightarrow> bvalue list \<Rightarrow> bvalue list" where
  "storage_resize s vs =
     (if s > length vs then vs @ replicate (s - length vs) Value_new else vs)"

definition storage_get :: "bvalue list \<Rightarrow> nat \<Rightarrow> bvalue res" where
  "storage_get vs idx = (if length vs > idx then Inr (vs ! idx) else Inl AssertFailed)"

lemma length_minors_finalize [simp]: "length (minors_finalize mid pid prefix i ms) = length ms"
  by (induction mid pid prefix i ms rule: minors_finalize.induct) auto

lemma minors_finalize_nth:
  "j < length ms \<Longrightarrow> minors_finalize mid pid prefix i ms ! j =
     (fst (ms ! j), minor_finalize mid pid prefix (i + j) (snd (ms ! j)))"
  by (induction mid pid prefix i ms arbitrary: j rule: minors_finalize.induct)
    (auto simp: nth_Cons split: nat.split)

lemma param_finalize_sel [simp]:
  "df_id (param_finalize mid pid prefix d) = pid"
  "df_key (param_finalize mid pid prefix d) = pid"
  "df_name (param_finalize mid pid prefix d) = prefix @ ''.'' @ df_local_name d"
  "df_cons (param_finalize mid pid prefix d) = df_cons d"
  "df_local_name (param_finalize mid pid prefix d) = df_local_name d"
  by (simp_all add: param_finalize_def Let_def)

lemma event_finalize_sel [simp]:
  "ev_id (event_finalize mid eid n l d) = eid"
  "ev_name (event_finalize mid eid n l d) = (if l = [] then n else n @ ''.'' @ l)"
  by (simp_all add: event_finalize_def)

end
