(* ===== verification/PM_Property.thy ===== *)
theory PM_Property
  imports PM_Module
begin

text \<open>
  \<^verbatim>\<open>src/packetmachine/property.hpp\<close> and \<^verbatim>\<open>src/property.cc\<close>: the result of decoding one packet. Values are
  kept in per-parameter tables that survive from packet to packet: \<^verbatim>\<open>init\<close> only resets the fill counters,
  and \<^verbatim>\<open>retain_value\<close> recycles the objects below the fill counter after clearing them. The locale
  \<open>value_table\<close> hides the recycling: clients see, for every parameter, the list of live values.
  \<^verbatim>\<open>tb::Buffer\<close> of the cpp-toolbox submodule is a parameter (\<open>buffer_ops\<close>).
\<close>

subsection \<open>State\<close>

record 'b buffer_ops =
  tb_new :: 'b
  tb_clear :: "'b \<Rightarrow> 'b"
  tb_set :: "byte list \<Rightarrow> 'b \<Rightarrow> 'b"
  tb_append :: "byte list \<Rightarrow> 'b \<Rightarrow> 'b"
  tb_bytes :: "'b \<Rightarrow> byte list"
  tb_make :: "byte list \<Rightarrow> 'b"
  tb_addr :: "'b \<Rightarrow> nat"

text \<open>What the sources rely on: a cleared buffer holds what is set or appended afterwards, and the constructor with a pointer
  and a length copies; \<open>tb_addr\<close> is where the bytes lie, \<^verbatim>\<open>ptr()\<close>.\<close>

definition buffer_laws :: "'b buffer_ops \<Rightarrow> bool" where
  "buffer_laws ops \<longleftrightarrow>
     tb_bytes ops (tb_new ops) = []
     \<and> (\<forall>b. tb_bytes ops (tb_clear ops b) = [])
     \<and> (\<forall>b xs. tb_bytes ops b = [] \<longrightarrow> tb_bytes ops (tb_set ops xs b) = xs)
     \<and> (\<forall>b xs. tb_bytes ops (tb_append ops xs b) = tb_bytes ops b @ xs)
     \<and> (\<forall>xs. tb_bytes ops (tb_make ops xs) = xs)"

text \<open>A buffer that is just its bytes satisfies this.\<close>

definition list_buffer :: "byte list buffer_ops" where
  "list_buffer = \<lparr>tb_new = [], tb_clear = (\<lambda>_. []), tb_set = (\<lambda>xs _. xs),
                  tb_append = (\<lambda>xs b. b @ xs), tb_bytes = (\<lambda>b. b),
                  tb_make = (\<lambda>xs. xs), tb_addr = length\<rparr>"

lemma list_buffer_laws: "buffer_laws list_buffer"
  by (simp add: buffer_laws_def list_buffer_def)

record 'b property =
  pr_pkt :: "packet option"
  pr_param_idx :: "nat list"
  pr_param :: "pvalue list list"
  pr_event_idx :: nat
  pr_event :: "event_id list"
  pr_src_addr :: 'b
  pr_dst_addr :: 'b
  pr_src_port :: "16 word"
  pr_dst_port :: "16 word"

text \<open>\<^verbatim>\<open>event_idx_\<close> and the ports are not initialised by the constructor.\<close>

definition Property_new :: "'b buffer_ops \<Rightarrow> nat \<Rightarrow> 16 word \<Rightarrow> 16 word \<Rightarrow> 'b property" where
  "Property_new ops idx0 sport0 dport0 =
     \<lparr>pr_pkt = None, pr_param_idx = [], pr_param = [], pr_event_idx = idx0, pr_event = [],
      pr_src_addr = tb_new ops, pr_dst_addr = tb_new ops,
      pr_src_port = sport0, pr_dst_port = dport0\<rparr>"

datatype kdef =
    KMajor pdef
  | KMinor pdef mdef

record pkey =
  k_id :: param_id
  k_def :: "kdef option"

definition NULL_KEY :: pkey where
  "NULL_KEY = \<lparr>k_id = Param_NONE, k_def = None\<rparr>"

subsection \<open>Operations\<close>

definition property_init :: "packet \<Rightarrow> 'b property \<Rightarrow> 'b property" where
  "property_init pkt p =
     p\<lparr>pr_pkt := Some pkt, pr_param_idx := map (\<lambda>_. 0) (pr_param_idx p), pr_event_idx := 0\<rparr>"

definition property_grow :: "nat \<Rightarrow> 'b property \<Rightarrow> 'b property" where
  "property_grow psize p =
     (if psize > length (pr_param p)
      then p\<lparr>pr_param := pr_param p @ replicate (psize - length (pr_param p)) [],
             pr_param_idx := pr_param_idx p @ replicate (psize - length (pr_param p)) 0\<rparr>
      else p)"

definition retain_value :: "pdef \<Rightarrow> 'b property \<Rightarrow> (vref \<times> 'b property) res" where
  "retain_value def p =
     (if df_id def < 0 then Inl UndefinedBehaviour
      else
        let pid = nat (df_id def);
            p = property_grow (pid + 1) p;
            i = pr_param_idx p ! pid;
            vs = pr_param p ! pid;
            vs' = (if i < length vs then vs[i := value_clear (vs ! i)]
                   else vs @ [new_object (df_cons def)]);
            r = (if i < length vs then i else length vs)
        in Inr (RVal pid r,
                p\<lparr>pr_param := (pr_param p)[pid := vs'], pr_param_idx := (pr_param_idx p)[pid := Suc i]\<rparr>))"

text \<open>A member call on the object a reference denotes.\<close>

fun property_upd :: "vref \<Rightarrow> (pvalue \<Rightarrow> pvalue) \<Rightarrow> 'b property \<Rightarrow> 'b property" where
  "property_upd RNone f p = p"
| "property_upd (RVal pid i) f p =
     p\<lparr>pr_param := (pr_param p)[pid := (pr_param p ! pid)[i := f (pr_param p ! pid ! i)]]\<rparr>"

text \<open>\<^verbatim>\<open>prop->retain_value(def)->f(...)\<close>, where \<^verbatim>\<open>f\<close> is \<^verbatim>\<open>set\<close> or \<^verbatim>\<open>cpy\<close>.\<close>

definition property_put :: "pdef \<Rightarrow> (pvalue \<Rightarrow> pvalue) \<Rightarrow> 'b property \<Rightarrow> 'b property res" where
  "property_put def f p = bind_res (retain_value def p) (\<lambda>(r, p'). Inr (property_upd r f p'))"

text \<open>
  A module writes its parameters by a sequence of such statements; the sequence is data here, executed
  in order.
\<close>

datatype put =
    PSet (put_def: pdef) ptr nat endian
  | PCpy (put_def: pdef) "byte list" endian

fun put_fun :: "put \<Rightarrow> pvalue \<Rightarrow> pvalue" where
  "put_fun (PSet d ptr n e) = value_set ptr n e"
| "put_fun (PCpy d bs e) = value_cpy bs e"

fun property_puts :: "put list \<Rightarrow> 'b property \<Rightarrow> 'b property res" where
  "property_puts [] p = Inr p"
| "property_puts (u # us) p =
     bind_res (property_put (put_def u) (put_fun u) p) (property_puts us)"

definition push_event :: "event_id \<Rightarrow> 'b property \<Rightarrow> 'b property" where
  "push_event e p =
     (if pr_event_idx p + 1 > length (pr_event p)
      then p\<lparr>pr_event := pr_event p @ [e], pr_event_idx := pr_event_idx p + 1\<rparr>
      else p\<lparr>pr_event := (pr_event p)[pr_event_idx p := e], pr_event_idx := pr_event_idx p + 1\<rparr>)"

definition property_event :: "nat \<Rightarrow> 'b property \<Rightarrow> (event_id option) res" where
  "property_event idx p =
     (if \<not> pr_event_idx p \<le> length (pr_event p) then Inl AssertFailed
      else if idx < pr_event_idx p then Inr (Some (pr_event p ! idx))
      else Inr None)"

definition set_src_addr :: "'b buffer_ops \<Rightarrow> byte list \<Rightarrow> 'b property \<Rightarrow> 'b property" where
  "set_src_addr ops addr p = p\<lparr>pr_src_addr := tb_set ops addr (tb_clear ops (pr_src_addr p))\<rparr>"

definition set_dst_addr :: "'b buffer_ops \<Rightarrow> byte list \<Rightarrow> 'b property \<Rightarrow> 'b property" where
  "set_dst_addr ops addr p = p\<lparr>pr_dst_addr := tb_set ops addr (tb_clear ops (pr_dst_addr p))\<rparr>"

definition set_src_port :: "16 word \<Rightarrow> 'b property \<Rightarrow> 'b property" where
  "set_src_port port p = p\<lparr>pr_src_port := port\<rparr>"

definition set_dst_port :: "16 word \<Rightarrow> 'b property \<Rightarrow> 'b property" where
  "set_dst_port port p = p\<lparr>pr_dst_port := port\<rparr>"

text \<open>The addresses with their lengths, and the ports, as a module or a user reads them.\<close>

definition property_src_addr :: "'b buffer_ops \<Rightarrow> 'b property \<Rightarrow> byte list" where
  "property_src_addr ops p = tb_bytes ops (pr_src_addr p)"

definition property_dst_addr :: "'b buffer_ops \<Rightarrow> 'b property \<Rightarrow> byte list" where
  "property_dst_addr ops p = tb_bytes ops (pr_dst_addr p)"

definition property_src_port :: "'b property \<Rightarrow> 16 word" where
  "property_src_port p = pr_src_port p"

definition property_dst_port :: "'b property \<Rightarrow> 16 word" where
  "property_dst_port p = pr_dst_port p"

definition pkt_size :: "'b property \<Rightarrow> nat res" where
  "pkt_size p = (case pr_pkt p of None \<Rightarrow> Inl UndefinedBehaviour | Some k \<Rightarrow> Inr (pk_len k))"

definition property_tv :: "'b property \<Rightarrow> timeval res" where
  "property_tv p = (case pr_pkt p of None \<Rightarrow> Inl UndefinedBehaviour | Some k \<Rightarrow> Inr (pk_tv k))"

definition property_ts :: "'b property \<Rightarrow> int res" where
  "property_ts p = bind_res (property_tv p) (\<lambda>tv. Inr (tv_sec tv))"

text \<open>An index outside \<^verbatim>\<open>param_idx_\<close> is an out-of-bounds access of a \<^verbatim>\<open>std::vector\<close>.\<close>

definition param_count :: "param_id \<Rightarrow> 'b property \<Rightarrow> nat res" where
  "param_count pid p =
     (if 0 \<le> pid \<and> nat pid < length (pr_param_idx p) then Inr (pr_param_idx p ! nat pid)
      else Inl UndefinedBehaviour)"

definition has_value :: "pkey \<Rightarrow> 'b property \<Rightarrow> bool res" where
  "has_value key p = bind_res (param_count (k_id key) p) (\<lambda>n. Inr (n > 0))"

definition property_null :: pvalue where
  "property_null = new_object VPlain"

definition property_value :: "mem \<Rightarrow> pkey \<Rightarrow> 'b property \<Rightarrow> (pvalue \<times> 'b property) res" where
  "property_value m key p =
     bind_res (param_count (k_id key) p) (\<lambda>n.
       if n > 0 then
         let v = pr_param p ! nat (k_id key) ! 0
         in (case k_def key of
               None \<Rightarrow> Inl AssertFailed
             | Some (KMajor d) \<Rightarrow> Inr (v, p)
             | Some (KMinor parent d) \<Rightarrow>
                 (case v_cls v of
                    VStorage vs \<Rightarrow>
                      let vs = (if vs = []
                                then storage_resize (case df_minors parent of None \<Rightarrow> 0 | Some ms \<Rightarrow> length ms) vs
                                else vs);
                          i = nat (mn_minor_id d)
                      in bind_res (storage_get vs i) (\<lambda>w.
                           bind_res (mn_defer d m (if v_active v then v_ptr v else NullPtr) w) (\<lambda>w'.
                             Inr (bvalue.extend w' \<lparr>v_cls = VPlain\<rparr>,
                                  property_upd (RVal (nat (k_id key)) 0)
                                    (\<lambda>v. v\<lparr>v_cls := VStorage (vs[i := w'])\<rparr>) p)))
                  | _ \<Rightarrow> Inl AssertFailed))
       else Inr (property_null, p))"

text \<open>The same by name, with the decoder's \<^verbatim>\<open>lookup_param_key\<close>; \<open>None\<close>: the decoder is gone.\<close>

definition has_value_name :: "(string \<Rightarrow> pkey) option \<Rightarrow> string \<Rightarrow> 'b property \<Rightarrow> bool res" where
  "has_value_name dec name p =
     (case dec of
        None \<Rightarrow> Inl (RunTimeError ''Decoder module is not available'')
      | Some lookup \<Rightarrow>
          let key = lookup name
          in if k_id key = k_id NULL_KEY then Inr False else has_value key p)"

definition property_value_name ::
  "mem \<Rightarrow> (string \<Rightarrow> pkey) option \<Rightarrow> string \<Rightarrow> 'b property \<Rightarrow> (pvalue \<times> 'b property) res" where
  "property_value_name m dec name p =
     (case dec of
        None \<Rightarrow> Inl (RunTimeError ''Decoder module is not available'')
      | Some lookup \<Rightarrow>
          let key = lookup name
          in if k_id key = k_id NULL_KEY then Inr (property_null, p) else property_value m key p)"

subsection \<open>Abstraction\<close>

definition property_wf :: "'b property \<Rightarrow> bool" where
  "property_wf p \<longleftrightarrow> length (pr_param_idx p) = length (pr_param p)
     \<and> (\<forall>i < length (pr_param p). pr_param_idx p ! i \<le> length (pr_param p ! i))
     \<and> pr_event_idx p \<le> length (pr_event p)"

definition live :: "'b property \<Rightarrow> nat \<Rightarrow> pvalue list" where
  "live p pid = (if pid < length (pr_param p) then take (pr_param_idx p ! pid) (pr_param p ! pid) else [])"

definition events :: "'b property \<Rightarrow> event_id list" where
  "events p = take (pr_event_idx p) (pr_event p)"

text \<open>What a reader of a value sees: its bytes and byte order, nothing when it is inactive.\<close>

definition shown :: "mem \<Rightarrow> 'a bvalue_scheme \<Rightarrow> (byte list \<times> endian) option" where
  "shown m v =
     (if v_active v then
        (case (v_bytes m v, v_endian v) of (Some bs, Some e) \<Rightarrow> Some (bs, e) | _ \<Rightarrow> None)
      else None)"

definition view :: "mem \<Rightarrow> 'b property \<Rightarrow> nat \<Rightarrow> (byte list \<times> endian) option list" where
  "view m p pid = map (shown m) (live p pid)"

text \<open>What a sequence of writes adds to the view, whatever objects were recycled.\<close>

fun put_shown :: "mem \<Rightarrow> put \<Rightarrow> (byte list \<times> endian) option" where
  "put_shown m (PSet d ptr n e) = map_option (\<lambda>bs. (bs, e)) (mem_read m [] ptr n)"
| "put_shown m (PCpy d bs e) = Some (bs, e)"

definition emitted :: "mem \<Rightarrow> put list \<Rightarrow> nat \<Rightarrow> (byte list \<times> endian) option list" where
  "emitted m us pid = map (put_shown m) (filter (\<lambda>u. nat (df_id (put_def u)) = pid) us)"

fun put_ok :: "put \<Rightarrow> bool" where
  "put_ok (PSet d ptr n e) = (0 \<le> df_id d \<and> ptr \<noteq> OwnPtr)"
| "put_ok (PCpy d bs e) = (0 \<le> df_id d)"

text \<open>The members a write of parameters leaves alone.\<close>

definition same_frame :: "'b property \<Rightarrow> 'b property \<Rightarrow> bool" where
  "same_frame p p' \<longleftrightarrow> pr_pkt p' = pr_pkt p \<and> pr_event_idx p' = pr_event_idx p
     \<and> pr_event p' = pr_event p \<and> pr_src_addr p' = pr_src_addr p \<and> pr_dst_addr p' = pr_dst_addr p
     \<and> pr_src_port p' = pr_src_port p \<and> pr_dst_port p' = pr_dst_port p"

text \<open>A value as \<^verbatim>\<open>retain_value\<close> hands it out: newly constructed, or recycled and cleared.\<close>

definition fresh_value :: "pdef \<Rightarrow> pvalue \<Rightarrow> bool" where
  "fresh_value d v \<longleftrightarrow> v = new_object (df_cons d) \<or> (\<exists>w. v = value_clear w)"

subsection \<open>The contract of the value tables\<close>

locale value_table =
  fixes live :: "'s \<Rightarrow> nat \<Rightarrow> pvalue list"
    and retain :: "pdef \<Rightarrow> 's \<Rightarrow> (vref \<times> 's) res"
    and upd :: "vref \<Rightarrow> (pvalue \<Rightarrow> pvalue) \<Rightarrow> 's \<Rightarrow> 's"
    and wf :: "'s \<Rightarrow> bool"
    and frame :: "'s \<Rightarrow> 's \<Rightarrow> bool"
  assumes retain_live: "wf s \<Longrightarrow> 0 \<le> df_id d \<Longrightarrow>
      \<exists>v s'. retain d s = Inr (RVal (nat (df_id d)) (length (live s (nat (df_id d)))), s')
        \<and> wf s' \<and> frame s s' \<and> fresh_value d v
        \<and> live s' = (live s)(nat (df_id d) := live s (nat (df_id d)) @ [v])"
    and upd_live: "wf s \<Longrightarrow> i < length (live s pid) \<Longrightarrow>
      live (upd (RVal pid i) f s) = (live s)(pid := (live s pid)[i := f (live s pid ! i)])"
    and upd_wf: "wf s \<Longrightarrow> wf (upd r f s)"
    and upd_frame: "frame s (upd r f s)"
    and frame_refl: "frame s s"
    and frame_trans: "frame s t \<Longrightarrow> frame t u \<Longrightarrow> frame s u"
begin

lemma put_live:
  assumes "wf s" and "0 \<le> df_id d"
  shows "\<exists>v s'. bind_res (retain d s) (\<lambda>(r, s'). Inr (upd r f s')) = Inr s' \<and> wf s' \<and> frame s s'
           \<and> live s' = (live s)(nat (df_id d) := live s (nat (df_id d)) @ [f v])"
proof -
  let ?pid = "nat (df_id d)"
  obtain v s' where s': "retain d s = Inr (RVal ?pid (length (live s ?pid)), s')" "wf s'"
      "frame s s'" "live s' = (live s)(?pid := live s ?pid @ [v])"
    using retain_live [OF assms] by blast
  let ?t = "upd (RVal ?pid (length (live s ?pid))) f s'"
  have "live ?t = (live s)(?pid := live s ?pid @ [f v])"
    using upd_live [OF s'(2), of "length (live s ?pid)" ?pid f] s'(4) by simp
  moreover have "wf ?t" "frame s ?t"
    using upd_wf [OF s'(2)] frame_trans [OF s'(3) upd_frame] by blast+
  ultimately show ?thesis
    using s'(1) by fastforce
qed

end

subsection \<open>The property implements it\<close>

lemma property_wf_grow: "property_wf p \<Longrightarrow> property_wf (property_grow n p)"
  by (auto simp: property_wf_def property_grow_def nth_append)

lemma live_grow: "property_wf p \<Longrightarrow> live (property_grow n p) = live p"
  by (auto simp: property_wf_def property_grow_def live_def nth_append fun_eq_iff)

lemma length_grow: "property_wf p \<Longrightarrow> length (pr_param (property_grow n p)) = max n (length (pr_param p))"
  by (auto simp: property_grow_def)

lemma same_frame_grow: "same_frame p (property_grow n p)"
  by (simp add: same_frame_def property_grow_def)

lemma retain_value_live:
  assumes "property_wf p" and "0 \<le> df_id d"
  shows "\<exists>v p'. retain_value d p = Inr (RVal (nat (df_id d)) (length (live p (nat (df_id d)))), p')
     \<and> property_wf p' \<and> same_frame p p' \<and> fresh_value d v
     \<and> live p' = (live p)(nat (df_id d) := live p (nat (df_id d)) @ [v])"
proof -
  define pid where "pid = nat (df_id d)"
  define q where "q = property_grow (pid + 1) p"
  define i where "i = pr_param_idx q ! pid"
  define vs where "vs = pr_param q ! pid"
  define vs' where "vs' = (if i < length vs then vs[i := value_clear (vs ! i)]
                           else vs @ [new_object (df_cons d)])"
  define p' where "p' = q\<lparr>pr_param := (pr_param q)[pid := vs'],
                         pr_param_idx := (pr_param_idx q)[pid := Suc i]\<rparr>"
  have wf: "property_wf q" and lv: "live q = live p" and pid: "pid < length (pr_param q)"
    using assms by (simp_all add: q_def property_wf_grow live_grow length_grow)
  have le: "i \<le> length vs" and len: "length (pr_param_idx q) = length (pr_param q)"
    using wf pid by (auto simp: property_wf_def i_def vs_def)
  have r: "retain_value d p = Inr (RVal pid i, p')"
    using assms(2) le
    by (auto simp: retain_value_def p'_def q_def i_def vs_def vs'_def pid_def Let_def)
  have "length (live p pid) = i"
    using le pid by (simp add: lv [symmetric] live_def i_def vs_def)
  moreover have "property_wf p'"
    using wf pid le by (auto simp: property_wf_def p'_def vs'_def nth_list_update)
  moreover have "same_frame p p'"
    using same_frame_grow [of p "pid + 1"] by (simp add: same_frame_def p'_def q_def)
  moreover have "live p' = (live p)(pid := live p pid @ [vs' ! i])"
    using pid le len
    by (auto simp: fun_eq_iff lv [symmetric] live_def p'_def i_def [symmetric] vs_def [symmetric]
        vs'_def nth_list_update take_Suc_conv_app_nth nth_append)
  moreover have "fresh_value d (vs' ! i)"
    using le by (auto simp: fresh_value_def vs'_def nth_append)
  ultimately show ?thesis
    using r by (auto simp: pid_def)
qed

lemma property_upd_live:
  "property_wf p \<Longrightarrow> i < length (live p pid) \<Longrightarrow>
     live (property_upd (RVal pid i) f p) = (live p)(pid := (live p pid)[i := f (live p pid ! i)])"
  by (auto simp: fun_eq_iff live_def nth_list_update take_update_swap split: if_splits)

lemma length_nth_upd_inner: "length (xss[i := (xss ! i)[j := x]] ! k) = length (xss ! k)"
  by (cases "i < length xss") (simp_all add: nth_list_update list_update_beyond)

lemma property_upd_wf: "property_wf p \<Longrightarrow> property_wf (property_upd r f p)"
  by (cases r) (simp_all add: property_wf_def length_nth_upd_inner)

interpretation vt: value_table live retain_value property_upd property_wf same_frame
proof (unfold_locales, goal_cases)
  case (1 s d)
  then show ?case by (rule retain_value_live)
next
  case (2 s i pid f)
  then show ?case by (rule property_upd_live)
next
  case (3 s r f)
  then show ?case by (rule property_upd_wf)
next
  case (4 s r f)
  show ?case by (cases r) (simp_all add: same_frame_def)
qed (simp_all add: same_frame_def)

lemma property_put_live:
  "property_wf p \<Longrightarrow> 0 \<le> df_id d \<Longrightarrow>
     \<exists>v p'. property_put d f p = Inr p' \<and> property_wf p' \<and> same_frame p p'
       \<and> live p' = (live p)(nat (df_id d) := live p (nat (df_id d)) @ [f v])"
  unfolding property_put_def by (rule vt.put_live)

lemma put_ok_id: "put_ok u \<Longrightarrow> 0 \<le> df_id (put_def u)"
  by (cases u) simp_all

lemma mem_read_own: "ptr \<noteq> OwnPtr \<Longrightarrow> mem_read m own ptr n = mem_read m [] ptr n"
  by (cases ptr) simp_all

lemma shown_put_fun:
  assumes "put_ok u"
  shows "shown m (put_fun u v) = put_shown m u"
proof (cases u)
  case (PSet d ptr n e)
  with assms have "v_bytes m (value_set ptr n e v) = mem_read m [] ptr n"
    using mem_read_own [of ptr m "v_buf v" n] by (simp add: v_bytes_def)
  then show ?thesis by (simp add: PSet shown_def split: option.split)
next
  case (PCpy d bs e)
  then show ?thesis by (simp add: shown_def)
qed

lemma view_put:
  assumes "property_wf p" and "put_ok u"
  shows "\<exists>p'. property_put (put_def u) (put_fun u) p = Inr p' \<and> property_wf p' \<and> same_frame p p'
           \<and> (\<forall>pid. view m p' pid = view m p pid @ emitted m [u] pid)"
proof -
  obtain v p' where p': "property_put (put_def u) (put_fun u) p = Inr p'" "property_wf p'"
      "same_frame p p'"
      "live p' = (live p)(nat (df_id (put_def u)) := live p (nat (df_id (put_def u))) @ [put_fun u v])"
    using property_put_live [OF assms(1) put_ok_id [OF assms(2)]] by blast
  have "view m p' pid = view m p pid @ emitted m [u] pid" for pid
    by (simp add: view_def emitted_def p'(4) shown_put_fun [OF assms(2)])
  with p' show ?thesis by blast
qed

lemma puts_view:
  assumes "property_wf p" and "list_all put_ok us"
  shows "\<exists>p'. property_puts us p = Inr p' \<and> property_wf p' \<and> same_frame p p'
           \<and> (\<forall>pid. view m p' pid = view m p pid @ emitted m us pid)"
  using assms
proof (induction us arbitrary: p)
  case Nil
  then show ?case by (simp add: emitted_def same_frame_def)
next
  case (Cons u us)
  then obtain p1 where p1: "property_put (put_def u) (put_fun u) p = Inr p1" "property_wf p1"
      "same_frame p p1" "\<forall>pid. view m p1 pid = view m p pid @ emitted m [u] pid"
    using view_put [of p u m] by auto
  obtain p2 where p2: "property_puts us p1 = Inr p2" "property_wf p2"
      "same_frame p1 p2" "\<forall>pid. view m p2 pid = view m p1 pid @ emitted m us pid"
    using Cons.IH [OF p1(2)] Cons.prems(2) by auto
  have "emitted m (u # us) pid = emitted m [u] pid @ emitted m us pid" for pid
    by (simp add: emitted_def)
  with p1 p2 show ?case
    using vt.frame_trans [of p p1 p2] by simp
qed

subsection \<open>The pooled objects keep the class of their parameter\<close>

text \<open>\<open>D\<close> gives the class the constructor of each parameter makes; the objects of the parameter, live or waiting to be
  recycled, have that class. A \<^verbatim>\<open>dynamic_cast\<close> of what \<^verbatim>\<open>retain_value\<close> returns relies on it.\<close>

definition typed :: "(nat \<Rightarrow> string) \<Rightarrow> 'b property \<Rightarrow> bool" where
  "typed D p \<longleftrightarrow> (\<forall>pid < length (pr_param p). \<forall>v \<in> set (pr_param p ! pid). is_a (D pid) (v_cls v))"

definition def_typed :: "(nat \<Rightarrow> string) \<Rightarrow> pdef \<Rightarrow> bool" where
  "def_typed D d \<longleftrightarrow> is_a (D (nat (df_id d))) (df_cons d)"

lemma class_clear [simp]: "is_a n (v_cls (value_clear v)) = is_a n (v_cls v)"
  by (cases "v_cls v") (simp_all add: is_a_def)

declare value_clear.simps [simp del]

lemma typed_grow: "typed D p \<Longrightarrow> typed D (property_grow n p)"
  by (auto simp: typed_def property_grow_def nth_append)

lemma typed_update:
  "typed D p \<Longrightarrow> (\<And>v. v \<in> set vs \<Longrightarrow> is_a (D pid) (v_cls v)) \<Longrightarrow>
     typed D (p\<lparr>pr_param := (pr_param p)[pid := vs]\<rparr>)"
  by (cases "pid < length (pr_param p)") (auto simp: typed_def nth_list_update list_update_beyond split: if_splits)

lemma typed_idx [simp]: "typed D (p\<lparr>pr_param_idx := xs\<rparr>) = typed D p"
  by (simp add: typed_def)

lemma retain_value_typed:
  assumes "typed D p" "property_wf p" "def_typed D d" "0 \<le> df_id d"
  shows "\<exists>r p'. retain_value d p = Inr (r, p') \<and> typed D p'"
proof -
  let ?pid = "nat (df_id d)"
  let ?q = "property_grow (?pid + 1) p"
  have q: "typed D ?q" "?pid < length (pr_param ?q)"
    using assms(1,2) by (simp_all add: typed_grow length_grow)
  then have "is_a (D ?pid) (v_cls v)" if "v \<in> set (pr_param ?q ! ?pid)" for v
    using that by (simp add: typed_def)
  moreover have "is_a (D ?pid) (v_cls (new_object (df_cons d)))"
    using assms(3) by (simp add: def_typed_def new_object_def bvalue.defs)
  ultimately show ?thesis
    using assms(4) q(1)
    by (auto simp: retain_value_def Let_def intro!: typed_update dest!: subsetD [OF set_update_subset_insert])
qed

lemma property_upd_typed:
  "typed D p \<Longrightarrow> (\<And>v. is_a (D pid) (v_cls v) \<Longrightarrow> is_a (D pid) (v_cls (f v))) \<Longrightarrow>
     i < length (pr_param p ! pid) \<Longrightarrow> typed D (property_upd (RVal pid i) f p)"
  by (cases "pid < length (pr_param p)")
    (auto simp: typed_def nth_list_update dest!: subsetD [OF set_update_subset_insert] intro!: nth_mem)

lemma class_put_fun [simp]: "is_a n (v_cls (put_fun u v)) = is_a n (v_cls v)"
  by (cases u) simp_all

lemma property_put_typed:
  assumes "typed D p" "property_wf p" "def_typed D d" "0 \<le> df_id d" "property_put d f p = Inr p'"
    "\<And>v. is_a (D (nat (df_id d))) (v_cls v) \<Longrightarrow> is_a (D (nat (df_id d))) (v_cls (f v))"
  shows "typed D p'"
proof -
  obtain r q where q: "retain_value d p = Inr (r, q)" "typed D q"
    using retain_value_typed [OF assms(1-4)] by blast
  obtain v q' where q': "retain_value d p = Inr (RVal (nat (df_id d)) (length (live p (nat (df_id d)))), q')"
      "property_wf q'" "live q' = (live p)(nat (df_id d) := live p (nat (df_id d)) @ [v])"
    using vt.retain_live [OF assms(2,4)] by blast
  have "length (live p (nat (df_id d))) < length (live q' (nat (df_id d)))"
    by (simp add: q'(3))
  then have "length (live p (nat (df_id d))) < length (pr_param q' ! nat (df_id d))"
    by (auto simp: live_def split: if_splits)
  then show ?thesis
    using q q'(1) assms(5,6) property_upd_typed [OF q(2), of "nat (df_id d)" f] by (auto simp: property_put_def)
qed

lemma property_puts_typed:
  assumes "typed D p" "property_wf p" "list_all put_ok us" "list_all (\<lambda>u. def_typed D (put_def u)) us"
    "property_puts us p = Inr p'"
  shows "typed D p'"
  using assms
proof (induction us arbitrary: p)
  case (Cons u us)
  then obtain p1 where p1: "property_put (put_def u) (put_fun u) p = Inr p1" "property_puts us p1 = Inr p'"
    by auto
  have "property_wf p1"
    using view_put [OF Cons.prems(2), of u] Cons.prems(3) p1(1) by auto
  moreover have "typed D p1"
    using property_put_typed [OF Cons.prems(1,2) _ _ p1(1)] Cons.prems(3,4) put_ok_id [of u] by simp
  ultimately show ?case
    using Cons.IH [OF _ _ _ _ p1(2)] Cons.prems(3,4) by simp
qed simp

lemma typed_frame [simp]:
  "typed D (property_init pkt p) = typed D p" "typed D (push_event e p) = typed D p"
  "typed D (set_src_addr ops a p) = typed D p" "typed D (set_dst_addr ops a p) = typed D p"
  "typed D (set_src_port w p) = typed D p" "typed D (set_dst_port w p) = typed D p"
  by (simp_all add: typed_def property_init_def push_event_def set_src_addr_def set_dst_addr_def
      set_src_port_def set_dst_port_def)

definition property_ok :: "(nat \<Rightarrow> string) \<Rightarrow> 'b property \<Rightarrow> bool" where
  "property_ok D p \<longleftrightarrow> property_wf p \<and> typed D p"

lemma typed_new: "typed D (Property_new ops i0 s0 d0)"
  by (simp add: typed_def Property_new_def)

subsection \<open>Packets and events\<close>

lemma property_init_wf: "property_wf p \<Longrightarrow> property_wf (property_init pkt p)"
  by (simp add: property_wf_def property_init_def)

lemma events_init [simp]: "events (property_init pkt p) = []"
  by (simp add: events_def property_init_def)

lemma push_event_wf: "property_wf p \<Longrightarrow> property_wf (push_event e p)"
  by (auto simp: property_wf_def push_event_def)

lemma live_push_event [simp]: "live (push_event e p) = live p"
  by (simp add: live_def push_event_def fun_eq_iff)

lemma view_push_event [simp]: "view m (push_event e p) = view m p"
  by (simp add: view_def fun_eq_iff)

lemma events_push_event: "property_wf p \<Longrightarrow> events (push_event e p) = events p @ [e]"
  by (auto simp: property_wf_def events_def push_event_def take_Suc_conv_app_nth)

lemma property_event_events:
  "property_wf p \<Longrightarrow>
     property_event i p = Inr (if i < length (events p) then Some (events p ! i) else None)"
  by (auto simp: property_wf_def property_event_def events_def)

lemma same_frame_events: "same_frame p p' \<Longrightarrow> events p' = events p"
  by (simp add: same_frame_def events_def)

lemma view_init [simp]: "property_wf p \<Longrightarrow> view m (property_init pkt p) pid = []"
  by (simp add: view_def live_def property_init_def property_wf_def)

lemma Property_new_wf: "property_wf (property_init pkt (Property_new ops i0 s0 d0))"
  by (simp add: property_wf_def property_init_def Property_new_def)



text \<open>What the setters of the general attributes store is what is read, each attribute on its own.\<close>

lemmas property_attributes = property_src_addr_def property_dst_addr_def property_src_port_def property_dst_port_def

lemma property_attributes_set:
  assumes "buffer_laws ops"
  shows "property_src_addr ops (set_src_addr ops a p) = a" "property_dst_addr ops (set_dst_addr ops a p) = a"
    "property_src_port (set_src_port w p) = w" "property_dst_port (set_dst_port w p) = w"
    "property_dst_addr ops (set_src_addr ops a p) = property_dst_addr ops p"
    "property_src_addr ops (set_dst_addr ops a p) = property_src_addr ops p"
    "property_dst_port (set_src_port w p) = property_dst_port p"
    "property_src_port (set_dst_port w p) = property_src_port p"
  using assms
  by (simp_all add: property_attributes buffer_laws_def set_src_addr_def set_dst_addr_def set_src_port_def set_dst_port_def)

text \<open>
  \<^verbatim>\<open>init\<close> forgets the values and events of the previous packet but not its general attributes: the
  addresses and ports that \<^verbatim>\<open>src_addr\<close>, \<^verbatim>\<open>dst_addr\<close>, \<^verbatim>\<open>src_port\<close> and \<^verbatim>\<open>dst_port\<close> return are those of the
  previous packet until a module of the new one sets them.
\<close>

theorem property_init_attributes:
  assumes "property_wf p"
  shows "property_wf (property_init pkt p)
    \<and> events (property_init pkt p) = [] \<and> view m (property_init pkt p) pid = []
    \<and> property_event i (property_init pkt p) = Inr None
    \<and> pkt_size (property_init pkt p) = Inr (pk_len pkt)
    \<and> property_src_addr ops (property_init pkt p) = property_src_addr ops p
    \<and> property_dst_addr ops (property_init pkt p) = property_dst_addr ops p
    \<and> property_src_port (property_init pkt p) = property_src_port p
    \<and> property_dst_port (property_init pkt p) = property_dst_port p"
  using assms property_init_wf [OF assms, of pkt]
  by (simp add: property_event_events) (simp add: property_init_def pkt_size_def property_attributes)

theorem property_init_attributes_witness:
  "property_src_port (property_init (Packet_new 0 0 \<lparr>tv_sec = 0, tv_usec = 0\<rparr>)
     \<lparr>pr_pkt = None, pr_param_idx = [], pr_param = [], pr_event_idx = 0, pr_event = [],
      pr_src_addr = [], pr_dst_addr = [] :: byte list, pr_src_port = 443, pr_dst_port = 0\<rparr>) = 443"
  using property_init_attributes [of
      "\<lparr>pr_pkt = None, pr_param_idx = [], pr_param = [], pr_event_idx = 0, pr_event = [],
      pr_src_addr = [], pr_dst_addr = [] :: byte list, pr_src_port = 443, pr_dst_port = 0\<rparr>"]
  by (simp add: property_wf_def property_src_port_def)

text \<open>
  C36: reading a parameter. When the key's index lies inside the table, \<^verbatim>\<open>has_value\<close> says whether the
  parameter has a live value and \<^verbatim>\<open>value\<close> returns the first one, or the null value, which is a plain
  \<^verbatim>\<open>Value\<close> and so answers \<open>False\<close> to \<^verbatim>\<open>is_null\<close>. For a parameter no module has retained yet the index may
  lie outside the table, and both read past the end of the vector.
\<close>

theorem read_parameter:
  assumes "property_wf p" and "k_def key = Some (KMajor d)"
  shows "if 0 \<le> k_id key \<and> nat (k_id key) < length (pr_param p)
    then has_value key p = Inr (live p (nat (k_id key)) \<noteq> [])
      \<and> property_value m key p =
           Inr (case live p (nat (k_id key)) of [] \<Rightarrow> property_null | v # _ \<Rightarrow> v, p)
      \<and> \<not> value_is_null property_null
    else has_value key p = Inl UndefinedBehaviour
      \<and> property_value m key p = Inl UndefinedBehaviour"
proof (cases "0 \<le> k_id key \<and> nat (k_id key) < length (pr_param p)")
  case True
  define n where "n = nat (k_id key)"
  have len: "length (pr_param_idx p) = length (pr_param p)" and
    le: "pr_param_idx p ! n \<le> length (pr_param p ! n)"
    using assms(1) True by (auto simp: property_wf_def n_def)
  have "live p n = take (pr_param_idx p ! n) (pr_param p ! n)"
    using True by (simp add: live_def n_def)
  then show ?thesis
    using True len le assms(2)
    by (cases "pr_param p ! n")
      (auto simp: has_value_def property_value_def param_count_def n_def [symmetric] take_Cons'
        value_is_null_def property_null_def)
next
  case False
  then show ?thesis
    using assms(1) by (auto simp: has_value_def property_value_def param_count_def property_wf_def)
qed

theorem read_parameter_witness:
  "has_value \<lparr>k_id = 7, k_def = Some (KMajor (ParamDef_new ''src_port'' VPortNumber))\<rparr>
     (property_init (Packet_new 0 0 \<lparr>tv_sec = 0, tv_usec = 0\<rparr>)
       \<lparr>pr_pkt = None, pr_param_idx = [0, 1], pr_param = [[], [new_object VPlain]],
        pr_event_idx = 0, pr_event = [], pr_src_addr = [], pr_dst_addr = [] :: byte list,
        pr_src_port = 0, pr_dst_port = 0\<rparr>) = Inl UndefinedBehaviour"
  using read_parameter [of "property_init (Packet_new 0 0 \<lparr>tv_sec = 0, tv_usec = 0\<rparr>)
       \<lparr>pr_pkt = None, pr_param_idx = [0, 1], pr_param = [[], [new_object VPlain]],
        pr_event_idx = 0, pr_event = [], pr_src_addr = [], pr_dst_addr = [] :: byte list,
        pr_src_port = 0, pr_dst_port = 0\<rparr>"
      "\<lparr>k_id = 7, k_def = Some (KMajor (ParamDef_new ''src_port'' VPortNumber))\<rparr>"
      "ParamDef_new ''src_port'' VPortNumber"]
  by (simp add: property_wf_def property_init_def nth_Cons split: nat.splits)

end
