(* ===== verification/PM_Decoder.thy ===== *)
theory PM_Decoder
  imports PM_Property
begin

text \<open>
  \<^verbatim>\<open>src/decoder.hpp\<close> and \<^verbatim>\<open>src/decoder.cc\<close>: the registry. \<^verbatim>\<open>Decoder::init\<close> numbers the modules in the order of
  their names, numbers the parameters and events of every module in turn, checks the user's configuration
  keys, and gives each module its own configuration. A \<^verbatim>\<open>ParamDef*\<close> of \<^verbatim>\<open>param_map_\<close> is a \<open>kdef\<close>: a definition,
  or a minor definition with its parent. Finalising an object that both the module and the decoder point to is
  written into both places. \<^verbatim>\<open>mod_event_[i]\<close> points at the event with the empty name of module \<open>i\<close> and is read
  through \<open>mod_event\<close>. The modules' \<^verbatim>\<open>setup\<close> gets the results of \<open>lookup_module\<close> and the local configuration;
  \<open>decoder_init\<close> returns those configurations.
\<close>

subsection \<open>State\<close>

record decoder =
  dc_mod_map :: "(string, mod_id) smap"
  dc_param_map :: "(string, kdef) smap"
  dc_event_map :: "(string, edef) smap"
  dc_config_map :: "(string, cdef) smap"
  dc_params :: "pdef list"
  dc_events :: "edef list"
  dc_modules :: "pmodule list"
  dc_mod_ethernet :: mod_id
  dc_initialized :: bool

definition Decoder_new :: decoder where
  "Decoder_new =
     \<lparr>dc_mod_map = [], dc_param_map = [], dc_event_map = [], dc_config_map = [], dc_params = [],
      dc_events = [], dc_modules = [], dc_mod_ethernet = Module_NONE, dc_initialized = False\<rparr>"

subsection \<open>Building the module map\<close>

definition add_module :: "string \<Rightarrow> pmodule \<Rightarrow> decoder \<Rightarrow> decoder res" where
  "add_module name m dec =
     (let id = int (length (dc_modules dec));
          m = m\<lparr>mo_id := id, mo_name := name\<rparr>
      in bind_res (define_event [] m) (\<lambda>m.
           Inr (dec\<lparr>dc_modules := dc_modules dec @ [m],
                    dc_mod_map := smap_insert name id (dc_mod_map dec),
                    dc_mod_ethernet := (if name = ''Ethernet'' then id else dc_mod_ethernet dec)\<rparr>)))"

fun add_modules :: "(string, pmodule) smap \<Rightarrow> decoder \<Rightarrow> decoder res" where
  "add_modules [] dec = Inr dec"
| "add_modules ((name, m) # ms) dec = bind_res (add_module name m dec) (add_modules ms)"

subsection \<open>Building the parameter, event and configuration maps\<close>

definition copy_sub_def :: "pdef \<Rightarrow> (string, kdef) smap" where
  "copy_sub_def d =
     (case df_minors d of
        None \<Rightarrow> []
      | Some ms \<Rightarrow> fold (\<lambda>(k, v). smap_insert k v) (map (\<lambda>(_, mn). (mn_name mn, KMinor d mn)) ms) [])"

definition add_param :: "pdef \<Rightarrow> decoder \<Rightarrow> decoder" where
  "add_param d dec =
     dec\<lparr>dc_params := dc_params dec @ [d],
         dc_param_map := fold (\<lambda>(k, v). smap_insert k v) (copy_sub_def d)
           (smap_insert (df_name d) (KMajor d) (dc_param_map dec))\<rparr>"

fun add_params :: "pmodule \<Rightarrow> (string, pdef) smap \<Rightarrow> decoder \<Rightarrow> (string, pdef) smap \<times> decoder" where
  "add_params m [] dec = ([], dec)"
| "add_params m ((k, d) # ps) dec =
     (let d = param_finalize (mo_id m) (int (length (dc_params dec))) (mo_name m) d;
          (ps, dec) = add_params m ps (add_param d dec)
      in ((k, d) # ps, dec))"

definition add_event :: "edef \<Rightarrow> decoder \<Rightarrow> decoder" where
  "add_event d dec =
     dec\<lparr>dc_events := dc_events dec @ [d], dc_event_map := smap_insert (ev_name d) d (dc_event_map dec)\<rparr>"

fun add_events :: "pmodule \<Rightarrow> (string, edef) smap \<Rightarrow> decoder \<Rightarrow> (string, edef) smap \<times> decoder" where
  "add_events m [] dec = ([], dec)"
| "add_events m ((k, d) # es) dec =
     (let d = event_finalize (mo_id m) (int (length (dc_events dec))) (mo_name m) k d;
          (es, dec) = add_events m es (add_event d dec)
      in ((k, d) # es, dec))"

fun add_configs :: "pmodule \<Rightarrow> (string, cdef) smap \<Rightarrow> decoder \<Rightarrow> (string, cdef) smap \<times> decoder" where
  "add_configs m [] dec = ([], dec)"
| "add_configs m ((k, d) # cs) dec =
     (let d = config_finalize (mo_id m) (mo_name m) d;
          dec = dec\<lparr>dc_config_map := smap_insert (cd_name d) d (dc_config_map dec)\<rparr>;
          (cs, dec) = add_configs m cs dec
      in ((k, d) # cs, dec))"

definition finalize_module :: "nat \<Rightarrow> decoder \<Rightarrow> decoder" where
  "finalize_module i dec =
     (let m = dc_modules dec ! i;
          (ps, dec) = add_params m (mo_param_map m) dec;
          (es, dec) = add_events m (mo_event_map m) dec;
          (cs, dec) = add_configs m (mo_config_map m) dec
      in dec\<lparr>dc_modules := (dc_modules dec)[i := m\<lparr>mo_param_map := ps, mo_event_map := es, mo_config_map := cs\<rparr>]\<rparr>)"

definition finalize_modules :: "decoder \<Rightarrow> decoder" where
  "finalize_modules dec = fold finalize_module [0..<length (dc_modules dec)] dec"

subsection \<open>Configuration\<close>

fun check_config :: "config \<Rightarrow> decoder \<Rightarrow> unit res" where
  "check_config [] dec = Inr ()"
| "check_config ((key, v) # conf) dec =
     (if smap_find (dc_config_map dec) key = None
      then Inl (ConfigError ([CHR 0x27] @ key @ [CHR 0x27] @ '' is not valid config key''))
      else check_config conf dec)"

definition local_config_step :: "config \<Rightarrow> cdef \<Rightarrow> config \<Rightarrow> config" where
  "local_config_step config d lc =
     (case smap_find config (cd_name d) of
        Some v \<Rightarrow> config_set_ptr (cd_local_name d) v lc
      | None \<Rightarrow> (case cd_default d of
                    Some v \<Rightarrow> config_set_ptr (cd_local_name d) v lc
                  | None \<Rightarrow> lc))"

definition local_config :: "config \<Rightarrow> pmodule \<Rightarrow> config" where
  "local_config config m = fold (local_config_step config) (map snd (mo_config_map m)) []"

definition decoder_init :: "config \<Rightarrow> (string, pmodule) smap \<Rightarrow> (decoder \<times> config list) res" where
  "decoder_init config mods =
     bind_res (add_modules mods Decoder_new) (\<lambda>dec.
       let dec = finalize_modules dec
       in bind_res (check_config config dec) (\<lambda>_.
            if dc_mod_ethernet dec = Module_NONE then Inl AssertFailed
            else Inr (dec\<lparr>dc_initialized := True\<rparr>, map (local_config config) (dc_modules dec))))"

subsection \<open>Lookups\<close>

definition lookup_module :: "decoder \<Rightarrow> string \<Rightarrow> mod_id" where
  "lookup_module dec name = (case smap_find (dc_mod_map dec) name of None \<Rightarrow> Module_NONE | Some i \<Rightarrow> i)"

fun kdef_id :: "kdef \<Rightarrow> param_id" where
  "kdef_id (KMajor d) = df_id d"
| "kdef_id (KMinor p d) = mn_id d"

fun kdef_key :: "kdef \<Rightarrow> pkey" where
  "kdef_key (KMajor d) = \<lparr>k_id = df_key d, k_def = Some (KMajor d)\<rparr>"
| "kdef_key (KMinor p d) = \<lparr>k_id = mn_key d, k_def = Some (KMinor p d)\<rparr>"

definition lookup_param_id :: "decoder \<Rightarrow> string \<Rightarrow> param_id" where
  "lookup_param_id dec name =
     (case smap_find (dc_param_map dec) name of None \<Rightarrow> Param_NONE | Some d \<Rightarrow> kdef_id d)"

definition lookup_param_name :: "decoder \<Rightarrow> param_id \<Rightarrow> string res" where
  "lookup_param_name dec pid =
     (if pid < 0 \<or> int (length (dc_params dec)) \<le> pid then Inl (IndexError ''No such parameter'')
      else Inr (df_name (dc_params dec ! nat pid)))"

definition lookup_param_key :: "decoder \<Rightarrow> string \<Rightarrow> pkey" where
  "lookup_param_key dec name =
     (case smap_find (dc_param_map dec) name of None \<Rightarrow> NULL_KEY | Some d \<Rightarrow> kdef_key d)"

definition lookup_param_name_key :: "decoder \<Rightarrow> pkey \<Rightarrow> string res" where
  "lookup_param_name_key dec key =
     (if 0 \<le> k_id key \<and> k_id key < int (length (dc_params dec))
      then Inr (df_name (dc_params dec ! nat (k_id key)))
      else Inl UndefinedBehaviour)"

definition lookup_event_id :: "decoder \<Rightarrow> string \<Rightarrow> event_id" where
  "lookup_event_id dec name =
     (case smap_find (dc_event_map dec) name of None \<Rightarrow> Event_NONE | Some d \<Rightarrow> ev_id d)"

definition lookup_event_name :: "decoder \<Rightarrow> event_id \<Rightarrow> string res" where
  "lookup_event_name dec eid =
     (if eid < 0 \<or> int (length (dc_events dec)) \<le> eid then Inl (IndexError ''No such parameter'')
      else Inr (ev_name (dc_events dec ! nat eid)))"

definition mod_event :: "decoder \<Rightarrow> nat \<Rightarrow> event_id" where
  "mod_event dec i =
     (case smap_find (mo_event_map (dc_modules dec ! i)) [] of None \<Rightarrow> Event_NONE | Some d \<Rightarrow> ev_id d)"

text \<open>The member \<^verbatim>\<open>p_name_\<close> or \<^verbatim>\<open>ev_name_\<close> a module keeps of what it defined under \<^verbatim>\<open>name\<close>.\<close>

definition mod_param :: "'a pmodule_scheme \<Rightarrow> string \<Rightarrow> pdef" where
  "mod_param m name = (case smap_find (mo_param_map m) name of None \<Rightarrow> ParamDef_new name VPlain | Some d \<Rightarrow> d)"

definition mod_ev :: "'a pmodule_scheme \<Rightarrow> string \<Rightarrow> event_id" where
  "mod_ev m name = (case smap_find (mo_event_map m) name of None \<Rightarrow> Event_NONE | Some d \<Rightarrow> ev_id d)"

subsection \<open>The registry invariant\<close>

text \<open>Every entry the maps should have, in the order of registration; the first entry of a name wins.\<close>

definition def_entries :: "pdef \<Rightarrow> (string \<times> kdef) list" where
  "def_entries d = (df_name d, KMajor d) # copy_sub_def d"

definition param_entries :: "decoder \<Rightarrow> (string \<times> kdef) list" where
  "param_entries dec = concat (map def_entries (dc_params dec))"

definition minor_ok :: "pdef \<Rightarrow> bool" where
  "minor_ok d \<longleftrightarrow> (\<forall>ms. df_minors d = Some ms \<longrightarrow> (\<forall>mn \<in> snd ` set ms. mn_id mn = df_id d \<and> mn_key mn = df_id d))"

definition registry_inv :: "decoder \<Rightarrow> bool" where
  "registry_inv dec \<longleftrightarrow>
     smap_wf (dc_param_map dec) \<and> smap_wf (dc_event_map dec)
     \<and> smap_find (dc_param_map dec) = map_of (param_entries dec)
     \<and> smap_find (dc_event_map dec) = map_of (map (\<lambda>e. (ev_name e, e)) (dc_events dec))
     \<and> (\<forall>i < length (dc_params dec). df_id (dc_params dec ! i) = int i \<and> df_key (dc_params dec ! i) = int i
          \<and> minor_ok (dc_params dec ! i))
     \<and> (\<forall>i < length (dc_events dec). ev_id (dc_events dec ! i) = int i)"

lemma registry_inv_new: "registry_inv Decoder_new"
  by (simp add: registry_inv_def Decoder_new_def param_entries_def smap_find_def fun_eq_iff)

lemma registry_inv_upd [simp]:
  "registry_inv (dec\<lparr>dc_config_map := c\<rparr>) = registry_inv dec"
  "registry_inv (dec\<lparr>dc_modules := ms\<rparr>) = registry_inv dec"
  "registry_inv (dec\<lparr>dc_mod_map := mm\<rparr>) = registry_inv dec"
  "registry_inv (dec\<lparr>dc_mod_ethernet := e\<rparr>) = registry_inv dec"
  "registry_inv (dec\<lparr>dc_initialized := b\<rparr>) = registry_inv dec"
  by (simp_all add: registry_inv_def param_entries_def)

lemma minors_finalize_ids:
  "mn \<in> snd ` set (minors_finalize mid pid prefix i ms) \<Longrightarrow> mn_id mn = pid \<and> mn_key mn = pid"
  by (induction mid pid prefix i ms rule: minors_finalize.induct) (auto simp: minor_finalize_def)

lemma minor_ok_finalize: "minor_ok (param_finalize mid pid prefix d)"
  by (auto simp: minor_ok_def param_finalize_def Let_def dest!: minors_finalize_ids [rotated, OF imageI])

lemma fold_insert_def_entries:
  "fold (\<lambda>(k, v). smap_insert k v) (copy_sub_def d) (smap_insert (df_name d) (KMajor d) m)
   = fold (\<lambda>(k, v). smap_insert k v) (def_entries d) m"
  by (simp add: def_entries_def)

lemma add_param_inv:
  assumes "registry_inv dec" "df_id d = int (length (dc_params dec))" "df_key d = df_id d" "minor_ok d"
  shows "registry_inv (add_param d dec)"
proof -
  have wf: "smap_wf (dc_param_map dec)" and
    find: "smap_find (dc_param_map dec) = map_of (param_entries dec)"
    using assms(1) by (simp_all add: registry_inv_def)
  have "smap_wf (dc_param_map (add_param d dec))"
    using sm.wf_insert_all [OF wf] by (simp add: add_param_def fold_insert_def_entries)
  moreover have "smap_find (dc_param_map (add_param d dec)) = map_of (param_entries (add_param d dec))"
    using sm.find_insert_all [OF wf, of "def_entries d"]
    by (auto simp: add_param_def fold_insert_def_entries find param_entries_def map_add_def fun_eq_iff
        split: option.splits)
  ultimately show ?thesis
    using assms by (auto simp: registry_inv_def add_param_def nth_append less_Suc_eq)
qed

lemma add_event_inv:
  assumes "registry_inv dec" "ev_id d = int (length (dc_events dec))"
  shows "registry_inv (add_event d dec)"
proof -
  have wf: "smap_wf (dc_event_map dec)" and
    find: "smap_find (dc_event_map dec) = map_of (map (\<lambda>e. (ev_name e, e)) (dc_events dec))"
    using assms(1) by (simp_all add: registry_inv_def)
  have "smap_find (dc_event_map (add_event d dec)) = map_of (map (\<lambda>e. (ev_name e, e)) (dc_events (add_event d dec)))"
    using smap_find_insert [OF wf]
    by (auto simp: add_event_def find map_add_def fun_eq_iff split: option.splits)
  then show ?thesis
    using assms smap_wf_insert [OF wf]
    by (auto simp: registry_inv_def add_event_def nth_append less_Suc_eq param_entries_def)
qed

lemma add_params_inv:
  "registry_inv dec \<Longrightarrow> registry_inv (snd (add_params m ps dec))"
proof (induction m ps dec rule: add_params.induct)
  case (2 m k d ps dec)
  let ?d = "param_finalize (mo_id m) (int (length (dc_params dec))) (mo_name m) d"
  have "registry_inv (add_param ?d dec)"
    using 2(2) by (rule add_param_inv) (simp_all add: minor_ok_finalize)
  with 2(1) show ?case by (simp add: Let_def case_prod_beta)
qed simp

lemma add_events_inv:
  "registry_inv dec \<Longrightarrow> registry_inv (snd (add_events m es dec))"
proof (induction m es dec rule: add_events.induct)
  case (2 m k d es dec)
  let ?d = "event_finalize (mo_id m) (int (length (dc_events dec))) (mo_name m) k d"
  have "registry_inv (add_event ?d dec)"
    using 2(2) by (rule add_event_inv) simp
  with 2(1) show ?case by (simp add: Let_def case_prod_beta)
qed simp

lemma add_configs_inv: "registry_inv (snd (add_configs m cs dec)) = registry_inv dec"
  by (induction m cs dec rule: add_configs.induct)
    (simp_all add: Let_def case_prod_beta)

lemma finalize_module_inv: "registry_inv dec \<Longrightarrow> registry_inv (finalize_module i dec)"
proof -
  assume inv: "registry_inv dec"
  let ?m = "dc_modules dec ! i"
  obtain ps d1 where d1: "add_params ?m (mo_param_map ?m) dec = (ps, d1)" by fastforce
  obtain es d2 where d2: "add_events ?m (mo_event_map ?m) d1 = (es, d2)" by fastforce
  obtain cs d3 where d3: "add_configs ?m (mo_config_map ?m) d2 = (cs, d3)" by fastforce
  have "registry_inv d3"
    using add_params_inv [OF inv, of ?m "mo_param_map ?m"] add_events_inv [of d1 ?m "mo_event_map ?m"]
      add_configs_inv [of ?m "mo_config_map ?m" d2] by (simp add: d1 d2 d3)
  then show ?thesis
    by (simp add: finalize_module_def Let_def d1 d2 d3)
qed

lemma finalize_modules_inv: "registry_inv dec \<Longrightarrow> registry_inv (finalize_modules dec)"
proof -
  have "registry_inv d \<Longrightarrow> registry_inv (fold finalize_module is d)" for "is" d
    by (induction "is" arbitrary: d) (simp_all add: finalize_module_inv)
  then show "registry_inv dec \<Longrightarrow> ?thesis" by (simp add: finalize_modules_def)
qed

lemma add_modules_inv: "add_modules ms dec = Inr dec' \<Longrightarrow> registry_inv dec \<Longrightarrow> registry_inv dec'"
  by (induction ms dec rule: add_modules.induct)
    (auto simp: add_module_def Let_def)

lemma decoder_init_inv:
  assumes "decoder_init config mods = Inr (dec, lcs)"
  shows "registry_inv dec"
proof -
  obtain d where d: "add_modules mods Decoder_new = Inr d" "dec = finalize_modules d\<lparr>dc_initialized := True\<rparr>"
    using assms by (auto simp: decoder_init_def Let_def split: if_splits)
  have "registry_inv (finalize_modules d)"
    using add_modules_inv [OF d(1) registry_inv_new] finalize_modules_inv by blast
  then show ?thesis
    by (simp add: d(2))
qed

lemma check_config_iff:
  "check_config conf dec = Inr () \<longleftrightarrow> (\<forall>key \<in> fst ` set conf. smap_find (dc_config_map dec) key \<noteq> None)"
  by (induction conf dec rule: check_config.induct) auto

subsection \<open>Properties\<close>

lemma entries_major: "d \<in> set (dc_params dec) \<Longrightarrow> (df_name d, KMajor d) \<in> set (param_entries dec)"
  by (auto simp: param_entries_def def_entries_def)


text \<open>A small registry to try the lookups on.\<close>

definition demo_mods :: "(string, pmodule) smap" where
  "demo_mods = [(''Ethernet'', define_param ''type'' VPlain (define_param ''src'' VPlain Module_new))]"

definition demo_dec :: decoder where
  "demo_dec = (case decoder_init [] demo_mods of Inr (dec, _) \<Rightarrow> dec | Inl _ \<Rightarrow> Decoder_new)"

lemma demo_dec_init: "\<exists>lcs. decoder_init [] demo_mods = Inr (demo_dec, lcs)"
proof -
  have "(case decoder_init [] demo_mods of Inr _ \<Rightarrow> True | Inl _ \<Rightarrow> False)"
    by code_simp
  then show ?thesis
    by (auto simp: demo_dec_def split: sum.splits)
qed


text \<open>
  C28: The same for events: the name of event \<open>i\<close> looks up to \<open>i\<close>, and id \<open>i\<close> to the name; a name nobody
  registered gives \<^verbatim>\<open>Event::NONE\<close>.
\<close>

theorem event_lookup_roundtrip:
  assumes "decoder_init config mods = Inr (dec, lcs)" "distinct (map ev_name (dc_events dec))"
  shows "(\<forall>i < length (dc_events dec).
            lookup_event_id dec (ev_name (dc_events dec ! i)) = int i
            \<and> lookup_event_name dec (int i) = Inr (ev_name (dc_events dec ! i)))
       \<and> (\<forall>name. name \<notin> ev_name ` set (dc_events dec) \<longrightarrow> lookup_event_id dec name = Event_NONE)"
proof -
  let ?es = "map (\<lambda>e. (ev_name e, e)) (dc_events dec)"
  have inv: "smap_find (dc_event_map dec) = map_of ?es" "\<forall>i < length (dc_events dec). ev_id (dc_events dec ! i) = int i"
    using decoder_init_inv [OF assms(1)] by (simp_all add: registry_inv_def)
  have "map_of ?es (ev_name (dc_events dec ! i)) = Some (dc_events dec ! i)" if "i < length (dc_events dec)" for i
    using assms(2) that by (intro map_of_is_SomeI) (simp_all add: comp_def)
  moreover have "map_of ?es name = None" if "name \<notin> ev_name ` set (dc_events dec)" for name
    using that by (auto simp: map_of_eq_None_iff)
  ultimately show ?thesis
    using inv by (simp add: lookup_event_id_def lookup_event_name_def)
qed

theorem event_lookup_roundtrip_witness:
  "lookup_event_id demo_dec ''Ethernet'' = 0 \<and> lookup_event_name demo_dec 0 = Inr ''Ethernet''"
proof -
  have "distinct (map ev_name (dc_events demo_dec))" "length (dc_events demo_dec) = 1"
      "ev_name (dc_events demo_dec ! 0) = ''Ethernet''"
    by code_simp+
  then show ?thesis
    using demo_dec_init event_lookup_roundtrip [of "[]" demo_mods demo_dec] by fastforce
qed

end
