(* ===== verification/PM_Proto.thy ===== *)
theory PM_Proto
  imports PM_Decoder "HOL-Library.Sublist"
begin

text \<open>
  What the protocol modules under \<^verbatim>\<open>src/modules\<close> share: reading header fields of the packet, writing parameters,
  and the contract of \<^verbatim>\<open>Module::decode\<close>, the locale \<open>protocol\<close>. A read outside the packet is the error
  \<open>UndefinedBehaviour\<close>, so a module whose \<^verbatim>\<open>decode\<close> always returns a value is memory safe. The contract: on a
  cursor inside the packet and a well-formed property, \<^verbatim>\<open>decode\<close> returns; the cursor stays inside and
  never moves back; the next module is one the module knows; events are only appended.
\<close>

subsection \<open>Header fields\<close>

definition pkt_bytes :: "mem \<Rightarrow> nat \<Rightarrow> nat \<Rightarrow> byte list res" where
  "pkt_bytes m off n =
     (case bslice_opt off n (m_pkt m) of None \<Rightarrow> Inl UndefinedBehaviour | Some bs \<Rightarrow> Inr bs)"

definition u8_at :: "mem \<Rightarrow> nat \<Rightarrow> byte res" where
  "u8_at m off = bind_res (pkt_bytes m off 1) (\<lambda>bs. Inr (load_le bs))"

definition u16_at :: "mem \<Rightarrow> nat \<Rightarrow> 16 word res" where
  "u16_at m off = bind_res (pkt_bytes m off 2) (\<lambda>bs. Inr (load_le bs))"

definition u32_at :: "mem \<Rightarrow> nat \<Rightarrow> 32 word res" where
  "u32_at m off = bind_res (pkt_bytes m off 4) (\<lambda>bs. Inr (load_le bs))"

text \<open>The same for a pointer that may point into any buffer, as a deferred function gets one.\<close>

definition ptr_bytes :: "mem \<Rightarrow> ptr \<Rightarrow> nat \<Rightarrow> nat \<Rightarrow> byte list res" where
  "ptr_bytes m p off n =
     (case mem_read m [] p (off + n) of None \<Rightarrow> Inl UndefinedBehaviour | Some bs \<Rightarrow> Inr (drop off bs))"

text \<open>Big-endian numbers of the packet, for the statements.\<close>

definition pkt_num :: "mem \<Rightarrow> nat \<Rightarrow> nat \<Rightarrow> nat" where
  "pkt_num m off n = be_nat (bslice off n (m_pkt m))"

lemma pkt_bytes_ok [simp]: "off + n \<le> length (m_pkt m) \<Longrightarrow> pkt_bytes m off n = Inr (bslice off n (m_pkt m))"
  by (simp add: pkt_bytes_def bslice_opt_def)

lemma u8_at_ok [simp]: "off < length (m_pkt m) \<Longrightarrow> u8_at m off = Inr (m_pkt m ! off)"
  by (simp add: u8_at_def bslice_1 [simplified] load_le_def)

lemma u16_at_ok [simp]: "off + 2 \<le> length (m_pkt m) \<Longrightarrow> u16_at m off = Inr (load_le (bslice off 2 (m_pkt m)))"
  by (simp add: u16_at_def)

lemma u32_at_ok [simp]: "off + 4 \<le> length (m_pkt m) \<Longrightarrow> u32_at m off = Inr (load_le (bslice off 4 (m_pkt m)))"
  by (simp add: u32_at_def)

lemma unat_ntohs_at:
  "off + 2 \<le> length (m_pkt m) \<Longrightarrow> unat (ntohs (load_le (bslice off 2 (m_pkt m)))) = pkt_num m off 2"
  by (simp add: bslice_2 [simplified] ntohs_load_le unat_load_le pkt_num_def be_nat_def)

lemma ntohs_at_eq_iff:
  assumes "off + 2 \<le> length (m_pkt m)"
  shows "ntohs (load_le (bslice off 2 (m_pkt m))) = w \<longleftrightarrow> pkt_num m off 2 = unat w"
  using unat_ntohs_at [OF assms] by (metis unsigned_word_eqI)

lemma pkt_num_less: "off + n \<le> length (m_pkt m) \<Longrightarrow> pkt_num m off n < 256 ^ n"
  using be_nat_less [of "bslice off n (m_pkt m)"] by (simp add: pkt_num_def)

subsection \<open>Parameters and events of a module\<close>

text \<open>The module went through \<^verbatim>\<open>Decoder::init\<close>: the definitions have ids, all different, and the classes \<open>D\<close>.\<close>

definition mod_ready :: "(nat \<Rightarrow> string) \<Rightarrow> string list \<Rightarrow> 'a pmodule_scheme \<Rightarrow> bool" where
  "mod_ready D names this \<longleftrightarrow>
     (\<forall>n \<in> set names. 0 \<le> df_id (mod_param this n) \<and> def_typed D (mod_param this n))
     \<and> distinct (map (\<lambda>n. df_id (mod_param this n)) names)"

definition pid_of :: "'a pmodule_scheme \<Rightarrow> string \<Rightarrow> nat" where
  "pid_of this n = nat (df_id (mod_param this n))"

lemma mod_ready_id: "mod_ready D names this \<Longrightarrow> n \<in> set names \<Longrightarrow> 0 \<le> df_id (mod_param this n)"
  by (simp add: mod_ready_def)

lemma pid_of_eq_iff:
  assumes "mod_ready D names this" "a \<in> set names" "b \<in> set names"
  shows "nat (df_id (mod_param this a)) = pid_of this b \<longleftrightarrow> a = b"
  using assms mod_ready_id [OF assms(1,2)] mod_ready_id [OF assms(1,3)]
  by (auto simp: pid_of_def mod_ready_def distinct_map inj_on_def eq_nat_nat_iff)

lemma distinct_names_eq:
  "mod_ready D names this \<Longrightarrow> distinct names"
  by (simp add: mod_ready_def distinct_map)

subsection \<open>Total correctness\<close>

text \<open>\<open>returns r Q\<close>: the computation \<open>r\<close> raises nothing and its result satisfies \<open>Q\<close>.\<close>

definition returns :: "'a res \<Rightarrow> ('a \<Rightarrow> bool) \<Rightarrow> bool" where
  "returns r Q \<longleftrightarrow> (\<exists>a. r = Inr a \<and> Q a)"

named_theorems wp \<open>rules of \<open>returns\<close>, backward\<close>

lemma returns_Inr [wp]: "Q a \<Longrightarrow> returns (Inr a) Q"
  by (simp add: returns_def)

lemma returns_bind [wp]: "returns r (\<lambda>a. returns (f a) Q) \<Longrightarrow> returns (bind_res r f) Q"
  by (auto simp: returns_def)

lemma returns_mono: "returns r Q \<Longrightarrow> (\<And>a. Q a \<Longrightarrow> Q' a) \<Longrightarrow> returns r Q'"
  by (auto simp: returns_def)

subsection \<open>The contract of a protocol module\<close>

text \<open>What one call may do to cursor and property.\<close>

definition advance :: "(nat \<Rightarrow> string) \<Rightarrow> mem \<Rightarrow> payload \<Rightarrow> 'b property \<Rightarrow> payload \<Rightarrow> 'b property \<Rightarrow> bool" where
  "advance D m pd p pd' p' \<longleftrightarrow>
     payload_inv (length (m_pkt m)) pd' \<and> pl_ptr pd \<le> pl_ptr pd' \<and> property_ok D p'
     \<and> prefix (events p) (events p') \<and> (\<forall>pid. prefix (view m p pid) (view m p' pid))"

lemma advance_refl: "payload_inv (length (m_pkt m)) pd \<Longrightarrow> property_ok D p \<Longrightarrow> advance D m pd p pd p"
  by (simp add: advance_def)

lemma advance_trans [trans]:
  "advance D m pd p pd1 p1 \<Longrightarrow> advance D m pd1 p1 pd2 p2 \<Longrightarrow> advance D m pd p pd2 p2"
  unfolding advance_def by (blast intro: prefix_order.trans le_trans)

locale protocol =
  fixes decode :: "'m \<Rightarrow> mem \<Rightarrow> payload \<Rightarrow> 'b property \<Rightarrow> (mod_id \<times> payload \<times> 'b property) res"
    and ready :: "(nat \<Rightarrow> string) \<Rightarrow> 'm \<Rightarrow> bool"
    and nexts :: "'m \<Rightarrow> mod_id set"
  assumes decode_safe: "ready D this \<Longrightarrow> payload_inv (length (m_pkt m)) pd \<Longrightarrow> property_ok D p \<Longrightarrow>
    returns (decode this m pd p) (\<lambda>(nxt, pd', p').
      (nxt = Module_NONE \<or> nxt \<in> nexts this) \<and> advance D m pd p pd' p')"
begin

lemma decode_returns:
  assumes "ready D this" "payload_inv (length (m_pkt m)) pd" "property_ok D p"
  obtains nxt pd' p' where "decode this m pd p = Inr (nxt, pd', p')" "nxt = Module_NONE \<or> nxt \<in> nexts this"
    "advance D m pd p pd' p'"
  using decode_safe [OF assms] by (auto simp: returns_def)

lemma decode_no_error: "ready D this \<Longrightarrow> payload_inv (length (m_pkt m)) pd \<Longrightarrow> property_ok D p \<Longrightarrow>
    decode this m pd p \<noteq> Inl e"
  by (erule (2) decode_returns) simp

end

subsection \<open>Rules for the module proofs\<close>

lemma returns_obtain: "returns r Q \<Longrightarrow> (\<And>a. r = Inr a \<Longrightarrow> Q a \<Longrightarrow> thesis) \<Longrightarrow> thesis"
  by (auto simp: returns_def)

text \<open>The cursor moved \<open>n\<close> bytes ahead inside a packet of \<open>N\<close> bytes.\<close>

definition moved :: "nat \<Rightarrow> nat \<Rightarrow> payload \<Rightarrow> payload \<Rightarrow> bool" where
  "moved N n pd pd' \<longleftrightarrow>
     payload_inv N pd' \<and> n \<le> pl_length pd \<and> pl_ptr pd' = pl_ptr pd + n \<and> pl_length pd' = pl_length pd - n"

lemma movedI:
  "payload_inv N pd' \<Longrightarrow> pl_ptr pd' = pl_ptr pd + n \<Longrightarrow> pl_length pd = n + pl_length pd' \<Longrightarrow> moved N n pd pd'"
  by (simp add: moved_def)

lemma moved_0: "payload_inv N pd \<Longrightarrow> moved N 0 pd pd"
  by (simp add: moved_def)

lemma moved_range: "moved N n pd pd' \<Longrightarrow> pl_ptr pd + n + pl_length pd' \<le> N"
  by (auto simp: moved_def payload_inv_def)

lemma moved_inv: "moved N n pd pd' \<Longrightarrow> payload_inv N pd'"
  by (simp add: moved_def)

lemma moved_trans: "moved N n pd pd1 \<Longrightarrow> moved N k pd1 pd2 \<Longrightarrow> moved N (n + k) pd pd2"
  by (auto simp: moved_def)

lemma returns_retain [wp]:
  assumes "payload_inv N pd" "pl_length pd < n \<Longrightarrow> Q (None, pd)"
    "\<And>pd'. moved N n pd pd' \<Longrightarrow> payload_inv N pd' \<Longrightarrow> pl_ptr pd' = pl_ptr pd + n \<Longrightarrow>
       pl_length pd = n + pl_length pd' \<Longrightarrow> pl_ptr pd + n + pl_length pd' \<le> N \<Longrightarrow> Q (Some (pl_ptr pd), pd')"
  shows "returns (payload_retain n pd) Q"
proof (cases "n \<le> pl_length pd")
  case True
  let ?pd' = "pd\<lparr>pl_length := pl_length pd - n, pl_ptr := pl_ptr pd + n\<rparr>"
  have "moved N n pd ?pd'"
    using assms(1) True by (simp add: moved_def payload_inv_def)
  with payload_retain_ok [OF assms(1) True] assms(3) [of ?pd'] True moved_range [OF this] show ?thesis
    by (simp add: returns_def moved_inv)
next
  case False
  with payload_retain_short [OF assms(1)] assms(2) show ?thesis by (simp add: returns_def)
qed

lemma returns_u8 [wp]: "off < length (m_pkt m) \<Longrightarrow> Q (m_pkt m ! off) \<Longrightarrow> returns (u8_at m off) Q"
  by (simp add: returns_def)

lemma returns_u16 [wp]:
  "off + 2 \<le> length (m_pkt m) \<Longrightarrow> Q (load_le (bslice off 2 (m_pkt m))) \<Longrightarrow> returns (u16_at m off) Q"
  by (simp add: returns_def)

lemma returns_u32 [wp]:
  "off + 4 \<le> length (m_pkt m) \<Longrightarrow> Q (load_le (bslice off 4 (m_pkt m))) \<Longrightarrow> returns (u32_at m off) Q"
  by (simp add: returns_def)

lemma returns_pkt_bytes [wp]:
  "off + n \<le> length (m_pkt m) \<Longrightarrow> Q (bslice off n (m_pkt m)) \<Longrightarrow> returns (pkt_bytes m off n) Q"
  by (simp add: returns_def)

text \<open>The property \<open>p'\<close> is \<open>p\<close> with the values of \<open>us\<close> and the events \<open>es\<close> added.\<close>

definition adds :: "(nat \<Rightarrow> string) \<Rightarrow> mem \<Rightarrow> put list \<Rightarrow> event_id list \<Rightarrow> 'b property \<Rightarrow> 'b property \<Rightarrow> bool" where
  "adds D m us es p p' \<longleftrightarrow>
     property_ok D p' \<and> (\<forall>pid. view m p' pid = view m p pid @ emitted m us pid) \<and> events p' = events p @ es"

lemma emitted_append: "emitted m (us @ vs) pid = emitted m us pid @ emitted m vs pid"
  by (simp add: emitted_def)

lemma adds_refl: "property_ok D p \<Longrightarrow> adds D m [] [] p p"
  by (simp add: adds_def emitted_def)

lemma adds_trans: "adds D m us es p p1 \<Longrightarrow> adds D m vs fs p1 p2 \<Longrightarrow> adds D m (us @ vs) (es @ fs) p p2"
  by (simp add: adds_def emitted_append)

lemma adds_puts: "adds D m us es p p1 \<Longrightarrow> adds D m vs [] p1 p2 \<Longrightarrow> adds D m (us @ vs) es p p2"
  by (simp add: adds_def emitted_append)

lemma adds_wf: "adds D m us es p p' \<Longrightarrow> property_ok D p'"
  by (simp add: adds_def)

lemma adds_event: "adds D m us es p p' \<Longrightarrow> adds D m us (es @ [e]) p (push_event e p')"
  by (simp add: adds_def property_ok_def push_event_wf events_push_event)

lemma attr_frame:
  "property_wf (set_src_addr ops a p) = property_wf p" "view m (set_src_addr ops a p) = view m p"
  "events (set_src_addr ops a p) = events p"
  "property_wf (set_dst_addr ops a p) = property_wf p" "view m (set_dst_addr ops a p) = view m p"
  "events (set_dst_addr ops a p) = events p"
  "property_wf (set_src_port w p) = property_wf p" "view m (set_src_port w p) = view m p"
  "events (set_src_port w p) = events p"
  "property_wf (set_dst_port w p) = property_wf p" "view m (set_dst_port w p) = view m p"
  "events (set_dst_port w p) = events p"
  by (simp_all add: set_src_addr_def set_dst_addr_def set_src_port_def set_dst_port_def
      property_wf_def view_def live_def events_def fun_eq_iff)

lemma adds_attr:
  "adds D m us es p p' \<Longrightarrow> adds D m us es p (set_src_addr ops a p')"
  "adds D m us es p p' \<Longrightarrow> adds D m us es p (set_dst_addr ops a p')"
  "adds D m us es p p' \<Longrightarrow> adds D m us es p (set_src_port w p')"
  "adds D m us es p p' \<Longrightarrow> adds D m us es p (set_dst_port w p')"
  by (simp_all add: adds_def property_ok_def attr_frame)

lemma adds_advance:
  "adds D m us es p p' \<Longrightarrow> moved (length (m_pkt m)) n pd pd' \<Longrightarrow> advance D m pd p pd' p'"
  by (simp add: adds_def advance_def moved_def)

declare property_puts.simps [simp del]

definition put_typed :: "(nat \<Rightarrow> string) \<Rightarrow> put \<Rightarrow> bool" where
  "put_typed D u \<longleftrightarrow> put_ok u \<and> def_typed D (put_def u)"

lemma returns_puts:
  assumes "property_ok D p" "list_all (put_typed D) us"
    "\<And>p'. adds D m us [] p p' \<Longrightarrow> same_frame p p' \<Longrightarrow> Q p'"
  shows "returns (property_puts us p) Q"
proof -
  have us: "list_all put_ok us" "list_all (\<lambda>u. def_typed D (put_def u)) us"
    using assms(2) by (simp_all add: list_all_iff put_typed_def)
  have p: "property_wf p" "typed D p"
    using assms(1) by (simp_all add: property_ok_def)
  obtain p' where p': "property_puts us p = Inr p'" "property_wf p'" "same_frame p p'"
      "\<forall>pid. view m p' pid = view m p pid @ emitted m us pid"
    using puts_view [OF p(1) us(1)] by blast
  then have "adds D m us [] p p'"
    using property_puts_typed [OF p(2,1) us p'(1)] by (simp add: adds_def property_ok_def same_frame_events)
  with assms(3) p' show ?thesis
    by (simp add: returns_def)
qed

text \<open>The writes of a module whose parameters are ready.\<close>

lemma put_typed_simps [simp]:
  "put_typed D (PSet d ptr n e) \<longleftrightarrow> 0 \<le> df_id d \<and> ptr \<noteq> OwnPtr \<and> def_typed D d"
  "put_typed D (PCpy d bs e) \<longleftrightarrow> 0 \<le> df_id d \<and> def_typed D d"
  by (auto simp: put_typed_def)

subsection \<open>Concrete inputs\<close>

text \<open>A decoder with one module, a packet of given bytes with the cursor at its start, a fresh property.\<close>

definition solo :: "pmodule \<Rightarrow> pmodule" where
  "solo m = dc_modules (finalize_modules (Decoder_new\<lparr>dc_modules := [m]\<rparr>)) ! 0"

definition demo_mem :: "byte list \<Rightarrow> mem" where
  "demo_mem bs = \<lparr>m_pkt = bs, m_buf = (\<lambda>_. None)\<rparr>"

definition demo_pd :: "byte list \<Rightarrow> payload" where
  "demo_pd bs = \<lparr>pl_pkt = True, pl_ptr = 0, pl_end = length bs, pl_length = length bs\<rparr>"

definition demo_prop :: "byte list property" where
  "demo_prop = property_init (Packet_new 0 0 \<lparr>tv_sec = 0, tv_usec = 0\<rparr>) (Property_new list_buffer 0 0 0)"

text \<open>The classes of the parameters of a module that is alone.\<close>

definition demo_D :: "'a pmodule_scheme \<Rightarrow> nat \<Rightarrow> string" where
  "demo_D m pid = (if pid < length (mo_param_map m) then class_name (df_cons (snd (mo_param_map m ! pid))) else [])"

lemma demo_facts [simp]:
  "m_pkt (demo_mem bs) = bs" "payload_inv N (demo_pd bs) \<longleftrightarrow> length bs \<le> N" "property_ok D demo_prop"
  "pl_ptr (demo_pd bs) = 0" "pl_length (demo_pd bs) = length bs" "events demo_prop = []"
  "view m demo_prop pid = []"
  by (simp_all add: demo_mem_def demo_pd_def payload_inv_def demo_prop_def Property_new_wf property_ok_def typed_new)
    (simp_all add: view_def live_def property_init_def Property_new_def)

end
