(* ===== verification/PM_Link.thy ===== *)
theory PM_Link
  imports PM_Proto
begin

text \<open>
  The modules of the link layer: \<^verbatim>\<open>src/modules/ether.cc\<close>, \<^verbatim>\<open>dot1q.cc\<close>, \<^verbatim>\<open>pppoe.cc\<close> and \<^verbatim>\<open>arp.cc\<close>. A module class is
  a record that extends \<open>pmodule\<close> by the module ids its \<^verbatim>\<open>setup\<close> looks up. The packed header structs are offsets
  into the packet; the members \<^verbatim>\<open>p_x_\<close> are \<open>mod_param this ''x''\<close>. Bit fields are allocated from the low bits up, as the
  little-endian ABIs the program targets do.
\<close>

unbundle bit_operations_syntax

subsection \<open>Ethernet\<close>

record ethernet = pmodule +
  eth_mod_ipv4 :: mod_id
  eth_mod_arp :: mod_id
  eth_mod_pppoe :: mod_id
  eth_mod_dot1q :: mod_id

definition Ethernet_new :: pmodule where
  "Ethernet_new =
     define_param ''dst'' VPlain (define_param ''src'' VPlain (define_param ''type'' VPlain Module_new))"

definition Ethernet_setup :: "(string \<Rightarrow> mod_id) \<Rightarrow> pmodule \<Rightarrow> ethernet" where
  "Ethernet_setup lookup m =
     pmodule.extend m \<lparr>eth_mod_ipv4 = lookup ''IPv4'', eth_mod_arp = lookup ''ARP'',
       eth_mod_pppoe = lookup ''PPPoE'', eth_mod_dot1q = lookup ''Dot1Q''\<rparr>"

definition Ethernet_next :: "ethernet \<Rightarrow> 16 word \<Rightarrow> mod_id" where
  "Ethernet_next this t =
     (if t = 0x0806 then eth_mod_arp this
      else if t = 0x0800 then eth_mod_ipv4 this
      else if t = 0x8100 then eth_mod_dot1q this
      else if t = 0x8864 then eth_mod_pppoe this
      else Module_NONE)"

definition Ethernet_puts :: "ethernet \<Rightarrow> nat \<Rightarrow> put list" where
  "Ethernet_puts this hdr =
     [PSet (mod_param this ''type'') (PktPtr (hdr + 12)) 2 BIG,
      PSet (mod_param this ''src'') (PktPtr (hdr + 6)) 6 BIG,
      PSet (mod_param this ''dst'') (PktPtr hdr) 6 BIG]"

definition Ethernet_decode ::
  "ethernet \<Rightarrow> mem \<Rightarrow> payload \<Rightarrow> 'b property \<Rightarrow> (mod_id \<times> payload \<times> 'b property) res" where
  "Ethernet_decode this m pd prop =
     bind_res (payload_retain 14 pd) (\<lambda>(r, pd).
       case r of
         None \<Rightarrow> Inr (Module_NONE, pd, prop)
       | Some hdr \<Rightarrow>
           bind_res (property_puts (Ethernet_puts this hdr) prop) (\<lambda>prop.
           bind_res (u16_at m (hdr + 12)) (\<lambda>type.
             Inr (Ethernet_next this (ntohs type), pd, prop))))"

subsection \<open>Dot1Q\<close>

record dot1q = pmodule +
  dq_mod_ipv4 :: mod_id
  dq_mod_arp :: mod_id
  dq_mod_pppoe :: mod_id

definition Dot1Q_new :: pmodule where
  "Dot1Q_new = define_param ''vlan_id'' VPlain (define_param ''type'' VPlain Module_new)"

definition Dot1Q_setup :: "(string \<Rightarrow> mod_id) \<Rightarrow> pmodule \<Rightarrow> dot1q" where
  "Dot1Q_setup lookup m =
     pmodule.extend m \<lparr>dq_mod_ipv4 = lookup ''IPv4'', dq_mod_arp = lookup ''ARP'',
       dq_mod_pppoe = lookup ''PPPoE''\<rparr>"

definition Dot1Q_next :: "dot1q \<Rightarrow> 16 word \<Rightarrow> mod_id" where
  "Dot1Q_next this t =
     (if t = 0x0806 then dq_mod_arp this
      else if t = 0x0800 then dq_mod_ipv4 this
      else if t = 0x8864 then dq_mod_pppoe this
      else Module_NONE)"

definition Dot1Q_puts :: "dot1q \<Rightarrow> nat \<Rightarrow> 16 word \<Rightarrow> put list" where
  "Dot1Q_puts this hdr vlan_id =
     [PSet (mod_param this ''type'') (PktPtr (hdr + 2)) 2 BIG,
      PCpy (mod_param this ''vlan_id'') (store_le 2 (unat vlan_id)) LITTLE]"

definition Dot1Q_decode ::
  "dot1q \<Rightarrow> mem \<Rightarrow> payload \<Rightarrow> 'b property \<Rightarrow> (mod_id \<times> payload \<times> 'b property) res" where
  "Dot1Q_decode this m pd prop =
     bind_res (payload_retain 4 pd) (\<lambda>(r, pd).
       case r of
         None \<Rightarrow> Inr (Module_NONE, pd, prop)
       | Some hdr \<Rightarrow>
           bind_res (u16_at m hdr) (\<lambda>info.
           bind_res (property_puts (Dot1Q_puts this hdr (ntohs info AND 0x7ff)) prop) (\<lambda>prop.
           bind_res (u16_at m (hdr + 2)) (\<lambda>type.
             Inr (Dot1Q_next this (ntohs type), pd, prop)))))"

subsection \<open>PPPoE\<close>

record pppoe = pmodule +
  pp_mod_ipv4 :: mod_id

definition PPPoE_new :: pmodule where
  "PPPoE_new =
     define_param ''payload_length'' VPlain (define_param ''session_id'' VPlain (define_param ''code'' VPlain
       (define_param ''type'' VPlain (define_param ''version'' VPlain Module_new))))"

definition PPPoE_setup :: "(string \<Rightarrow> mod_id) \<Rightarrow> pmodule \<Rightarrow> pppoe" where
  "PPPoE_setup lookup m = pmodule.extend m \<lparr>pp_mod_ipv4 = lookup ''IPv4''\<rparr>"

definition PPPoE_puts :: "pppoe \<Rightarrow> nat \<Rightarrow> byte \<Rightarrow> put list" where
  "PPPoE_puts this hdr b =
     [PCpy (mod_param this ''version'') [b AND 0xf] BIG,
      PCpy (mod_param this ''type'') [drop_bit 4 b] BIG,
      PSet (mod_param this ''code'') (PktPtr (hdr + 1)) 1 BIG,
      PSet (mod_param this ''session_id'') (PktPtr (hdr + 2)) 2 BIG,
      PSet (mod_param this ''payload_length'') (PktPtr (hdr + 4)) 2 BIG]"

definition PPPoE_decode ::
  "pppoe \<Rightarrow> mem \<Rightarrow> payload \<Rightarrow> 'b property \<Rightarrow> (mod_id \<times> payload \<times> 'b property) res" where
  "PPPoE_decode this m pd prop =
     bind_res (payload_retain 6 pd) (\<lambda>(r, pd).
       case r of
         None \<Rightarrow> Inr (Module_NONE, pd, prop)
       | Some hdr \<Rightarrow>
           bind_res (u8_at m hdr) (\<lambda>b.
           bind_res (property_puts (PPPoE_puts this hdr b) prop) (\<lambda>prop.
           bind_res (payload_retain 2 pd) (\<lambda>(r, pd).
             case r of
               None \<Rightarrow> Inr (Module_NONE, pd, prop)
             | Some ppp \<Rightarrow>
                 bind_res (u16_at m ppp) (\<lambda>proto.
                   Inr (if ntohs proto = 0x21 then pp_mod_ipv4 this else Module_NONE, pd, prop))))))"

subsection \<open>ARP\<close>

definition ARP_new :: "pmodule res" where
  "ARP_new =
     (let m = fold (\<lambda>n. define_param n VPlain)
                [''hw_type'', ''pr_type'', ''hw_size'', ''pr_size'', ''op'', ''hw_src'', ''hw_dst'',
                 ''pr_src'', ''pr_dst''] Module_new
      in bind_res (define_event ''request'' m) (define_event ''reply''))"

definition ARP_puts :: "pmodule \<Rightarrow> nat \<Rightarrow> put list" where
  "ARP_puts this hdr =
     [PSet (mod_param this ''hw_type'') (PktPtr hdr) 2 BIG,
      PSet (mod_param this ''pr_type'') (PktPtr (hdr + 2)) 2 BIG,
      PSet (mod_param this ''hw_size'') (PktPtr (hdr + 4)) 1 BIG,
      PSet (mod_param this ''pr_size'') (PktPtr (hdr + 5)) 1 BIG,
      PSet (mod_param this ''op'') (PktPtr (hdr + 6)) 2 BIG]"

definition ARP_event :: "pmodule \<Rightarrow> 16 word \<Rightarrow> 'b property \<Rightarrow> 'b property" where
  "ARP_event this op prop =
     (if ntohs op = 1 then push_event (mod_ev this ''request'') prop
      else if ntohs op = 2 then push_event (mod_ev this ''reply'') prop
      else prop)"

text \<open>The four \<^verbatim>\<open>SET_ADDR\<close> blocks; the first address that does not fit ends the decoding.\<close>

fun ARP_addrs ::
  "(pdef \<times> nat) list \<Rightarrow> payload \<Rightarrow> 'b property \<Rightarrow> (mod_id \<times> payload \<times> 'b property) res" where
  "ARP_addrs [] pd prop = Inr (Module_NONE, pd, prop)"
| "ARP_addrs ((d, len) # as) pd prop =
     bind_res (payload_retain len pd) (\<lambda>(r, pd).
       case r of
         None \<Rightarrow> Inr (Module_NONE, pd, prop)
       | Some ptr \<Rightarrow> bind_res (property_puts [PSet d (PktPtr ptr) len BIG] prop) (ARP_addrs as pd))"

definition ARP_addr_list :: "pmodule \<Rightarrow> nat \<Rightarrow> nat \<Rightarrow> (pdef \<times> nat) list" where
  "ARP_addr_list this hw_len pr_len =
     [(mod_param this ''hw_src'', hw_len), (mod_param this ''pr_src'', pr_len),
      (mod_param this ''hw_dst'', hw_len), (mod_param this ''pr_dst'', pr_len)]"

definition ARP_decode ::
  "pmodule \<Rightarrow> mem \<Rightarrow> payload \<Rightarrow> 'b property \<Rightarrow> (mod_id \<times> payload \<times> 'b property) res" where
  "ARP_decode this m pd prop =
     bind_res (payload_retain 8 pd) (\<lambda>(r, pd).
       case r of
         None \<Rightarrow> Inr (Module_NONE, pd, prop)
       | Some hdr \<Rightarrow>
           bind_res (property_puts (ARP_puts this hdr) prop) (\<lambda>prop.
           bind_res (u8_at m (hdr + 4)) (\<lambda>hw_size.
           bind_res (u8_at m (hdr + 5)) (\<lambda>pr_size.
           bind_res (u16_at m (hdr + 6)) (\<lambda>op.
             let hw_len = unat hw_size; pr_len = unat pr_size
             in ARP_addrs (ARP_addr_list this hw_len pr_len) pd (ARP_event this op prop))))))"

subsection \<open>What each module does\<close>

text \<open>One description per module; the contract and the properties follow from it.\<close>

abbreviation ether_params :: "string list" where "ether_params \<equiv> [''type'', ''src'', ''dst'']"

lemma Ethernet_returns:
  assumes "mod_ready D ether_params this" "payload_inv (length (m_pkt m)) pd" "property_ok D p"
  shows "returns (Ethernet_decode this m pd p) (\<lambda>(nxt, pd', p').
    if pl_length pd < 14 then nxt = Module_NONE \<and> pd' = pd \<and> p' = p
    else nxt = Ethernet_next this (ntohs (load_le (bslice (pl_ptr pd + 12) 2 (m_pkt m))))
      \<and> moved (length (m_pkt m)) 14 pd pd' \<and> adds D m (Ethernet_puts this (pl_ptr pd)) [] p p')"
proof -
  have "list_all (put_typed D) (Ethernet_puts this hdr)" for hdr
    using assms(1) by (simp add: Ethernet_puts_def mod_ready_def)
  then show ?thesis
    using assms(2,3) unfolding Ethernet_decode_def
    by (auto intro!: wp returns_puts [where m = m and D = D])
qed

definition Ethernet_nexts :: "ethernet \<Rightarrow> mod_id set" where
  "Ethernet_nexts this = {eth_mod_ipv4 this, eth_mod_arp this, eth_mod_pppoe this, eth_mod_dot1q this}"

interpretation ethernet: protocol Ethernet_decode "\<lambda>D. mod_ready D ether_params" Ethernet_nexts
proof (unfold_locales, goal_cases)
  case (1 D this m pd p)
  show ?case
    by (rule returns_mono [OF Ethernet_returns [OF 1]])
      (use 1 in \<open>auto simp: Ethernet_next_def Ethernet_nexts_def advance_refl adds_advance split: if_splits\<close>)
qed

abbreviation dot1q_params :: "string list" where "dot1q_params \<equiv> [''type'', ''vlan_id'']"

lemma Dot1Q_returns:
  assumes "mod_ready D dot1q_params this" "payload_inv (length (m_pkt m)) pd" "property_ok D p"
  shows "returns (Dot1Q_decode this m pd p) (\<lambda>(nxt, pd', p').
    if pl_length pd < 4 then nxt = Module_NONE \<and> pd' = pd \<and> p' = p
    else nxt = Dot1Q_next this (ntohs (load_le (bslice (pl_ptr pd + 2) 2 (m_pkt m))))
      \<and> moved (length (m_pkt m)) 4 pd pd'
      \<and> adds D m (Dot1Q_puts this (pl_ptr pd) (ntohs (load_le (bslice (pl_ptr pd) 2 (m_pkt m))) AND 0x7ff)) [] p p')"
proof -
  have "list_all (put_typed D) (Dot1Q_puts this hdr v)" for hdr v
    using assms(1) by (simp add: Dot1Q_puts_def mod_ready_def)
  then show ?thesis
    using assms(2,3) unfolding Dot1Q_decode_def
    by (auto intro!: wp returns_puts [where m = m and D = D])
qed

definition Dot1Q_nexts :: "dot1q \<Rightarrow> mod_id set" where
  "Dot1Q_nexts this = {dq_mod_ipv4 this, dq_mod_arp this, dq_mod_pppoe this}"

interpretation dot1q: protocol Dot1Q_decode "\<lambda>D. mod_ready D dot1q_params" Dot1Q_nexts
proof (unfold_locales, goal_cases)
  case (1 D this m pd p)
  show ?case
    by (rule returns_mono [OF Dot1Q_returns [OF 1]])
      (use 1 in \<open>auto simp: Dot1Q_next_def Dot1Q_nexts_def advance_refl adds_advance split: if_splits\<close>)
qed

abbreviation pppoe_params :: "string list" where
  "pppoe_params \<equiv> [''version'', ''type'', ''code'', ''session_id'', ''payload_length'']"

lemma PPPoE_returns:
  assumes "mod_ready D pppoe_params this" "payload_inv (length (m_pkt m)) pd" "property_ok D p"
  shows "returns (PPPoE_decode this m pd p) (\<lambda>(nxt, pd', p').
    if pl_length pd < 6 then nxt = Module_NONE \<and> pd' = pd \<and> p' = p
    else adds D m (PPPoE_puts this (pl_ptr pd) (m_pkt m ! pl_ptr pd)) [] p p'
      \<and> (if pl_length pd < 8 then nxt = Module_NONE \<and> moved (length (m_pkt m)) 6 pd pd'
         else moved (length (m_pkt m)) 8 pd pd'
           \<and> nxt = (if pkt_num m (pl_ptr pd + 6) 2 = 0x21 then pp_mod_ipv4 this else Module_NONE)))"
proof -
  have "list_all (put_typed D) (PPPoE_puts this hdr v)" for hdr v
    using assms(1) by (simp add: PPPoE_puts_def mod_ready_def)
  then show ?thesis
    using assms(2,3) unfolding PPPoE_decode_def
    by (auto intro!: wp returns_puts [where m = m and D = D] movedI simp: ntohs_at_eq_iff)
qed

interpretation pppoe: protocol PPPoE_decode "\<lambda>D. mod_ready D pppoe_params" "\<lambda>this. {pp_mod_ipv4 this}"
proof (unfold_locales, goal_cases)
  case (1 D this m pd p)
  show ?case
    by (rule returns_mono [OF PPPoE_returns [OF 1]])
      (use 1 in \<open>auto simp: advance_refl adds_advance split: if_splits\<close>)
qed

abbreviation arp_params :: "string list" where
  "arp_params \<equiv> [''hw_type'', ''pr_type'', ''hw_size'', ''pr_size'', ''op'', ''hw_src'', ''hw_dst'', ''pr_src'', ''pr_dst'']"

text \<open>The address blocks that fit, as writes; \<open>ptr\<close> is the cursor and \<open>len\<close> the bytes left.\<close>

fun ARP_addr_puts :: "(pdef \<times> nat) list \<Rightarrow> nat \<Rightarrow> nat \<Rightarrow> put list" where
  "ARP_addr_puts [] ptr len = []"
| "ARP_addr_puts ((d, n) # as) ptr len =
     (if n \<le> len then PSet d (PktPtr ptr) n BIG # ARP_addr_puts as (ptr + n) (len - n) else [])"

lemma ARP_addrs_returns:
  assumes "payload_inv (length (m_pkt m)) pd" "property_ok D p" "\<forall>(d, n) \<in> set as. 0 \<le> df_id d \<and> def_typed D d"
  shows "returns (ARP_addrs as pd p) (\<lambda>(nxt, pd', p').
    nxt = Module_NONE \<and> (\<exists>n. moved (length (m_pkt m)) n pd pd')
    \<and> adds D m (ARP_addr_puts as (pl_ptr pd) (pl_length pd)) [] p p')"
  using assms
proof (induction as arbitrary: pd p)
  case Nil
  then show ?case by (auto intro!: wp adds_refl exI [of _ 0] moved_0)
next
  case (Cons a as)
  obtain d n where a: "a = (d, n)" by fastforce
  show ?case
    unfolding a ARP_addrs.simps
  proof (rule returns_bind, rule returns_retain [OF Cons.prems(1)], goal_cases)
    case 1
    with Cons.prems show ?case by (auto intro!: wp adds_refl exI [of _ 0] moved_0 simp: a)
  next
    case (2 pd1)
    show ?case
    proof (simp only: prod.case option.case, rule returns_bind, rule returns_puts [where m = m and D = D], goal_cases)
      case (3 p1)
      show ?case
        by (rule returns_mono [OF Cons.IH [of pd1 p1]])
          (use 2 3 Cons.prems a adds_wf [OF 3(1)] in
            \<open>auto intro: moved_trans dest: adds_puts [OF 3(1)]\<close>)
    qed (use Cons.prems a in auto)
  qed
qed

definition ARP_events :: "pmodule \<Rightarrow> nat \<Rightarrow> event_id list" where
  "ARP_events this op =
     (if op = 1 then [mod_ev this ''request''] else if op = 2 then [mod_ev this ''reply''] else [])"

lemma ARP_event_adds:
  assumes "adds D m us [] p p'" "off + 2 \<le> length (m_pkt m)"
  shows "adds D m us (ARP_events this (pkt_num m off 2)) p (ARP_event this (load_le (bslice off 2 (m_pkt m))) p')"
  using assms adds_event [OF assms(1)] by (simp add: ARP_event_def ARP_events_def ntohs_at_eq_iff)

lemma ARP_returns:
  assumes "mod_ready D arp_params this" "payload_inv (length (m_pkt m)) pd" "property_ok D p"
  shows "returns (ARP_decode this m pd p) (\<lambda>(nxt, pd', p').
    nxt = Module_NONE \<and> (if pl_length pd < 8 then pd' = pd \<and> p' = p
    else (\<exists>n. moved (length (m_pkt m)) n pd pd')
      \<and> adds D m (ARP_puts this (pl_ptr pd)
          @ ARP_addr_puts (ARP_addr_list this (unat (m_pkt m ! (pl_ptr pd + 4))) (unat (m_pkt m ! (pl_ptr pd + 5))))
              (pl_ptr pd + 8) (pl_length pd - 8))
          (ARP_events this (pkt_num m (pl_ptr pd + 6) 2)) p p'))"
  unfolding ARP_decode_def
proof (rule returns_bind, rule returns_retain [OF assms(2)], goal_cases)
  case 1
  then show ?case by (auto intro!: wp)
next
  case (2 pd1)
  let ?as = "ARP_addr_list this (unat (m_pkt m ! (pl_ptr pd + 4))) (unat (m_pkt m ! (pl_ptr pd + 5)))"
  have ids: "list_all (put_typed D) (ARP_puts this (pl_ptr pd))" "\<forall>(d, n) \<in> set ?as. 0 \<le> df_id d \<and> def_typed D d"
    using assms(1) by (auto simp: ARP_puts_def mod_ready_def ARP_addr_list_def)
  let ?Q = "\<lambda>(nxt, pd', p'). nxt = Module_NONE \<and> (if pl_length pd < 8 then pd' = pd \<and> p' = p
    else (\<exists>n. moved (length (m_pkt m)) n pd pd')
      \<and> adds D m (ARP_puts this (pl_ptr pd) @ ARP_addr_puts ?as (pl_ptr pd + 8) (pl_length pd - 8))
          (ARP_events this (pkt_num m (pl_ptr pd + 6) 2)) p p')"
  have addrs: "returns (ARP_addrs ?as pd1 p2) ?Q"
    if "adds D m (ARP_puts this (pl_ptr pd)) (ARP_events this (pkt_num m (pl_ptr pd + 6) 2)) p p2" for p2
    by (rule returns_mono [OF ARP_addrs_returns [OF 2(2) adds_wf [OF that] ids(2)]])
      (use 2 adds_puts [OF that] in \<open>auto intro: moved_trans\<close>)
  show ?case
    unfolding prod.case option.case Let_def
    by (intro returns_bind returns_puts [where m = m and D = D] returns_u8 returns_u16 addrs ARP_event_adds)
      (use 2 assms(3) ids(1) in auto)
qed

interpretation arp: protocol ARP_decode "\<lambda>D. mod_ready D arp_params" "\<lambda>_. {}"
proof (unfold_locales, goal_cases)
  case (1 D this m pd p)
  show ?case
    by (rule returns_mono [OF ARP_returns [OF 1]])
      (use 1 in \<open>auto simp: advance_refl intro: adds_advance split: if_splits\<close>)
qed

subsection \<open>Properties\<close>

lemma put_shown_pkt:
  "off + n \<le> length (m_pkt m) \<Longrightarrow> put_shown m (PSet d (PktPtr off) n e) = Some (bslice off n (m_pkt m), e)"
  by (simp add: bslice_opt_def)

text \<open>
  C20: An Ethernet frame of at least 14 bytes is split as the standard says: the first six bytes are \<^verbatim>\<open>dst\<close>, the next six
  \<^verbatim>\<open>src\<close>, the last two \<^verbatim>\<open>type\<close>; the cursor stands behind the header and the type selects the next module. A shorter
  frame leaves cursor and property alone and ends the decoding.
\<close>

theorem ethernet_decodes:
  assumes "mod_ready D ether_params this" "payload_inv (length (m_pkt m)) pd" "property_ok D p"
  shows "\<exists>nxt pd' p'. Ethernet_decode this m pd p = Inr (nxt, pd', p')
    \<and> (if pl_length pd < 14 then nxt = Module_NONE \<and> pd' = pd \<and> p' = p
       else pl_ptr pd' = pl_ptr pd + 14 \<and> pl_length pd' = pl_length pd - 14 \<and> events p' = events p
         \<and> view m p' (pid_of this ''dst'') = view m p (pid_of this ''dst'') @ [Some (bslice (pl_ptr pd) 6 (m_pkt m), BIG)]
         \<and> view m p' (pid_of this ''src'') = view m p (pid_of this ''src'') @ [Some (bslice (pl_ptr pd + 6) 6 (m_pkt m), BIG)]
         \<and> view m p' (pid_of this ''type'') = view m p (pid_of this ''type'') @ [Some (bslice (pl_ptr pd + 12) 2 (m_pkt m), BIG)]
         \<and> nxt = (let t = pkt_num m (pl_ptr pd + 12) 2
                  in if t = 0x0800 then eth_mod_ipv4 this else if t = 0x0806 then eth_mod_arp this
                     else if t = 0x8100 then eth_mod_dot1q this else if t = 0x8864 then eth_mod_pppoe this
                     else Module_NONE))"
  using Ethernet_returns [OF assms]
  by (rule returns_obtain; cases "pl_length pd < 14")
    (use assms(2) in \<open>auto simp: Let_def moved_def adds_def emitted_def Ethernet_puts_def Ethernet_next_def
      pid_of_eq_iff [OF assms(1)] payload_inv_def bslice_opt_def ntohs_at_eq_iff\<close>)

definition demo_frame :: "byte list" where
  "demo_frame = [1, 2, 3, 4, 5, 6, 7, 8, 9, 10, 11, 12, 8, 0, 0xff]"

definition demo_ethernet :: ethernet where
  "demo_ethernet = Ethernet_setup (\<lambda>n. int (length n)) (solo Ethernet_new)"

theorem ethernet_decodes_witness:
  "\<exists>pd' p'. Ethernet_decode demo_ethernet (demo_mem demo_frame) (demo_pd demo_frame) demo_prop = Inr (4, pd', p')
     \<and> view (demo_mem demo_frame) p' (pid_of demo_ethernet ''src'') = [Some ([7, 8, 9, 10, 11, 12], BIG)]"
proof -
  have "mod_ready (demo_D demo_ethernet) ether_params demo_ethernet" "eth_mod_ipv4 demo_ethernet = 4"
      "pkt_num (demo_mem demo_frame) 12 2 = 0x0800" "bslice 6 6 demo_frame = [7, 8, 9, 10, 11, 12]" "\<not> length demo_frame < 14"
    by code_simp+
  then show ?thesis
    using ethernet_decodes [of "demo_D demo_ethernet" demo_ethernet "demo_mem demo_frame" "demo_pd demo_frame" demo_prop] by auto
qed

text \<open>
  The VLAN id a Dot1Q tag yields is the low eleven bits of the tag control information. (IEEE 802.1Q has
  twelve: ids from 2048 on are reported 2048 too small.) The type selects ARP, IPv4 or PPPoE.
\<close>

theorem dot1q_vlan_id:
  assumes "mod_ready D dot1q_params this" "payload_inv (length (m_pkt m)) pd" "property_ok D p" "4 \<le> pl_length pd"
  shows "\<exists>nxt pd' p'. Dot1Q_decode this m pd p = Inr (nxt, pd', p') \<and> pl_ptr pd' = pl_ptr pd + 4
    \<and> view m p' (pid_of this ''vlan_id'') = view m p (pid_of this ''vlan_id'')
        @ [Some (store_le 2 (pkt_num m (pl_ptr pd) 2 mod 2048), LITTLE)]
    \<and> view m p' (pid_of this ''type'') = view m p (pid_of this ''type'') @ [Some (bslice (pl_ptr pd + 2) 2 (m_pkt m), BIG)]
    \<and> nxt = (let t = pkt_num m (pl_ptr pd + 2) 2
             in if t = 0x0800 then dq_mod_ipv4 this else if t = 0x0806 then dq_mod_arp this
                else if t = 0x8864 then dq_mod_pppoe this else Module_NONE)"
proof -
  have "unat (w AND mask 11) = unat w mod 2 ^ 11" for w :: "16 word"
    by (simp only: unsigned_take_bit_eq flip: take_bit_eq_mask take_bit_eq_mod)
  then have "unat (w AND 0x7ff) = unat w mod 2048" for w :: "16 word"
    by (simp add: mask_eq_exp_minus_1)
  then show ?thesis
    using Dot1Q_returns [OF assms(1-3)]
    by (elim returns_obtain)
      (use assms(2,4) in \<open>auto simp: Let_def moved_def adds_def emitted_def Dot1Q_puts_def Dot1Q_next_def
        pid_of_eq_iff [OF assms(1)] payload_inv_def bslice_opt_def ntohs_at_eq_iff unat_ntohs_at\<close>)
qed

definition demo_dot1q :: dot1q where
  "demo_dot1q = Dot1Q_setup (\<lambda>n. int (length n)) (solo Dot1Q_new)"

definition demo_tag :: "byte list" where "demo_tag = [0x0f, 0xff, 8, 6]"

theorem dot1q_vlan_id_witness:
  "\<exists>nxt pd' p'. Dot1Q_decode demo_dot1q (demo_mem demo_tag) (demo_pd demo_tag) demo_prop = Inr (nxt, pd', p')
     \<and> view (demo_mem demo_tag) p' (pid_of demo_dot1q ''vlan_id'') = [Some ([0xff, 0x07], LITTLE)]"
proof -
  have "mod_ready (demo_D demo_dot1q) dot1q_params demo_dot1q" "length demo_tag = 4"
      "store_le 2 (pkt_num (demo_mem demo_tag) 0 2 mod 2048) = [0xff, 0x07]"
    by code_simp+
  then show ?thesis
    using dot1q_vlan_id [of "demo_D demo_dot1q" demo_dot1q "demo_mem demo_tag" "demo_pd demo_tag" demo_prop] by auto
qed

text \<open>
  C25: An ARP packet that holds both address pairs is decoded completely: with hardware and protocol lengths \<open>h\<close> and \<open>q\<close>
  of its header, the sender's addresses are the \<open>h\<close> bytes at 8 and the \<open>q\<close> bytes behind them, the target's follow;
  operation 1 raises \<^verbatim>\<open>ARP.request\<close>, 2 raises \<^verbatim>\<open>ARP.reply\<close>, any other neither.
\<close>

theorem arp_decodes:
  assumes "mod_ready D arp_params this" "payload_inv (length (m_pkt m)) pd" "property_ok D p"
    "h = unat (m_pkt m ! (pl_ptr pd + 4))" "q = unat (m_pkt m ! (pl_ptr pd + 5))"
    "8 + 2 * (h + q) \<le> pl_length pd" "a = pl_ptr pd + 8"
  shows "\<exists>pd' p'. ARP_decode this m pd p = Inr (Module_NONE, pd', p')
    \<and> view m p' (pid_of this ''hw_src'') = view m p (pid_of this ''hw_src'') @ [Some (bslice a h (m_pkt m), BIG)]
    \<and> view m p' (pid_of this ''pr_src'') = view m p (pid_of this ''pr_src'') @ [Some (bslice (a + h) q (m_pkt m), BIG)]
    \<and> view m p' (pid_of this ''hw_dst'') = view m p (pid_of this ''hw_dst'') @ [Some (bslice (a + h + q) h (m_pkt m), BIG)]
    \<and> view m p' (pid_of this ''pr_dst'') = view m p (pid_of this ''pr_dst'') @ [Some (bslice (a + h + q + h) q (m_pkt m), BIG)]
    \<and> view m p' (pid_of this ''op'') = view m p (pid_of this ''op'') @ [Some (bslice (pl_ptr pd + 6) 2 (m_pkt m), BIG)]
    \<and> events p' = events p @ (let op = pkt_num m (pl_ptr pd + 6) 2
        in if op = 1 then [mod_ev this ''request''] else if op = 2 then [mod_ev this ''reply''] else [])"
proof -
  have "pl_ptr pd + pl_length pd \<le> length (m_pkt m)"
    using assms(2) by (simp add: payload_inv_def)
  then show ?thesis
    using ARP_returns [OF assms(1-3)] assms(6) unfolding assms(4,5,7)
    by (elim returns_obtain)
      (auto simp: adds_def emitted_def ARP_puts_def ARP_addr_list_def ARP_events_def
        pid_of_eq_iff [OF assms(1)] bslice_opt_def)
qed

definition demo_arp :: pmodule where
  "demo_arp = (case ARP_new of Inr m \<Rightarrow> solo m | Inl _ \<Rightarrow> Module_new)"

definition demo_arp_packet :: "byte list" where
  "demo_arp_packet = [0, 1, 8, 0, 2, 1, 0, 1, 10, 11, 12, 13, 14, 15, 16]"

theorem arp_decodes_witness:
  "\<exists>pd' p'. ARP_decode demo_arp (demo_mem demo_arp_packet) (demo_pd demo_arp_packet) demo_prop
      = Inr (Module_NONE, pd', p')
     \<and> view (demo_mem demo_arp_packet) p' (pid_of demo_arp ''hw_dst'') = [Some ([13, 14], BIG)]
     \<and> events p' = [mod_ev demo_arp ''request'']"
proof -
  have "mod_ready (demo_D demo_arp) arp_params demo_arp" "unat (demo_arp_packet ! 4) = 2" "unat (demo_arp_packet ! 5) = 1"
      "length demo_arp_packet = 15" "pkt_num (demo_mem demo_arp_packet) 6 2 = 1" "bslice 11 2 demo_arp_packet = [13, 14]"
    by code_simp+
  then show ?thesis
    using arp_decodes [of "demo_D demo_arp" demo_arp "demo_mem demo_arp_packet" "demo_pd demo_arp_packet" demo_prop 2 1 8] by auto
qed

end
