(* ===== verification/PM_Session.thy ===== *)
theory PM_Session
  imports PM_Proto
begin

text \<open>
  \<^verbatim>\<open>TCP::Session\<close> of \<^verbatim>\<open>src/modules/tcp.cc\<close>: the two streams of a connection, the state machine of its set-up and
  tear-down, and the reassembly of segments that arrive out of order. The pointers \<^verbatim>\<open>client_\<close> and \<^verbatim>\<open>server_\<close> are the
  values of \<open>side\<close>. A stored \<^verbatim>\<open>Segment\<close> is a \<^verbatim>\<open>tb::Buffer\<close>; a chain linked by \<^verbatim>\<open>next_\<close> is a list. \<^verbatim>\<open>decode_stream\<close> calls
  itself for the stored segments that have become due; the depth of the recursion is bounded by the number of stored
  segments, which is the fuel the caller passes.
\<close>

subsection \<open>Flags and states\<close>

abbreviation "FIN \<equiv> (0x01 :: byte)"
abbreviation "SYN \<equiv> (0x02 :: byte)"
abbreviation "RST \<equiv> (0x04 :: byte)"
abbreviation "PUSH \<equiv> (0x08 :: byte)"
abbreviation "ACK \<equiv> (0x10 :: byte)"
abbreviation "URG \<equiv> (0x20 :: byte)"
abbreviation "ECE \<equiv> (0x40 :: byte)"
abbreviation "CWR \<equiv> (0x80 :: byte)"

datatype status = NONE | SYN_SENT | SYNACK_SENT | ESTABLISHED | CLOSING | CLOSED

datatype side = Client | Server

fun other :: "side \<Rightarrow> side" where
  "other Client = Server"
| "other Server = Client"

record stream =
  sm_has_base :: bool
  sm_base_seq :: "32 word"
  sm_next_seq :: "32 word"
  sm_ack :: "32 word"
  sm_win :: "32 word"
  sm_addr :: "byte list"
  sm_port :: "16 word"
  sm_tx_size :: "64 word"

record 'b segment =
  sg_buf :: 'b
  sg_seq :: "32 word"
  sg_flags :: byte

record 'b session =
  ss_client :: stream
  ss_server :: stream
  ss_closing :: "side option"
  ss_id :: "64 word"
  ss_status :: status
  ss_ts_init :: timeval
  ss_ts_estb :: timeval
  ss_ts_rtt :: timeval
  ss_buf :: "'b option"
  ss_seg_map :: "(32 word, 'b segment list) smap"

subsection \<open>Stream\<close>

text \<open>\<^verbatim>\<open>ack_\<close> and \<^verbatim>\<open>win_size_\<close> are not initialised; no result depends on them, because \<^verbatim>\<open>in_window\<close> only prints them.\<close>

definition Stream_new :: "byte list \<Rightarrow> 16 word \<Rightarrow> stream" where
  "Stream_new addr port =
     \<lparr>sm_has_base = False, sm_base_seq = 0, sm_next_seq = 0, sm_ack = 0, sm_win = 0, sm_addr = addr, sm_port = port,
      sm_tx_size = 0\<rparr>"

definition in_window :: "32 word \<Rightarrow> stream \<Rightarrow> bool" where
  "in_window seq st = True"

definition to_rel_seq :: "32 word \<Rightarrow> stream \<Rightarrow> 32 word" where
  "to_rel_seq seq st = seq - sm_base_seq st"

definition set_base_seq :: "32 word \<Rightarrow> nat \<Rightarrow> stream \<Rightarrow> stream" where
  "set_base_seq seq seg_len st =
     st\<lparr>sm_has_base := True, sm_base_seq := seq, sm_next_seq := word_of_nat (1 + seg_len)\<rparr>"

definition inc_seq :: "stream \<Rightarrow> stream" where
  "inc_seq st = st\<lparr>sm_next_seq := sm_next_seq st + 1\<rparr>"

definition stream_match :: "byte list \<Rightarrow> 16 word \<Rightarrow> stream \<Rightarrow> bool" where
  "stream_match addr port st \<longleftrightarrow> length (sm_addr st) = length addr \<and> sm_port st = port \<and> addr = sm_addr st"

definition is_src :: "'b buffer_ops \<Rightarrow> 'b property \<Rightarrow> stream \<Rightarrow> bool" where
  "is_src ops p st = stream_match (tb_bytes ops (pr_src_addr p)) (pr_src_port p) st"

definition stream_send :: "32 word \<Rightarrow> nat \<Rightarrow> stream \<Rightarrow> bool \<times> stream" where
  "stream_send seq data_len st =
     (if \<not> sm_has_base st then (True, st)
      else
        let rel_seq = seq - sm_base_seq st
        in if sm_next_seq st = rel_seq then (True, st\<lparr>sm_next_seq := sm_next_seq st + word_of_nat data_len\<rparr>)
           else (False, st))"

definition stream_recv :: "32 word \<Rightarrow> 32 word \<Rightarrow> stream \<Rightarrow> stream" where
  "stream_recv ack win_size st = st\<lparr>sm_ack := ack, sm_win := win_size\<rparr>"

subsection \<open>Session\<close>

definition Session_new :: "'b buffer_ops \<Rightarrow> 'b property \<Rightarrow> 64 word \<Rightarrow> 'b session" where
  "Session_new ops p ssn_id =
     (let tv0 = \<lparr>tv_sec = 0, tv_usec = 0\<rparr>
      in \<lparr>ss_client = Stream_new (tb_bytes ops (pr_src_addr p)) (pr_src_port p),
          ss_server = Stream_new (tb_bytes ops (pr_dst_addr p)) (pr_dst_port p),
          ss_closing = None, ss_id = ssn_id, ss_status = NONE, ss_ts_init = tv0, ss_ts_estb = tv0, ss_ts_rtt = tv0,
          ss_buf = None, ss_seg_map = []\<rparr>)"

fun stream_of :: "side \<Rightarrow> 'b session \<Rightarrow> stream" where
  "stream_of Client s = ss_client s"
| "stream_of Server s = ss_server s"

fun upd_stream :: "side \<Rightarrow> (stream \<Rightarrow> stream) \<Rightarrow> 'b session \<Rightarrow> 'b session" where
  "upd_stream Client f s = s\<lparr>ss_client := f (ss_client s)\<rparr>"
| "upd_stream Server f s = s\<lparr>ss_server := f (ss_server s)\<rparr>"

text \<open>The macro \<^verbatim>\<open>timersub\<close>.\<close>

definition timersub :: "timeval \<Rightarrow> timeval \<Rightarrow> timeval" where
  "timersub a b =
     (let sec = tv_sec a - tv_sec b; usec = tv_usec a - tv_usec b
      in if usec < 0 then \<lparr>tv_sec = sec - 1, tv_usec = usec + 1000000\<rparr> else \<lparr>tv_sec = sec, tv_usec = usec\<rparr>)"

definition trans_state ::
  "byte \<Rightarrow> side \<Rightarrow> 32 word \<Rightarrow> nat \<Rightarrow> timeval \<Rightarrow> 'b session \<Rightarrow> status \<times> 'b session" where
  "trans_state flags sender seq seg_len tv s =
     (case ss_status s of
        NONE \<Rightarrow>
          if flags = SYN \<and> sender = Client
          then (SYN_SENT, upd_stream sender (set_base_seq seq seg_len) (s\<lparr>ss_status := SYN_SENT, ss_ts_init := tv\<rparr>))
          else (NONE, s)
      | SYN_SENT \<Rightarrow>
          if flags = SYN OR ACK \<and> sender = Server
          then (SYNACK_SENT, upd_stream sender (set_base_seq seq seg_len) (s\<lparr>ss_status := SYNACK_SENT\<rparr>))
          else (NONE, s)
      | SYNACK_SENT \<Rightarrow>
          if flags = ACK \<and> sender = Client
          then (ESTABLISHED, s\<lparr>ss_status := ESTABLISHED, ss_ts_estb := tv, ss_ts_rtt := timersub tv (ss_ts_init s)\<rparr>)
          else (NONE, s)
      | ESTABLISHED \<Rightarrow>
          if flags AND FIN > 0
          then (CLOSING, upd_stream sender inc_seq (s\<lparr>ss_status := CLOSING, ss_closing := Some sender\<rparr>))
          else (NONE, s)
      | CLOSING \<Rightarrow>
          if flags AND FIN > 0 \<and> ss_closing s \<noteq> Some sender
          then (CLOSED, upd_stream sender inc_seq (s\<lparr>ss_status := CLOSED\<rparr>))
          else (NONE, s)
      | CLOSED \<Rightarrow> (NONE, s))"

text \<open>Sequencing of computations that may also not return.\<close>

definition bind_opt :: "'a res option \<Rightarrow> ('a \<Rightarrow> 'c res option) \<Rightarrow> 'c res option" where
  "bind_opt r f = (case r of None \<Rightarrow> None | Some (Inl e) \<Rightarrow> Some (Inl e) | Some (Inr a) \<Rightarrow> f a)"

text \<open>The branch of \<^verbatim>\<open>decode_stream\<close> for a segment that is not due: it is kept under its relative sequence number.\<close>

definition store_segment :: "'b buffer_ops \<Rightarrow> side \<Rightarrow> byte \<Rightarrow> 32 word \<Rightarrow> byte list \<Rightarrow> 'b session \<Rightarrow> 'b session" where
  "store_segment ops sender flags seq data s =
     (if in_window seq (stream_of sender s) then
        let rel_seq = to_rel_seq seq (stream_of sender s);
            seg = \<lparr>sg_buf = tb_make ops data, sg_seq = seq, sg_flags = flags\<rparr>
        in (case smap_find (ss_seg_map s) rel_seq of
              None \<Rightarrow> s\<lparr>ss_seg_map := smap_insert rel_seq [seg] (ss_seg_map s)\<rparr>
            | Some chain \<Rightarrow> s\<lparr>ss_seg_map := smap_assign rel_seq (chain @ [seg]) (ss_seg_map s)\<rparr>)
      else s)"

definition rtt_ts :: "timeval \<Rightarrow> 32 word" where
  "rtt_ts tv = word_of_int (tv_sec tv * 1000000 + tv_usec tv)"

definition state_events :: "'a pmodule_scheme \<Rightarrow> status \<Rightarrow> 'b session \<Rightarrow> 'b property \<Rightarrow> 'b property res" where
  "state_events this new_state s p =
     bind_res
       (if new_state = ESTABLISHED
        then property_puts [PCpy (mod_param this ''rtt_3wh'') (store_le 4 (unat (rtt_ts (ss_ts_rtt s)))) LITTLE]
               (push_event (mod_ev this ''established'') p)
        else Inr p)
       (\<lambda>p. Inr (if new_state = CLOSED then push_event (mod_ev this ''closed'') p else p))"

definition deliver ::
  "'b buffer_ops \<Rightarrow> 'a pmodule_scheme \<Rightarrow> byte list \<Rightarrow> ptr \<Rightarrow> 'b session \<Rightarrow> 'b property \<Rightarrow> ('b session \<times> 'b property) res" where
  "deliver ops this data seg_ptr s p =
     (case ss_buf s of
        Some b \<Rightarrow>
          let b = tb_append ops data b
          in bind_res (property_puts [PSet (mod_param this ''data'') (BufPtr (tb_addr ops b)) (length (tb_bytes ops b)) BIG] p)
               (\<lambda>p. Inr (s\<lparr>ss_buf := Some b\<rparr>, p))
      | None \<Rightarrow>
          bind_res (property_puts [PSet (mod_param this ''data'') seg_ptr (length data) BIG] p) (\<lambda>p. Inr (s, p)))"

text \<open>The loop over a chain.\<close>

fun run_chain ::
  "('b segment \<Rightarrow> 'b session \<Rightarrow> 'b property \<Rightarrow> (bool \<times> 'b session \<times> 'b property) res option)
     \<Rightarrow> 'b segment list \<Rightarrow> 'b session \<Rightarrow> 'b property \<Rightarrow> (bool \<times> 'b session \<times> 'b property) res option" where
  "run_chain f [] s p = Some (Inr (True, s, p))"
| "run_chain f (seg # segs) s p = bind_opt (f seg s p) (\<lambda>(_, s, p). run_chain f segs s p)"

primrec decode_stream ::
  "nat \<Rightarrow> 'b buffer_ops \<Rightarrow> 'a pmodule_scheme \<Rightarrow> 32 word \<Rightarrow> 16 word \<Rightarrow> side
     \<Rightarrow> byte \<Rightarrow> 32 word \<Rightarrow> byte list \<Rightarrow> ptr \<Rightarrow> 'b session \<Rightarrow> 'b property
     \<Rightarrow> (bool \<times> 'b session \<times> 'b property) res option" where
  "decode_stream 0 ops this ack win sender flags seq data seg_ptr s p = None"
| "decode_stream (Suc fuel) ops this ack win sender flags seq data seg_ptr s p =
     (case stream_send seq (length data) (stream_of sender s) of
        (False, _) \<Rightarrow> Some (Inr (False, store_segment ops sender flags seq data s, p))
      | (True, st) \<Rightarrow>
          let s = upd_stream (other sender) (stream_recv ack (ucast win)) (upd_stream sender (\<lambda>_. st) s)
          in bind_opt (Some (property_tv p)) (\<lambda>tv.
             case trans_state flags sender seq (length data) tv s of
               (new_state, s) \<Rightarrow>
                 bind_opt (Some (state_events this new_state s p)) (\<lambda>p.
                 bind_opt (Some (deliver ops this data seg_ptr s p)) (\<lambda>(s, p).
                   if ss_seg_map s = [] then Some (Inr (True, s, p))
                   else
                     (case smap_find (ss_seg_map s) (sm_next_seq (stream_of sender s)) of
                        None \<Rightarrow> Some (Inr (True, s, p))
                      | Some chain \<Rightarrow>
                          let s = (if ss_buf s = None then s\<lparr>ss_buf := Some (tb_append ops data (tb_new ops))\<rparr> else s);
                              s = s\<lparr>ss_seg_map := smap_erase (sm_next_seq (stream_of sender s)) (ss_seg_map s)\<rparr>
                          in run_chain
                               (\<lambda>seg s p. decode_stream fuel ops this ack win sender (sg_flags seg) (sg_seq seg)
                                  (tb_bytes ops (sg_buf seg)) (BufPtr (tb_addr ops (sg_buf seg))) s p)
                               chain s p)))))"

definition seg_total :: "'b session \<Rightarrow> nat" where
  "seg_total s = sum_list (map (length \<circ> snd) (ss_seg_map s))"

definition Session_decode ::
  "'b buffer_ops \<Rightarrow> 'a pmodule_scheme \<Rightarrow> byte \<Rightarrow> 32 word \<Rightarrow> 32 word \<Rightarrow> byte list \<Rightarrow> ptr \<Rightarrow> 16 word
     \<Rightarrow> 'b session \<Rightarrow> 'b property \<Rightarrow> ('b session \<times> 'b property) res option" where
  "Session_decode ops this flags seq ack data seg_ptr win s p =
     (let s = s\<lparr>ss_buf := None\<rparr>;
          sender = (if is_src ops p (ss_client s) then Client else Server)
      in bind_opt (decode_stream (Suc (seg_total s)) ops this ack win sender flags seq data seg_ptr s p) (\<lambda>(_, s, p).
         let tx_c = ucast (sm_tx_size (ss_server s)) :: 32 word;
             tx_s = ucast (sm_tx_size (ss_client s)) :: 32 word
         in bind_opt (Some (property_puts
              [PCpy (mod_param this ''tx_server'') (store_le 4 (unat tx_s)) LITTLE,
               PCpy (mod_param this ''tx_client'') (store_le 4 (unat tx_c)) LITTLE] p))
              (\<lambda>p. Some (Inr (s, p)))))"

subsection \<open>Termination and safety\<close>

lemma bind_opt_simps [simp]:
  "bind_opt None f = None" "bind_opt (Some (Inl e)) f = Some (Inl e)" "bind_opt (Some (Inr a)) f = f a"
  by (simp_all add: bind_opt_def)

text \<open>The parameters a session writes are ready.\<close>

abbreviation session_params :: "string list" where
  "session_params \<equiv> [''data'', ''rtt_3wh'', ''tx_server'', ''tx_client'']"

definition params_ready :: "(nat \<Rightarrow> string) \<Rightarrow> string list \<Rightarrow> 'a pmodule_scheme \<Rightarrow> bool" where
  "params_ready D names this \<longleftrightarrow>
     (\<forall>n \<in> set names. 0 \<le> df_id (mod_param this n) \<and> def_typed D (mod_param this n))"

lemma mod_ready_params: "mod_ready D names this \<Longrightarrow> set ns \<subseteq> set names \<Longrightarrow> params_ready D ns this"
  by (auto simp: mod_ready_def params_ready_def)

text \<open>A property of a packet to which only values and events are added.\<close>

definition grew :: "(nat \<Rightarrow> string) \<Rightarrow> mem \<Rightarrow> 'b property \<Rightarrow> 'b property \<Rightarrow> bool" where
  "grew D m p p' \<longleftrightarrow> (\<exists>us es. adds D m us es p p') \<and> pr_pkt p' = pr_pkt p
     \<and> pr_src_addr p' = pr_src_addr p \<and> pr_dst_addr p' = pr_dst_addr p
     \<and> pr_src_port p' = pr_src_port p \<and> pr_dst_port p' = pr_dst_port p"

lemma grew_refl: "property_ok D p \<Longrightarrow> grew D m p p"
  by (auto simp: grew_def intro: adds_refl)

lemma grew_trans: "grew D m p p1 \<Longrightarrow> grew D m p1 p2 \<Longrightarrow> grew D m p p2"
  by (auto simp: grew_def intro: adds_trans)

lemma grew_ok: "grew D m p p' \<Longrightarrow> property_ok D p'"
  by (auto simp: grew_def intro: adds_wf)

lemma grew_event:
  assumes "property_ok D p"
  shows "grew D m p (push_event e p)"
proof -
  have "\<exists>us es. adds D m us es p (push_event e p)"
    using adds_event [OF adds_refl [OF assms]] by blast
  then show ?thesis by (simp add: grew_def push_event_def)
qed

lemma grew_puts:
  assumes "property_ok D p" "list_all (put_typed D) us"
  obtains p' where "property_puts us p = Inr p'" "grew D m p p'"
  by (rule returns_obtain [OF returns_puts [OF assms, where m = m and Q = "\<lambda>p'. grew D m p p'"]])
    (auto simp: grew_def same_frame_def)

lemma state_events_grew:
  assumes "params_ready D session_params this" "property_ok D p"
  obtains p' where "state_events this ns s p = Inr p'" "grew D m p p'"
proof (cases "ns = ESTABLISHED")
  case True
  let ?p = "push_event (mod_ev this ''established'') p"
  note g = grew_event [OF assms(2), of m "mod_ev this ''established''"]
  obtain p' where "property_puts [PCpy (mod_param this ''rtt_3wh'') (store_le 4 (unat (rtt_ts (ss_ts_rtt s)))) LITTLE] ?p
      = Inr p'" "grew D m ?p p'"
    using grew_puts [OF grew_ok [OF g], of "[PCpy (mod_param this ''rtt_3wh'') (store_le 4 (unat (rtt_ts (ss_ts_rtt s)))) LITTLE]"]
      assms(1) by (auto simp: params_ready_def)
  with True grew_trans [OF g] that show ?thesis
    by (auto simp: state_events_def)
next
  case False
  then show ?thesis
    using that grew_refl [OF assms(2)] grew_event [OF assms(2)] by (auto simp: state_events_def)
qed

lemma deliver_grew:
  assumes "params_ready D session_params this" "property_ok D p" "seg_ptr \<noteq> OwnPtr"
  obtains s' p' where "deliver ops this data seg_ptr s p = Inr (s', p')" "grew D m p p'"
    "s' = (case ss_buf s of None \<Rightarrow> s | Some b \<Rightarrow> s\<lparr>ss_buf := Some (tb_append ops data b)\<rparr>)"
proof -
  have d: "0 \<le> df_id (mod_param this ''data'')" "def_typed D (mod_param this ''data'')"
    using assms(1) by (simp_all add: params_ready_def)
  have put: "\<exists>p'. property_puts [PSet (mod_param this ''data'') q n BIG] p = Inr p' \<and> grew D m p p'" if "q \<noteq> OwnPtr" for q n
    using grew_puts [OF assms(2), of "[PSet (mod_param this ''data'') q n BIG]" m] d that by auto
  show ?thesis
  proof (cases "ss_buf s")
    case None
    with put [OF assms(3), of "length data"] that show ?thesis by (auto simp: deliver_def)
  next
    case (Some b)
    with put [of "BufPtr (tb_addr ops (tb_append ops data b))" "length (tb_bytes ops (tb_append ops data b))"] that
    show ?thesis by (auto simp: deliver_def Let_def)
  qed
qed

text \<open>The number of stored segments.\<close>

lemma total_insert: "sum_list (map (length \<circ> snd) (smap_insert k [x] m)) \<le> Suc (sum_list (map (length \<circ> snd) m))"
  by (induction k "[x]" m rule: smap_insert.induct) auto

lemma total_assign:
  "map_of m k = Some xs \<Longrightarrow>
     sum_list (map (length \<circ> snd) (smap_assign k (xs @ [x]) m)) = Suc (sum_list (map (length \<circ> snd) m))"
  by (induction m) (auto split: if_splits)

lemma total_erase:
  "map_of m k = Some xs \<Longrightarrow>
     sum_list (map (length \<circ> snd) (smap_erase k m)) + length xs = sum_list (map (length \<circ> snd) m)"
  by (induction m) (auto split: if_splits)

lemma upd_stream_frame [simp]:
  "ss_seg_map (upd_stream sd f s) = ss_seg_map s" "ss_buf (upd_stream sd f s) = ss_buf s"
  "ss_status (upd_stream sd f s) = ss_status s" "ss_closing (upd_stream sd f s) = ss_closing s"
  "ss_id (upd_stream sd f s) = ss_id s" "ss_ts_init (upd_stream sd f s) = ss_ts_init s"
  "ss_ts_rtt (upd_stream sd f s) = ss_ts_rtt s"
  by (cases sd; simp)+

lemma stream_of_upd [simp]:
  "stream_of sd (upd_stream sd f s) = f (stream_of sd s)"
  "stream_of sd (upd_stream (other sd) f s) = stream_of sd s"
  "stream_of (other sd) (upd_stream sd f s) = stream_of (other sd) s"
  by (cases sd; simp)+

lemma stream_of_more [simp]:
  "stream_of sd (s\<lparr>ss_seg_map := mp\<rparr>) = stream_of sd s" "stream_of sd (s\<lparr>ss_buf := b\<rparr>) = stream_of sd s"
  "stream_of sd (s\<lparr>ss_status := t\<rparr>) = stream_of sd s"
  by (cases sd; simp)+

lemma trans_state_frame:
  "trans_state flags sd seq n tv s = (ns, s') \<Longrightarrow> ss_seg_map s' = ss_seg_map s \<and> ss_buf s' = ss_buf s \<and> ss_id s' = ss_id s"
  by (auto simp: trans_state_def split: status.splits if_splits)

text \<open>The two ends and the id of a session, which never change.\<close>

definition endpoints :: "'b session \<Rightarrow> (byte list \<times> 16 word) \<times> (byte list \<times> 16 word) \<times> 64 word" where
  "endpoints s = ((sm_addr (ss_client s), sm_port (ss_client s)), (sm_addr (ss_server s), sm_port (ss_server s)), ss_id s)"

lemma endpoints_more [simp]:
  "endpoints (s\<lparr>ss_seg_map := mp\<rparr>) = endpoints s" "endpoints (s\<lparr>ss_buf := b\<rparr>) = endpoints s"
  by (simp_all add: endpoints_def)

lemma endpoints_upd: "(\<And>st. sm_addr (f st) = sm_addr st \<and> sm_port (f st) = sm_port st) \<Longrightarrow> endpoints (upd_stream sd f s) = endpoints s"
  by (cases sd) (simp_all add: endpoints_def)

lemma endpoints_trans_state:
  assumes "trans_state flags sd seq n tv s = (ns, s')"
  shows "endpoints s' = endpoints s"
proof -
  have "endpoints (upd_stream sd f (s\<lparr>ss_status := x, ss_ts_init := t\<rparr>)) = endpoints s"
    "endpoints (upd_stream sd f (s\<lparr>ss_status := x\<rparr>)) = endpoints s"
    "endpoints (upd_stream sd f (s\<lparr>ss_status := x, ss_closing := c\<rparr>)) = endpoints s"
    if "\<And>st. sm_addr (f st) = sm_addr st \<and> sm_port (f st) = sm_port st" for f x t c
    using that by (simp_all add: endpoints_upd) (simp_all add: endpoints_def)
  then show ?thesis
    using assms
    by (auto simp: trans_state_def set_base_seq_def inc_seq_def split: status.splits if_splits) (simp_all add: endpoints_def)
qed

lemma endpoints_send:
  assumes "stream_send seq n (stream_of sd s) = (ok, st)"
  shows "endpoints (upd_stream sd (\<lambda>_. st) s) = endpoints s"
  using assms by (cases sd) (auto simp: stream_send_def endpoints_def Let_def split: if_splits)

lemma store_segment_endpoints: "endpoints (store_segment ops sd flags seq data s) = endpoints s"
  by (simp add: store_segment_def Let_def split: option.splits)

lemma store_segment_total: "seg_total (store_segment ops sd flags seq data s) \<le> Suc (seg_total s)"
  using total_insert by (auto simp: store_segment_def seg_total_def Let_def smap_find_def total_assign split: option.splits)

lemma run_chain_returns:
  assumes "\<And>seg s p. seg_total s < fuel \<Longrightarrow> property_ok D p \<Longrightarrow> pr_pkt p \<noteq> None \<Longrightarrow>
      \<exists>b s' p'. f seg s p = Some (Inr (b, s', p')) \<and> grew D m p p' \<and> seg_total s' \<le> Suc (seg_total s)
        \<and> endpoints s' = endpoints s"
    "seg_total s + length segs \<le> fuel" "property_ok D p" "pr_pkt p \<noteq> None"
  shows "\<exists>s' p'. run_chain f segs s p = Some (Inr (True, s', p')) \<and> grew D m p p'
    \<and> seg_total s' \<le> seg_total s + length segs \<and> endpoints s' = endpoints s"
  using assms(2-4)
proof (induction segs arbitrary: s p)
  case Nil
  then show ?case by (simp add: grew_refl)
next
  case (Cons seg segs)
  obtain b s1 p1 where 1: "f seg s p = Some (Inr (b, s1, p1))" "grew D m p p1" "seg_total s1 \<le> Suc (seg_total s)"
    "endpoints s1 = endpoints s"
    using assms(1) [of s p seg] Cons.prems by auto
  obtain s' p' where "run_chain f segs s1 p1 = Some (Inr (True, s', p'))" "grew D m p1 p'"
    "seg_total s' \<le> seg_total s1 + length segs" "endpoints s' = endpoints s1"
    using Cons.IH [of s1 p1] 1 Cons.prems grew_ok [OF 1(2)] by (auto simp: grew_def)
  then show ?case
    using 1 grew_trans [OF 1(2)] by auto
qed

lemma decode_stream_returns:
  assumes "params_ready D session_params this" "seg_total s < fuel" "property_ok D p" "pr_pkt p \<noteq> None" "seg_ptr \<noteq> OwnPtr"
  shows "\<exists>b s' p'. decode_stream fuel ops this ack win sd flags seq data seg_ptr s p = Some (Inr (b, s', p'))
    \<and> grew D m p p' \<and> seg_total s' \<le> Suc (seg_total s) \<and> endpoints s' = endpoints s"
  using assms(2-5)
proof (induction fuel arbitrary: flags seq data seg_ptr s p)
  case (Suc fuel)
  obtain ok st where send: "stream_send seq (length data) (stream_of sd s) = (ok, st)"
    by fastforce
  show ?case
  proof (cases ok)
    case False
    then show ?thesis
      using send store_segment_total [of ops sd flags seq data s] grew_refl [OF Suc.prems(2), of m]
        store_segment_endpoints [of ops sd flags seq data s] by auto
  next
    case True
    let ?s = "upd_stream (other sd) (stream_recv ack (ucast win)) (upd_stream sd (\<lambda>_. st) s)"
    obtain tv where tv: "property_tv p = Inr tv"
      using Suc.prems(3) by (auto simp: property_tv_def)
    obtain ns s1 where ts: "trans_state flags sd seq (length data) tv ?s = (ns, s1)"
      by fastforce
    have m1: "ss_seg_map s1 = ss_seg_map s" "endpoints s1 = endpoints s"
      using trans_state_frame [OF ts] endpoints_trans_state [OF ts] endpoints_send [OF send]
      by (simp_all add: endpoints_upd stream_recv_def)
    obtain p1 where p1: "state_events this ns s1 p = Inr p1" "grew D m p p1"
      using state_events_grew [OF assms(1) Suc.prems(2)] by metis
    obtain s2 p2 where p2: "deliver ops this data seg_ptr s1 p1 = Inr (s2, p2)" "grew D m p1 p2"
      "s2 = (case ss_buf s1 of None \<Rightarrow> s1 | Some b \<Rightarrow> s1\<lparr>ss_buf := Some (tb_append ops data b)\<rparr>)"
      using deliver_grew [OF assms(1) grew_ok [OF p1(2)] Suc.prems(4)] by metis
    note g = grew_trans [OF p1(2) p2(2)]
    have m2: "ss_seg_map s2 = ss_seg_map s" "endpoints s2 = endpoints s"
      using p2(3) m1 by (simp_all split: option.splits)
    show ?thesis
    proof (cases "smap_find (ss_seg_map s2) (sm_next_seq (stream_of sd s2))")
      case None
      then show ?thesis
        using send True tv ts p1 p2(1) g m2 by (auto simp: Let_def seg_total_def)
    next
      case (Some chain)
      let ?s3 = "if ss_buf s2 = None then s2\<lparr>ss_buf := Some (tb_append ops data (tb_new ops))\<rparr> else s2"
      let ?s4 = "?s3\<lparr>ss_seg_map := smap_erase (sm_next_seq (stream_of sd ?s3)) (ss_seg_map ?s3)\<rparr>"
      have "ss_seg_map ?s3 = ss_seg_map s" "stream_of sd ?s3 = stream_of sd s2"
        using m2 by simp_all
      then have tot: "seg_total ?s4 + length chain = seg_total s"
        using total_erase [of "ss_seg_map s" _ chain] Some m2 by (simp add: seg_total_def smap_find_def)
      have ne: "ss_seg_map s2 \<noteq> []"
        using Some by (auto simp: smap_find_def)
      have "\<exists>s' p'. run_chain (\<lambda>seg s p. decode_stream fuel ops this ack win sd (sg_flags seg) (sg_seq seg)
          (tb_bytes ops (sg_buf seg)) (BufPtr (tb_addr ops (sg_buf seg))) s p) chain ?s4 p2 = Some (Inr (True, s', p'))
        \<and> grew D m p2 p' \<and> seg_total s' \<le> seg_total ?s4 + length chain \<and> endpoints s' = endpoints ?s4"
        using Suc.IH Suc.prems(1,3) tot g
        by (intro run_chain_returns [where fuel = fuel]) (auto simp: grew_def intro: adds_wf)
      then show ?thesis
        using send True tv ts p1 p2(1) grew_trans [OF g] Some ne tot m2(2) by (auto simp: Let_def)
    qed
  qed
qed simp

lemma Session_decode_returns:
  assumes "params_ready D session_params this" "property_ok D p" "pr_pkt p \<noteq> None" "seg_ptr \<noteq> OwnPtr"
  shows "\<exists>s' p'. Session_decode ops this flags seq ack data seg_ptr win s p = Some (Inr (s', p')) \<and> grew D m p p'
    \<and> endpoints s' = endpoints s"
proof -
  let ?s = "s\<lparr>ss_buf := None\<rparr>" and ?sd = "if is_src ops p (ss_client s) then Client else Server"
  obtain b s1 p1 where 1: "decode_stream (Suc (seg_total ?s)) ops this ack win ?sd flags seq data seg_ptr ?s p
      = Some (Inr (b, s1, p1))" "grew D m p p1" "endpoints s1 = endpoints ?s"
    using decode_stream_returns [OF assms(1) lessI assms(2-4)] by metis
  let ?us = "[PCpy (mod_param this ''tx_server'') (store_le 4 (unat (ucast (sm_tx_size (ss_client s1)) :: 32 word))) LITTLE,
     PCpy (mod_param this ''tx_client'') (store_le 4 (unat (ucast (sm_tx_size (ss_server s1)) :: 32 word))) LITTLE]"
  obtain p2 where "property_puts ?us p1 = Inr p2" "grew D m p1 p2"
    using grew_puts [OF grew_ok [OF 1(2)], of ?us m] assms(1) by (auto simp: params_ready_def)
  then show ?thesis
    using 1 grew_trans [OF 1(2)] by (simp add: Session_decode_def Let_def del: decode_stream.simps store_le.simps)
qed

declare decode_stream.simps [simp del]

subsection \<open>Segments that are due\<close>

text \<open>Stored one by one from the relative sequence number \<open>n\<close> on: the segments with the data \<open>ds\<close>, and nothing after them.\<close>

fun waiting ::
  "'b buffer_ops \<Rightarrow> 32 word \<Rightarrow> (32 word \<Rightarrow> 'b segment list option) \<Rightarrow> 32 word \<Rightarrow> byte list list \<Rightarrow> bool" where
  "waiting ops base M n [] = (M n = None)"
| "waiting ops base M n (d # ds) =
     ((\<exists>seg. M n = Some [seg] \<and> tb_bytes ops (sg_buf seg) = d \<and> sg_seq seg = base + n \<and> sg_flags seg AND FIN = 0)
      \<and> waiting ops base (M(n := None)) (n + word_of_nat (length d)) ds)"

fun unwait :: "(32 word \<Rightarrow> 'v option) \<Rightarrow> 32 word \<Rightarrow> byte list list \<Rightarrow> 32 word \<Rightarrow> 'v option" where
  "unwait M n [] = M"
| "unwait M n (d # ds) = unwait (M(n := None)) (n + word_of_nat (length d)) ds"

text \<open>The last value of \<^verbatim>\<open>TCP.data\<close> that a call writes, after other values of the same parameter.\<close>

definition data_puts :: "(nat \<Rightarrow> string) \<Rightarrow> 'a pmodule_scheme \<Rightarrow> ptr \<Rightarrow> nat \<Rightarrow> 'b property \<Rightarrow> 'b property \<Rightarrow> bool" where
  "data_puts D this q n p p' \<longleftrightarrow>
     (\<exists>us. (\<forall>m. adds D m (us @ [PSet (mod_param this ''data'') q n BIG]) [] p p')
       \<and> (\<forall>u \<in> set us. put_def u = mod_param this ''data'') \<and> same_frame p p')"

lemma data_puts_one:
  assumes "params_ready D session_params this" "property_ok D p" "q \<noteq> OwnPtr"
  obtains p' where "property_puts [PSet (mod_param this ''data'') q n BIG] p = Inr p'" "data_puts D this q n p p'"
proof -
  let ?us = "[PSet (mod_param this ''data'') q n BIG]"
  have ok: "list_all (put_typed D) ?us"
    using assms by (simp add: params_ready_def)
  have "\<exists>p'. property_puts ?us p = Inr p' \<and> adds D m ?us [] p p' \<and> same_frame p p'" for m
    using returns_puts [OF assms(2) ok, of m "\<lambda>p'. adds D m ?us [] p p' \<and> same_frame p p'"] by (auto simp: returns_def)
  then obtain p' where "property_puts ?us p = Inr p'" "\<And>m. adds D m ?us [] p p'" "same_frame p p'"
    by (metis sum.inject(2))
  then have "data_puts D this q n p p'"
    unfolding data_puts_def by (intro exI [of _ "[]"]) simp
  then show ?thesis
    using that \<open>property_puts ?us p = Inr p'\<close> by blast
qed

lemma same_frame_trans: "same_frame p p1 \<Longrightarrow> same_frame p1 p2 \<Longrightarrow> same_frame p p2"
  by (simp add: same_frame_def)

lemma data_puts_trans:
  assumes "data_puts D this q n p p1" "data_puts D this q' n' p1 p2"
  shows "data_puts D this q' n' p p2"
proof -
  let ?P = "PSet (mod_param this ''data'')"
  obtain us vs where "\<And>m. adds D m (us @ [?P q n BIG]) [] p p1" "\<And>m. adds D m (vs @ [?P q' n' BIG]) [] p1 p2"
    "\<forall>u \<in> set us. put_def u = mod_param this ''data''" "\<forall>u \<in> set vs. put_def u = mod_param this ''data''"
    "same_frame p p1" "same_frame p1 p2"
    using assms by (auto simp: data_puts_def)
  then show ?thesis
    unfolding data_puts_def
    by (intro exI [of _ "(us @ [?P q n BIG]) @ vs"])
      (auto intro: adds_puts [of D _ "us @ [?P q n BIG]" "[]", simplified] same_frame_trans)
qed

text \<open>What a due segment and the stored ones behind it become.\<close>

definition buf_after :: "'b buffer_ops \<Rightarrow> 'b option \<Rightarrow> byte list \<Rightarrow> byte list list \<Rightarrow> 'b option \<Rightarrow> bool" where
  "buf_after ops b0 data ds b1 \<longleftrightarrow>
     (if b0 = None \<and> ds = [] then b1 = None
      else \<exists>b. b1 = Some b \<and>
        tb_bytes ops b = (case b0 of None \<Rightarrow> [] | Some c \<Rightarrow> tb_bytes ops c) @ data @ concat ds)"

definition shows_data :: "'b buffer_ops \<Rightarrow> (nat \<Rightarrow> string) \<Rightarrow> 'a pmodule_scheme \<Rightarrow> ptr \<Rightarrow> byte list \<Rightarrow> 'b option
    \<Rightarrow> 'b property \<Rightarrow> 'b property \<Rightarrow> bool" where
  "shows_data ops D this seg_ptr data b p p' \<longleftrightarrow>
     (case b of
        None \<Rightarrow> data_puts D this seg_ptr (length data) p p'
      | Some b \<Rightarrow> data_puts D this (BufPtr (tb_addr ops b)) (length (tb_bytes ops b)) p p')"

lemma deliver_shows:
  assumes "params_ready D session_params this" "property_ok D p" "seg_ptr \<noteq> OwnPtr" "buffer_laws ops"
  obtains s' p' where "deliver ops this data seg_ptr s p = Inr (s', p')" "s' = s\<lparr>ss_buf := ss_buf s'\<rparr>"
    "buf_after ops (ss_buf s) data [] (ss_buf s')" "shows_data ops D this seg_ptr data (ss_buf s') p p'"
proof (cases "ss_buf s")
  case None
  obtain p' where "property_puts [PSet (mod_param this ''data'') seg_ptr (length data) BIG] p = Inr p'"
    "data_puts D this seg_ptr (length data) p p'"
    using data_puts_one [OF assms(1-3)] .
  with None that show ?thesis
    by (auto simp: deliver_def buf_after_def shows_data_def)
next
  case (Some b)
  let ?b = "tb_append ops data b"
  obtain p' where "property_puts [PSet (mod_param this ''data'') (BufPtr (tb_addr ops ?b)) (length (tb_bytes ops ?b)) BIG] p = Inr p'"
    "data_puts D this (BufPtr (tb_addr ops ?b)) (length (tb_bytes ops ?b)) p p'"
    using data_puts_one [OF assms(1,2), of "BufPtr (tb_addr ops ?b)"] by blast
  with Some that [of "s\<lparr>ss_buf := Some ?b\<rparr>" p'] assms(4) show ?thesis
    by (auto simp: deliver_def buf_after_def shows_data_def buffer_laws_def)
qed

definition flowing :: "side \<Rightarrow> 'b session \<Rightarrow> bool" where
  "flowing sd s \<longleftrightarrow> ss_status s = ESTABLISHED \<and> sm_has_base (stream_of sd s) \<and> smap_wf (ss_seg_map s)"

lemma flowing_frame [simp]:
  "flowing sd (s\<lparr>ss_buf := b\<rparr>) = flowing sd s"
  "flowing sd (upd_stream (other sd) f s) = flowing sd s"
  by (simp_all add: flowing_def)

lemma if_find:
  "(if m = [] then x else (case smap_find m k of None \<Rightarrow> x | Some c \<Rightarrow> g c)) = (case smap_find m k of None \<Rightarrow> x | Some c \<Rightarrow> g c)"
  by (simp add: smap_find_def)

text \<open>A data segment in an established session that is due: the state machine does not move.\<close>

lemma decode_stream_due:
  assumes "flowing sd s" "seq = sm_base_seq (stream_of sd s) + sm_next_seq (stream_of sd s)" "flags AND FIN = 0"
    "property_tv p = Inr tv"
    "s1 = upd_stream (other sd) (stream_recv ack (ucast win))
            (upd_stream sd (\<lambda>st. st\<lparr>sm_next_seq := sm_next_seq st + word_of_nat (length data)\<rparr>) s)"
  shows "decode_stream (Suc fuel) ops this ack win sd flags seq data seg_ptr s p =
    bind_opt (Some (deliver ops this data seg_ptr s1 p)) (\<lambda>(s, p).
      case smap_find (ss_seg_map s) (sm_next_seq (stream_of sd s)) of
        None \<Rightarrow> Some (Inr (True, s, p))
      | Some chain \<Rightarrow>
          let s = (if ss_buf s = None then s\<lparr>ss_buf := Some (tb_append ops data (tb_new ops))\<rparr> else s);
              s = s\<lparr>ss_seg_map := smap_erase (sm_next_seq (stream_of sd s)) (ss_seg_map s)\<rparr>
          in run_chain
               (\<lambda>seg s p. decode_stream fuel ops this ack win sd (sg_flags seg) (sg_seq seg)
                  (tb_bytes ops (sg_buf seg)) (BufPtr (tb_addr ops (sg_buf seg))) s p) chain s p)"
proof -
  let ?st = "stream_of sd s"
  have send: "stream_send seq (length data) ?st = (True, ?st\<lparr>sm_next_seq := sm_next_seq ?st + word_of_nat (length data)\<rparr>)"
    using assms(1,2) by (simp add: stream_send_def flowing_def Let_def)
  have s1: "upd_stream (other sd) (stream_recv ack (ucast win))
      (upd_stream sd (\<lambda>_. ?st\<lparr>sm_next_seq := sm_next_seq ?st + word_of_nat (length data)\<rparr>) s) = s1"
    unfolding assms(5) by (cases sd) simp_all
  have "ss_status s1 = ESTABLISHED"
    using assms(1,5) by (simp add: flowing_def)
  then have "trans_state flags sd seq (length data) tv s1 = (NONE, s1)"
    using assms(3) by (simp add: trans_state_def)
  then show ?thesis
    using assms(4) by (simp add: decode_stream.simps send s1 state_events_def if_find)
qed

lemma decode_due:
  assumes "params_ready D session_params this" "buffer_laws ops"
    "flowing sd s" "seq = sm_base_seq (stream_of sd s) + sm_next_seq (stream_of sd s)" "flags AND FIN = 0"
    "property_ok D p" "pr_pkt p \<noteq> None" "seg_ptr \<noteq> OwnPtr" "length ds < fuel"
    "waiting ops (sm_base_seq (stream_of sd s)) (smap_find (ss_seg_map s))
       (sm_next_seq (stream_of sd s) + word_of_nat (length data)) ds"
  shows "\<exists>s' p'. decode_stream fuel ops this ack win sd flags seq data seg_ptr s p = Some (Inr (True, s', p'))
    \<and> flowing sd s'
    \<and> stream_of sd s' = (stream_of sd s)\<lparr>sm_next_seq :=
        sm_next_seq (stream_of sd s) + word_of_nat (length data) + word_of_nat (length (concat ds))\<rparr>
    \<and> smap_find (ss_seg_map s') = unwait (smap_find (ss_seg_map s)) (sm_next_seq (stream_of sd s) + word_of_nat (length data)) ds
    \<and> buf_after ops (ss_buf s) data ds (ss_buf s')
    \<and> shows_data ops D this seg_ptr data (ss_buf s') p p' \<and> property_ok D p'"
  using assms(3-10)
proof (induction ds arbitrary: s p seq flags data seg_ptr fuel)
  case Nil
  then obtain fuel' where fuel: "fuel = Suc fuel'"
    by (cases fuel) auto
  obtain tv where tv: "property_tv p = Inr tv"
    using Nil.prems(5) by (auto simp: property_tv_def)
  let ?st = "stream_of sd s"
  define s1 where "s1 = upd_stream (other sd) (stream_recv ack (ucast win))
    (upd_stream sd (\<lambda>st. st\<lparr>sm_next_seq := sm_next_seq st + word_of_nat (length data)\<rparr>) s)"
  have s1: "stream_of sd s1 = ?st\<lparr>sm_next_seq := sm_next_seq ?st + word_of_nat (length data)\<rparr>" "ss_buf s1 = ss_buf s"
    "ss_seg_map s1 = ss_seg_map s" "flowing sd s1"
    using Nil.prems(1) unfolding s1_def flowing_def by simp_all
  obtain s2 p2 where 2: "deliver ops this data seg_ptr s1 p = Inr (s2, p2)" "s2 = s1\<lparr>ss_buf := ss_buf s2\<rparr>"
    "buf_after ops (ss_buf s) data [] (ss_buf s2)" "shows_data ops D this seg_ptr data (ss_buf s2) p p2"
    using deliver_shows [OF assms(1) Nil.prems(4,6) assms(2), of data s1] s1(2) by auto
  have s2: "stream_of sd s2 = stream_of sd s1" "ss_seg_map s2 = ss_seg_map s1" "flowing sd s2"
    using s1(4) by (subst 2(2), simp)+
  have "property_ok D p2"
    using 2(4) by (auto simp: shows_data_def data_puts_def intro: adds_wf split: option.splits)
  then show ?case
    using Nil.prems(8) 2 s1 s2 by (simp add: fuel decode_stream_due [OF Nil.prems(1-3) tv s1_def])
next
  case (Cons d ds)
  then obtain fuel' where fuel: "fuel = Suc fuel'"
    by (cases fuel) auto
  obtain tv where tv: "property_tv p = Inr tv"
    using Cons.prems(5) by (auto simp: property_tv_def)
  let ?st = "stream_of sd s"
  let ?n = "sm_next_seq ?st + word_of_nat (length data)"
  define s1 where "s1 = upd_stream (other sd) (stream_recv ack (ucast win))
    (upd_stream sd (\<lambda>st. st\<lparr>sm_next_seq := sm_next_seq st + word_of_nat (length data)\<rparr>) s)"
  have s1: "stream_of sd s1 = ?st\<lparr>sm_next_seq := ?n\<rparr>" "ss_buf s1 = ss_buf s"
    "ss_seg_map s1 = ss_seg_map s" "flowing sd s1"
    using Cons.prems(1) unfolding s1_def flowing_def by simp_all
  obtain s2 p2 where 2: "deliver ops this data seg_ptr s1 p = Inr (s2, p2)" "s2 = s1\<lparr>ss_buf := ss_buf s2\<rparr>"
    "buf_after ops (ss_buf s) data [] (ss_buf s2)" "shows_data ops D this seg_ptr data (ss_buf s2) p p2"
    using deliver_shows [OF assms(1) Cons.prems(4,6) assms(2), of data s1] s1(2) by auto
  have s2: "stream_of sd s2 = stream_of sd s1" "ss_seg_map s2 = ss_seg_map s1" "flowing sd s2"
    using s1(4) by (subst 2(2), simp)+
  have p2: "property_ok D p2" "pr_pkt p2 \<noteq> None"
    using 2(4) Cons.prems(5)
    by (auto simp: shows_data_def data_puts_def same_frame_def intro: adds_wf split: option.splits)
  obtain seg where seg: "smap_find (ss_seg_map s) ?n = Some [seg]" "tb_bytes ops (sg_buf seg) = d"
    "sg_seq seg = sm_base_seq ?st + ?n" "sg_flags seg AND FIN = 0"
    "waiting ops (sm_base_seq ?st) ((smap_find (ss_seg_map s))(?n := None)) (?n + word_of_nat (length d)) ds"
    using Cons.prems(8) by auto
  define s3 where "s3 = (if ss_buf s2 = None then s2\<lparr>ss_buf := Some (tb_append ops data (tb_new ops))\<rparr> else s2)"
  define s4 where "s4 = s3\<lparr>ss_seg_map := smap_erase (sm_next_seq (stream_of sd s3)) (ss_seg_map s3)\<rparr>"
  have s4: "stream_of sd s4 = ?st\<lparr>sm_next_seq := ?n\<rparr>" "flowing sd s4"
    "smap_find (ss_seg_map s4) = (smap_find (ss_seg_map s))(?n := None)"
    using s1 s2 unfolding s4_def s3_def
    by (auto simp: flowing_def sm.wf_erase sm.find_erase fun_eq_iff)
  have buf: "buf_after ops (ss_buf s4) d ds b1 \<Longrightarrow> buf_after ops (ss_buf s) data (d # ds) b1" "ss_buf s4 \<noteq> None" for b1
    using 2(3) assms(2) unfolding s4_def s3_def
    by (auto simp: buf_after_def buffer_laws_def split: if_splits option.splits)
  have pd: "data_puts D this q n p p'"
    if "shows_data ops D this q0 d b1 p2 p'" "b1 = Some b" "q = BufPtr (tb_addr ops b)" "n = length (tb_bytes ops b)"
    for q0 b b1 q n p'
    using that 2(4) data_puts_trans by (fastforce simp: shows_data_def split: option.splits)
  have "\<exists>s' p'. decode_stream fuel' ops this ack win sd (sg_flags seg) (sg_seq seg) d (BufPtr (tb_addr ops (sg_buf seg))) s4 p2
      = Some (Inr (True, s', p')) \<and> flowing sd s'
    \<and> stream_of sd s' = (stream_of sd s4)\<lparr>sm_next_seq :=
        sm_next_seq (stream_of sd s4) + word_of_nat (length d) + word_of_nat (length (concat ds))\<rparr>
    \<and> smap_find (ss_seg_map s') = unwait (smap_find (ss_seg_map s4)) (sm_next_seq (stream_of sd s4) + word_of_nat (length d)) ds
    \<and> buf_after ops (ss_buf s4) d ds (ss_buf s')
    \<and> shows_data ops D this (BufPtr (tb_addr ops (sg_buf seg))) d (ss_buf s') p2 p' \<and> property_ok D p'"
    using Cons.prems(7) p2 s4(2) fuel seg(3-5) unfolding s4(1,3) [symmetric]
    by (intro Cons.IH) (simp_all add: s4(1,3) fun_upd_def)
  then obtain s' p' where r: "decode_stream fuel' ops this ack win sd (sg_flags seg) (sg_seq seg) d
        (BufPtr (tb_addr ops (sg_buf seg))) s4 p2 = Some (Inr (True, s', p'))" "flowing sd s'"
    "stream_of sd s' = ?st\<lparr>sm_next_seq := ?n + word_of_nat (length d) + word_of_nat (length (concat ds))\<rparr>"
    "smap_find (ss_seg_map s') = unwait ((smap_find (ss_seg_map s))(?n := None)) (?n + word_of_nat (length d)) ds"
    "buf_after ops (ss_buf s) data (d # ds) (ss_buf s')"
    "shows_data ops D this (BufPtr (tb_addr ops (sg_buf seg))) d (ss_buf s') p2 p'" "property_ok D p'"
    using s4 buf(1) by auto
  obtain b' where b': "ss_buf s' = Some b'"
    using r(5) by (auto simp: buf_after_def)
  have "decode_stream fuel ops this ack win sd flags seq data seg_ptr s p = Some (Inr (True, s', p'))"
    using 2(1) s1 s2 seg(1,2) r(1)
    by (simp add: fuel decode_stream_due [OF Cons.prems(1-3) tv s1_def] Let_def flip: s3_def) (simp add: s4_def)
  moreover have "shows_data ops D this seg_ptr data (ss_buf s') p p'"
    using pd [OF r(6) b' refl refl] b' by (simp add: shows_data_def)
  ultimately show ?case
    using r by (simp add: add.assoc)
qed

end
