(* ===== verification/PM_Reassembly.thy ===== *)
theory PM_Reassembly
  imports PM_Session
begin

text \<open>
  What \<^verbatim>\<open>TCP::Session\<close> does over several packets: the data segments of one direction of an established session, arriving in
  any order, come out as the original byte stream; the set-up and tear-down run through the states in order.
\<close>

subsection \<open>Feeding a session\<close>

text \<open>An arriving data segment: the header fields, where the data lies, and the property of its packet.\<close>

record 'b arrival =
  ar_flags :: byte
  ar_ack :: "32 word"
  ar_win :: "16 word"
  ar_ptr :: ptr
  ar_mem :: mem
  ar_prop :: "'b property"

text \<open>The memory after the packet, in which the reassembly buffer lies at its address, and the last value of a parameter.\<close>

definition buf_mem :: "'b buffer_ops \<Rightarrow> mem \<Rightarrow> 'b session \<Rightarrow> mem" where
  "buf_mem ops m s =
     (case ss_buf s of None \<Rightarrow> m | Some b \<Rightarrow> m\<lparr>m_buf := (m_buf m)(tb_addr ops b \<mapsto> tb_bytes ops b)\<rparr>)"

definition last_value :: "mem \<Rightarrow> nat \<Rightarrow> 'b property \<Rightarrow> byte list" where
  "last_value m pid p =
     (if view m p pid = [] then [] else (case last (view m p pid) of None \<Rightarrow> [] | Some (bs, _) \<Rightarrow> bs))"

fun feed ::
  "'b buffer_ops \<Rightarrow> 'a pmodule_scheme \<Rightarrow> (32 word \<times> byte list \<times> 'b arrival) list \<Rightarrow> 'b session
     \<Rightarrow> ('b session \<times> byte list list) res option" where
  "feed ops this [] s = Some (Inr (s, []))"
| "feed ops this ((seq, data, a) # as) s =
     bind_opt (Session_decode ops this (ar_flags a) seq (ar_ack a) data (ar_ptr a) (ar_win a) s (ar_prop a)) (\<lambda>(s, p).
     bind_opt (feed ops this as s) (\<lambda>(s', outs).
       Some (Inr (s', last_value (buf_mem ops (ar_mem a) s) (pid_of this ''data'') p # outs))))"

text \<open>A segment of direction \<open>sd\<close> with data \<open>data\<close>: no FIN, the data lies in the packet, the property is that of a new packet
  whose source is the client exactly when the direction is the client's.\<close>

definition arrival_ok :: "'b buffer_ops \<Rightarrow> (nat \<Rightarrow> string) \<Rightarrow> 'a pmodule_scheme \<Rightarrow> side \<Rightarrow> stream \<Rightarrow> byte list \<Rightarrow> 'b arrival \<Rightarrow> bool" where
  "arrival_ok ops D this sd client data a \<longleftrightarrow>
     ar_flags a AND FIN = 0 \<and> (\<exists>off. ar_ptr a = PktPtr off \<and> bslice_opt off (length data) (m_pkt (ar_mem a)) = Some data)
     \<and> property_ok D (ar_prop a) \<and> pr_pkt (ar_prop a) \<noteq> None \<and> live (ar_prop a) (pid_of this ''data'') = []
     \<and> (is_src ops (ar_prop a) client \<longleftrightarrow> sd = Client)"

lemma is_src_endpoints: "endpoints s' = endpoints s \<Longrightarrow> is_src ops p (ss_client s') = is_src ops p (ss_client s)"
  by (simp add: is_src_def stream_match_def endpoints_def)

lemma arrival_ok_endpoints:
  "endpoints s' = endpoints s \<Longrightarrow> arrival_ok ops D this sd (ss_client s') data a = arrival_ok ops D this sd (ss_client s) data a"
  by (simp only: arrival_ok_def is_src_endpoints [of s' s])

abbreviation tcp_params :: "string list" where
  "tcp_params \<equiv> [''src_port'', ''dst_port'', ''id'', ''hdr'', ''optdata'', ''segment'', ''data'', ''rtt_3wh'', ''tx_server'', ''tx_client'']"

subsection \<open>One arrival\<close>

lemma last_value_data_puts:
  assumes "data_puts D this q n p p'" "live p (pid_of this ''data'') = []" "mem_read m [] q n = Some bs"
  shows "last_value m (pid_of this ''data'') p' = bs"
proof -
  obtain us where "adds D m (us @ [PSet (mod_param this ''data'') q n BIG]) [] p p'"
    using assms(1) by (auto simp: data_puts_def)
  then have "view m p' (pid_of this ''data'') = emitted m us (pid_of this ''data'') @ [Some (bs, BIG)]"
    using assms(2,3) by (simp add: adds_def emitted_append) (simp add: emitted_def pid_of_def view_def)
  then show ?thesis
    by (simp add: last_value_def)
qed

text \<open>The two values that end \<^verbatim>\<open>Session::decode\<close> leave the data alone.\<close>

lemma tx_puts:
  assumes "mod_ready D tcp_params this" "property_ok D p"
  obtains p' where "property_puts [PCpy (mod_param this ''tx_server'') x LITTLE, PCpy (mod_param this ''tx_client'') y LITTLE] p = Inr p'"
    "\<And>m. view m p' (pid_of this ''data'') = view m p (pid_of this ''data'')"
proof -
  let ?us = "[PCpy (mod_param this ''tx_server'') x LITTLE, PCpy (mod_param this ''tx_client'') y LITTLE]"
  have ok: "list_all (put_typed D) ?us"
    using assms(1) by (simp add: mod_ready_def)
  have em: "emitted m ?us (pid_of this ''data'') = []" for m
    by (simp add: emitted_def pid_of_eq_iff [OF assms(1)])
  have ex: "\<exists>p'. property_puts ?us p = Inr p' \<and> adds D m ?us [] p p'" for m
    using returns_puts [OF assms(2) ok, of m "\<lambda>p'. adds D m ?us [] p p'"] by (auto simp: returns_def)
  then obtain p' where p': "property_puts ?us p = Inr p'"
    by blast
  have "adds D m ?us [] p p'" for m
    using ex [of m] p' by simp
  then show ?thesis
    using that [OF p'] em by (simp add: adds_def)
qed

lemma last_value_cong: "view m p' pid = view m p pid \<Longrightarrow> last_value m pid p' = last_value m pid p"
  by (simp add: last_value_def)

lemma Session_decode_due:
  assumes "mod_ready D tcp_params this" "buffer_laws ops" "flowing sd s" "arrival_ok ops D this sd (ss_client s) data a"
    "seq = sm_base_seq (stream_of sd s) + sm_next_seq (stream_of sd s)" "length ds \<le> seg_total s"
    "waiting ops (sm_base_seq (stream_of sd s)) (smap_find (ss_seg_map s))
       (sm_next_seq (stream_of sd s) + word_of_nat (length data)) ds"
  shows "\<exists>s' p'. Session_decode ops this (ar_flags a) seq (ar_ack a) data (ar_ptr a) (ar_win a) s (ar_prop a) = Some (Inr (s', p'))
    \<and> flowing sd s' \<and> endpoints s' = endpoints s
    \<and> stream_of sd s' = (stream_of sd s)\<lparr>sm_next_seq :=
        sm_next_seq (stream_of sd s) + word_of_nat (length data) + word_of_nat (length (concat ds))\<rparr>
    \<and> smap_find (ss_seg_map s') = unwait (smap_find (ss_seg_map s)) (sm_next_seq (stream_of sd s) + word_of_nat (length data)) ds
    \<and> last_value (buf_mem ops (ar_mem a) s') (pid_of this ''data'') p' = data @ concat ds"
proof -
  let ?s = "s\<lparr>ss_buf := None\<rparr>" and ?p = "ar_prop a"
  have pr: "params_ready D session_params this"
    by (rule mod_ready_params [OF assms(1)]) simp
  obtain off where a: "ar_flags a AND FIN = 0" "ar_ptr a = PktPtr off"
      "bslice_opt off (length data) (m_pkt (ar_mem a)) = Some data"
      "property_ok D ?p" "pr_pkt ?p \<noteq> None" "live ?p (pid_of this ''data'') = []" "is_src ops ?p (ss_client s) \<longleftrightarrow> sd = Client"
    using assms(4) unfolding arrival_ok_def by blast
  have sd: "(if is_src ops ?p (ss_client ?s) then Client else Server) = sd"
    using a(7) by (cases sd) simp_all
  have tot: "seg_total ?s = seg_total s"
    by (simp add: seg_total_def)
  let ?call = "decode_stream (Suc (seg_total s)) ops this (ar_ack a) (ar_win a) sd (ar_flags a) seq data (ar_ptr a) ?s ?p"
  have "\<exists>s' p'. ?call = Some (Inr (True, s', p')) \<and> flowing sd s'
    \<and> stream_of sd s' = (stream_of sd ?s)\<lparr>sm_next_seq :=
        sm_next_seq (stream_of sd ?s) + word_of_nat (length data) + word_of_nat (length (concat ds))\<rparr>
    \<and> smap_find (ss_seg_map s') = unwait (smap_find (ss_seg_map ?s)) (sm_next_seq (stream_of sd ?s) + word_of_nat (length data)) ds
    \<and> buf_after ops (ss_buf ?s) data ds (ss_buf s')
    \<and> shows_data ops D this (ar_ptr a) data (ss_buf s') ?p p' \<and> property_ok D p'"
    using assms(3,5-7) a by (intro decode_due [OF pr assms(2)]) simp_all
  then obtain s' p' where r: "?call = Some (Inr (True, s', p'))" "flowing sd s'"
    "stream_of sd s' = (stream_of sd s)\<lparr>sm_next_seq :=
        sm_next_seq (stream_of sd s) + word_of_nat (length data) + word_of_nat (length (concat ds))\<rparr>"
    "smap_find (ss_seg_map s') = unwait (smap_find (ss_seg_map s)) (sm_next_seq (stream_of sd s) + word_of_nat (length data)) ds"
    "buf_after ops None data ds (ss_buf s')" "shows_data ops D this (ar_ptr a) data (ss_buf s') ?p p'" "property_ok D p'"
    by auto
  have "endpoints s' = endpoints ?s"
    using decode_stream_returns [OF pr lessI [of "seg_total ?s"] a(4,5), of "ar_ptr a" ops "ar_ack a" "ar_win a" sd
        "ar_flags a" seq data] a(2) r(1) by (auto simp: tot)
  moreover obtain p2 where p2: "property_puts
      [PCpy (mod_param this ''tx_server'') (store_le 4 (unat (ucast (sm_tx_size (ss_client s')) :: 32 word))) LITTLE,
       PCpy (mod_param this ''tx_client'') (store_le 4 (unat (ucast (sm_tx_size (ss_server s')) :: 32 word))) LITTLE] p' = Inr p2"
    "\<And>m. view m p2 (pid_of this ''data'') = view m p' (pid_of this ''data'')"
    using tx_puts [OF assms(1) r(7)] by blast
  moreover have "last_value (buf_mem ops (ar_mem a) s') (pid_of this ''data'') p' = data @ concat ds"
  proof (cases "ss_buf s'")
    case None
    then have "ds = []" "data_puts D this (PktPtr off) (length data) ?p p'"
      using r(5,6) a(2) by (auto simp: buf_after_def shows_data_def split: if_splits)
    then show ?thesis
      using last_value_data_puts [OF _ a(6)] a(3) None by (simp add: buf_mem_def)
  next
    case (Some b)
    then have "tb_bytes ops b = data @ concat ds" "data_puts D this (BufPtr (tb_addr ops b)) (length (tb_bytes ops b)) ?p p'"
      using r(5,6) by (auto simp: buf_after_def shows_data_def split: if_splits)
    moreover from this have "mem_read (buf_mem ops (ar_mem a) s') [] (BufPtr (tb_addr ops b)) (length (tb_bytes ops b))
        = Some (data @ concat ds)"
      using Some by (simp add: buf_mem_def bslice_def)
    ultimately show ?thesis
      by (intro last_value_data_puts [OF _ a(6)])
  qed
  ultimately show ?thesis
    using r last_value_cong [OF p2(2)]
    by (simp add: Session_decode_def Let_def sd [simplified] tot del: store_le.simps)
qed

lemma Session_decode_early:
  assumes "mod_ready D tcp_params this" "flowing sd s" "arrival_ok ops D this sd (ss_client s) data a"
    "seq \<noteq> sm_base_seq (stream_of sd s) + sm_next_seq (stream_of sd s)"
    "smap_find (ss_seg_map s) (seq - sm_base_seq (stream_of sd s)) = None"
  shows "\<exists>s' p'. Session_decode ops this (ar_flags a) seq (ar_ack a) data (ar_ptr a) (ar_win a) s (ar_prop a) = Some (Inr (s', p'))
    \<and> flowing sd s' \<and> endpoints s' = endpoints s \<and> stream_of sd s' = stream_of sd s
    \<and> smap_find (ss_seg_map s') = (smap_find (ss_seg_map s))(seq - sm_base_seq (stream_of sd s) \<mapsto>
        [\<lparr>sg_buf = tb_make ops data, sg_seq = seq, sg_flags = ar_flags a\<rparr>])
    \<and> last_value (buf_mem ops (ar_mem a) s') (pid_of this ''data'') p' = []"
proof -
  let ?s = "s\<lparr>ss_buf := None\<rparr>" and ?p = "ar_prop a"
  have sd: "(if is_src ops ?p (ss_client s) then Client else Server) = sd"
    using assms(3) by (cases sd) (simp_all add: arrival_ok_def)
  have ok: "property_ok D ?p" "\<And>m. view m ?p (pid_of this ''data'') = []"
    using assms(3) by (simp_all add: arrival_ok_def view_def)
  let ?s' = "store_segment ops sd (ar_flags a) seq data ?s"
  have ne: "sm_next_seq (stream_of sd s) \<noteq> seq - sm_base_seq (stream_of sd s)"
    using assms(4) by (metis add.commute diff_add_cancel)
  have send: "stream_send seq (length data) (stream_of sd s) = (False, stream_of sd s)"
    using assms(2) ne by (simp add: stream_send_def flowing_def Let_def)
  have map: "smap_find (ss_seg_map ?s') = (smap_find (ss_seg_map s))(seq - sm_base_seq (stream_of sd s) \<mapsto>
        [\<lparr>sg_buf = tb_make ops data, sg_seq = seq, sg_flags = ar_flags a\<rparr>])" "flowing sd ?s'"
    "stream_of sd ?s' = stream_of sd s" "ss_buf ?s' = None"
    using assms(2,5)
    by (simp_all add: store_segment_def in_window_def to_rel_seq_def Let_def flowing_def sm.find_insert sm.wf_insert fun_eq_iff)
  obtain p2 where "property_puts
      [PCpy (mod_param this ''tx_server'') (store_le 4 (unat (ucast (sm_tx_size (ss_client ?s')) :: 32 word))) LITTLE,
       PCpy (mod_param this ''tx_client'') (store_le 4 (unat (ucast (sm_tx_size (ss_server ?s')) :: 32 word))) LITTLE] ?p = Inr p2"
    "\<And>m. view m p2 (pid_of this ''data'') = view m ?p (pid_of this ''data'')"
    using tx_puts [OF assms(1) ok(1)] by blast
  moreover from this have "last_value m (pid_of this ''data'') p2 = []" for m
    using ok(2) by (simp add: last_value_def)
  ultimately show ?thesis
    using map store_segment_endpoints [of ops sd "ar_flags a" seq data ?s]
    by (simp add: Session_decode_def Let_def sd decode_stream.simps send del: store_le.simps)
qed

subsection \<open>Segments in any order\<close>

text \<open>Relative sequence number of segment \<open>i\<close> of a stream that was cut into \<open>ds\<close>, the first one at \<open>n0\<close>.\<close>

definition seg_off :: "byte list list \<Rightarrow> 32 word \<Rightarrow> nat \<Rightarrow> 32 word" where
  "seg_off ds n0 i = n0 + word_of_nat (length (concat (take i ds)))"

definition cut_ok :: "byte list list \<Rightarrow> bool" where
  "cut_ok ds \<longleftrightarrow> [] \<notin> set ds \<and> length (concat ds) < 2 ^ 32"

lemma seg_off_Suc: "i < length ds \<Longrightarrow> seg_off ds n0 (Suc i) = seg_off ds n0 i + word_of_nat (length (ds ! i))"
  by (simp add: seg_off_def take_Suc_conv_app_nth)

lemma length_concat_take_less:
  assumes "[] \<notin> set ds" "i < j" "j \<le> length ds"
  shows "length (concat (take i ds)) < length (concat (take j ds))"
proof -
  have "take j ds = take i ds @ take (j - i) (drop i ds)"
    using assms(2) by (metis add_diff_inverse_nat less_not_sym nat_less_le take_add)
  moreover have "concat (take (j - i) (drop i ds)) \<noteq> []"
  proof -
    have "ds ! i \<in> set (take (j - i) (drop i ds))"
      using assms(2,3) by (auto simp: in_set_conv_nth intro!: exI [of _ 0])
    moreover have "ds ! i \<noteq> []"
      using assms nth_mem [of i ds] by fastforce
    ultimately show ?thesis by auto
  qed
  ultimately show ?thesis by simp
qed

lemma seg_off_inj:
  assumes "cut_ok ds" "i \<le> length ds" "j \<le> length ds" "seg_off ds n0 i = seg_off ds n0 j"
  shows "i = j"
proof -
  let ?L = "\<lambda>i. length (concat (take i ds))"
  have less: "?L l < 2 ^ 32" if "l \<le> length ds" for l
  proof -
    have "?L l \<le> length (concat ds)"
      by (metis append_take_drop_id concat_append le_add1 length_append)
    then show ?thesis using assms(1) by (simp add: cut_ok_def)
  qed
  have "(word_of_nat (?L i) :: 32 word) = word_of_nat (?L j)"
    using assms(4) by (simp add: seg_off_def)
  then have "unat (word_of_nat (?L i) :: 32 word) = unat (word_of_nat (?L j) :: 32 word)"
    by simp
  then have "?L i = ?L j"
    using less [OF assms(2)] less [OF assms(3)] by (simp add: unat_of_nat)
  then show ?thesis
    using length_concat_take_less [of ds i j] length_concat_take_less [of ds j i] assms(1-3)
    by (metis cut_ok_def linorder_neq_iff)
qed

text \<open>The map of stored segments when those of \<open>S\<close> are stored.\<close>

definition stored_map :: "byte list list \<Rightarrow> 32 word \<Rightarrow> (32 word \<Rightarrow> 'b segment) \<Rightarrow> nat set \<Rightarrow> 32 word \<Rightarrow> 'b segment list option" where
  "stored_map ds n0 g S w = (if w \<in> seg_off ds n0 ` S then Some [g w] else None)"

definition stored_ok :: "'b buffer_ops \<Rightarrow> 32 word \<Rightarrow> byte list list \<Rightarrow> 32 word \<Rightarrow> (32 word \<Rightarrow> 'b segment) \<Rightarrow> nat set \<Rightarrow> bool" where
  "stored_ok ops base ds n0 g S \<longleftrightarrow>
     (\<forall>l \<in> S. tb_bytes ops (sg_buf (g (seg_off ds n0 l))) = ds ! l \<and> sg_seq (g (seg_off ds n0 l)) = base + seg_off ds n0 l
        \<and> sg_flags (g (seg_off ds n0 l)) AND FIN = 0)"

lemma stored_map_remove:
  assumes "cut_ok ds" "S \<subseteq> {..<length ds}" "j < length ds"
  shows "(stored_map ds n0 g S)(seg_off ds n0 j := None) = stored_map ds n0 g (S - {j})"
proof
  fix w
  have "w \<in> seg_off ds n0 ` (S - {j}) \<longleftrightarrow> w \<in> seg_off ds n0 ` S \<and> w \<noteq> seg_off ds n0 j"
    using seg_off_inj [OF assms(1), of _ j n0] assms(2,3) by fastforce
  then show "((stored_map ds n0 g S)(seg_off ds n0 j := None)) w = stored_map ds n0 g (S - {j}) w"
    by (auto simp: stored_map_def)
qed

lemma stored_map_None:
  assumes "cut_ok ds" "S \<subseteq> {..<length ds}" "j \<le> length ds" "j \<notin> S"
  shows "stored_map ds n0 g S (seg_off ds n0 j) = None"
proof -
  have "l \<noteq> j \<Longrightarrow> seg_off ds n0 j \<noteq> seg_off ds n0 l" if "l \<in> S" for l
    using seg_off_inj [OF assms(1,3), of l n0] that assms(2) by (auto simp: less_imp_le)
  then show ?thesis
    using assms(4) by (auto simp: stored_map_def)
qed

lemma stored_waiting:
  assumes "cut_ok ds" "S \<subseteq> {..<length ds}" "stored_ok ops base ds n0 g S" "j \<le> j'" "j' \<le> length ds" "{j..<j'} \<subseteq> S" "j' \<notin> S"
  shows "waiting ops base (stored_map ds n0 g S) (seg_off ds n0 j) (map ((!) ds) [j..<j'])
    \<and> unwait (stored_map ds n0 g S) (seg_off ds n0 j) (map ((!) ds) [j..<j']) = stored_map ds n0 g (S - {j..<j'})"
  using assms(2-7)
proof (induction "j' - j" arbitrary: j S)
  case 0
  then show ?case
    using stored_map_None [OF assms(1), of S j'] by simp
next
  case (Suc d)
  then have j: "j < j'" "j < length ds" "j \<in> S"
    by auto
  then have upt: "[j..<j'] = j # [Suc j..<j']"
    by (simp add: upt_rec)
  note rem = stored_map_remove [OF assms(1) Suc.prems(1) j(2), of n0 g]
  have "waiting ops base (stored_map ds n0 g (S - {j})) (seg_off ds n0 (Suc j)) (map ((!) ds) [Suc j..<j'])
    \<and> unwait (stored_map ds n0 g (S - {j})) (seg_off ds n0 (Suc j)) (map ((!) ds) [Suc j..<j'])
        = stored_map ds n0 g (S - {j} - {Suc j..<j'})"
    using Suc.prems j Suc.hyps(2) by (intro Suc.hyps(1)) (auto simp: stored_ok_def)
  moreover have "S - {j} - {Suc j..<j'} = S - {j..<j'}"
    using j by auto
  moreover have "stored_map ds n0 g S (seg_off ds n0 j) = Some [g (seg_off ds n0 j)]"
    using j(3) by (simp add: stored_map_def)
  ultimately show ?case
    using Suc.prems(2) j rem by (auto simp: upt stored_ok_def seg_off_Suc fun_upd_def [symmetric])
qed

text \<open>The first segment that is missing.\<close>

definition gap :: "nat set \<Rightarrow> nat" where
  "gap R = (LEAST n. n \<notin> R)"

lemma gap_facts:
  assumes "R \<subseteq> {..<k}"
  shows "gap R \<notin> R" "{..<gap R} \<subseteq> R" "gap R \<le> k"
proof -
  have "k \<notin> R" using assms by auto
  then show "gap R \<notin> R" "gap R \<le> k"
    unfolding gap_def by (rule LeastI, rule Least_le)
  show "{..<gap R} \<subseteq> R"
    unfolding gap_def using not_less_Least by blast
qed

lemma gap_unique: "n \<notin> R \<Longrightarrow> {..<n} \<subseteq> R \<Longrightarrow> gap R = n"
  unfolding gap_def by (rule Least_equality) (auto simp: not_less [symmetric])

definition arrived ::
  "'b buffer_ops \<Rightarrow> side \<Rightarrow> 32 word \<Rightarrow> byte list list \<Rightarrow> 32 word \<Rightarrow> nat set \<Rightarrow> 'b session \<Rightarrow> bool" where
  "arrived ops sd base ds n0 R s \<longleftrightarrow>
     flowing sd s \<and> sm_base_seq (stream_of sd s) = base \<and> sm_next_seq (stream_of sd s) = seg_off ds n0 (gap R)
     \<and> (\<exists>g. stored_ok ops base ds n0 g {l \<in> R. gap R < l} \<and> smap_find (ss_seg_map s) = stored_map ds n0 g {l \<in> R. gap R < l})"

lemma seg_total_card:
  assumes "smap_wf (ss_seg_map s)" "smap_find (ss_seg_map s) = stored_map ds n0 g S" "cut_ok ds" "S \<subseteq> {..<length ds}"
  shows "card S \<le> seg_total s"
proof -
  let ?m = "ss_seg_map s"
  have fin: "finite S"
    using assms(4) finite_subset by blast
  have "length v = 1" if "(k, v) \<in> set ?m" for k v
    using that assms(2) smap_find_iff [OF assms(1), of k v] by (auto simp: stored_map_def split: if_splits)
  then have "map (length \<circ> snd) ?m = replicate (length ?m) 1"
    by (intro replicate_eqI) auto
  then have "seg_total s = length ?m"
    by (simp add: seg_total_def sum_list_replicate)
  moreover have "seg_off ds n0 ` S \<subseteq> fst ` set ?m"
  proof
    fix w assume "w \<in> seg_off ds n0 ` S"
    then have "smap_find ?m w \<noteq> None"
      by (simp add: assms(2) stored_map_def)
    then show "w \<in> fst ` set ?m"
      by (auto simp: smap_find_def map_of_eq_None_iff)
  qed
  then have "card (seg_off ds n0 ` S) \<le> length ?m"
    by (metis List.finite_set card_length card_mono finite_imageI le_trans length_map list.set_map)
  moreover have "inj_on (seg_off ds n0) S"
    using seg_off_inj [OF assms(3)] assms(4) by (intro inj_onI) (meson lessThan_iff less_imp_le_nat subsetD)
  ultimately show ?thesis
    by (simp add: card_image)
qed

lemma seg_off_range:
  "j \<le> j' \<Longrightarrow> j' \<le> length ds \<Longrightarrow>
     seg_off ds n0 j + word_of_nat (length (concat (map ((!) ds) [j..<j']))) = seg_off ds n0 j'"
proof (induction j' rule: dec_induct)
  case (step n)
  then show ?case by (simp add: seg_off_Suc add.assoc [symmetric])
qed simp

lemma arrive_due:
  assumes "mod_ready D tcp_params this" "buffer_laws ops" "cut_ok ds" "R \<subseteq> {..<length ds}" "arrived ops sd base ds n0 R s"
    "gap R < length ds" "arrival_ok ops D this sd (ss_client s) (ds ! gap R) a"
  shows "\<exists>s' p'. Session_decode ops this (ar_flags a) (base + seg_off ds n0 (gap R)) (ar_ack a) (ds ! gap R) (ar_ptr a) (ar_win a)
      s (ar_prop a) = Some (Inr (s', p'))
    \<and> arrived ops sd base ds n0 (insert (gap R) R) s' \<and> endpoints s' = endpoints s
    \<and> last_value (buf_mem ops (ar_mem a) s') (pid_of this ''data'') p'
        = concat (map ((!) ds) [gap R..<gap (insert (gap R) R)])"
proof -
  let ?f = "gap R" and ?f' = "gap (insert (gap R) R)" and ?S = "{l \<in> R. gap R < l}"
  let ?ds = "map ((!) ds) [Suc ?f..<?f']"
  have R': "insert ?f R \<subseteq> {..<length ds}"
    using assms(4,6) by simp
  note f = gap_facts [OF assms(4)] and f' = gap_facts [OF R']
  have lt: "?f < ?f'"
    using f(2) f'(1) by (cases "?f'" "?f" rule: linorder_cases) auto
  have S: "?S \<subseteq> {..<length ds}" "{Suc ?f..<?f'} \<subseteq> ?S" "?f' \<notin> ?S"
    using assms(4) subsetD [OF f'(2)] f'(1) by (fastforce simp: Suc_le_eq)+
  have S4: "?S - {Suc ?f..<?f'} = {l \<in> insert ?f R. ?f' < l}"
  proof (rule set_eqI)
    fix l
    have "l \<noteq> ?f'" if "l \<in> insert ?f R" using that f'(1) by blast
    then show "l \<in> ?S - {Suc ?f..<?f'} \<longleftrightarrow> l \<in> {l \<in> insert ?f R. ?f' < l}"
      using lt by auto
  qed
  obtain g where g: "stored_ok ops base ds n0 g ?S" "smap_find (ss_seg_map s) = stored_map ds n0 g ?S"
    and s: "flowing sd s" "sm_base_seq (stream_of sd s) = base" "sm_next_seq (stream_of sd s) = seg_off ds n0 ?f"
    using assms(5) by (auto simp: arrived_def)
  have nx: "seg_off ds n0 ?f + word_of_nat (length (ds ! ?f)) = seg_off ds n0 (Suc ?f)"
    using assms(6) by (simp add: seg_off_Suc)
  have w: "waiting ops base (stored_map ds n0 g ?S) (seg_off ds n0 (Suc ?f)) ?ds"
    "unwait (stored_map ds n0 g ?S) (seg_off ds n0 (Suc ?f)) ?ds = stored_map ds n0 g (?S - {Suc ?f..<?f'})"
    using stored_waiting [OF assms(3) S(1) g(1), of "Suc ?f" ?f'] lt f'(3) S(2,3) by auto
  have "card {Suc ?f..<?f'} \<le> card ?S"
    using S(1,2) by (meson card_mono finite_lessThan finite_subset)
  also have "\<dots> \<le> seg_total s"
    using seg_total_card [OF _ g(2) assms(3) S(1)] s(1) by (simp add: flowing_def)
  finally have len: "length ?ds \<le> seg_total s"
    by simp
  obtain s' p' where r: "Session_decode ops this (ar_flags a) (base + seg_off ds n0 ?f) (ar_ack a) (ds ! ?f) (ar_ptr a) (ar_win a)
        s (ar_prop a) = Some (Inr (s', p'))" "flowing sd s'" "endpoints s' = endpoints s"
      "stream_of sd s' = (stream_of sd s)\<lparr>sm_next_seq := seg_off ds n0 (Suc ?f) + word_of_nat (length (concat ?ds))\<rparr>"
      "smap_find (ss_seg_map s') = stored_map ds n0 g {l \<in> insert ?f R. ?f' < l}"
      "last_value (buf_mem ops (ar_mem a) s') (pid_of this ''data'') p' = ds ! ?f @ concat ?ds"
    using Session_decode_due [OF assms(1,2) s(1) assms(7), of "base + seg_off ds n0 ?f" ?ds] len w s(2,3) g(2) S4
    by (auto simp: nx)
  have "stored_ok ops base ds n0 g {l \<in> insert ?f R. ?f' < l}"
    using g(1) unfolding S4 [symmetric] by (simp add: stored_ok_def)
  then have "arrived ops sd base ds n0 (insert ?f R) s'"
    using r(2,4,5) s(2) seg_off_range [of "Suc ?f" ?f' ds n0] lt f'(3) unfolding arrived_def by auto
  moreover have "ds ! ?f @ concat ?ds = concat (map ((!) ds) [?f..<?f'])"
    using lt by (simp add: upt_conv_Cons)
  ultimately show ?thesis
    using r by auto
qed

lemma arrive_early:
  assumes "mod_ready D tcp_params this" "buffer_laws ops" "cut_ok ds" "R \<subseteq> {..<length ds}" "arrived ops sd base ds n0 R s"
    "i < length ds" "i \<notin> R" "i \<noteq> gap R" "arrival_ok ops D this sd (ss_client s) (ds ! i) a"
  shows "\<exists>s' p'. Session_decode ops this (ar_flags a) (base + seg_off ds n0 i) (ar_ack a) (ds ! i) (ar_ptr a) (ar_win a)
      s (ar_prop a) = Some (Inr (s', p'))
    \<and> arrived ops sd base ds n0 (insert i R) s' \<and> endpoints s' = endpoints s
    \<and> last_value (buf_mem ops (ar_mem a) s') (pid_of this ''data'') p' = []"
proof -
  let ?f = "gap R" and ?S = "{l \<in> R. gap R < l}" and ?w = "seg_off ds n0 i"
  note f = gap_facts [OF assms(4)]
  have gi: "?f < i" "gap (insert i R) = ?f"
    using f assms(7,8) gap_unique [of ?f "insert i R"] by (auto simp: linorder_neq_iff)
  have S: "?S \<subseteq> {..<length ds}" "{l \<in> insert i R. ?f < l} = insert i ?S"
    using assms(4) gi(1) by auto
  obtain g where g: "stored_ok ops base ds n0 g ?S" "smap_find (ss_seg_map s) = stored_map ds n0 g ?S"
    and s: "flowing sd s" "sm_base_seq (stream_of sd s) = base" "sm_next_seq (stream_of sd s) = seg_off ds n0 ?f"
    using assms(5) by (auto simp: arrived_def)
  have ne: "?w \<noteq> seg_off ds n0 ?f"
    using seg_off_inj [OF assms(3), of i ?f n0] assms(6,8) f(3) by auto
  have none: "stored_map ds n0 g ?S ?w = None"
    using stored_map_None [OF assms(3) S(1), of i] assms(6,7) by simp
  let ?seg = "\<lparr>sg_buf = tb_make ops (ds ! i), sg_seq = base + ?w, sg_flags = ar_flags a\<rparr>"
  obtain s' p' where r: "Session_decode ops this (ar_flags a) (base + ?w) (ar_ack a) (ds ! i) (ar_ptr a) (ar_win a) s (ar_prop a)
        = Some (Inr (s', p'))" "flowing sd s'" "endpoints s' = endpoints s" "stream_of sd s' = stream_of sd s"
      "smap_find (ss_seg_map s') = (stored_map ds n0 g ?S)(?w \<mapsto> [?seg])"
      "last_value (buf_mem ops (ar_mem a) s') (pid_of this ''data'') p' = []"
    using Session_decode_early [OF assms(1) s(1) assms(9), of "base + ?w"] s(2,3) g(2) none ne by auto
  let ?g = "g(?w := ?seg)"
  have inj: "seg_off ds n0 l = ?w \<longleftrightarrow> l = i" if "l \<in> insert i ?S" for l
    using seg_off_inj [OF assms(3), of l i n0] that assms(4,6) by (auto simp: less_imp_le)
  have "smap_find (ss_seg_map s') = stored_map ds n0 ?g (insert i ?S)"
    unfolding r(5) by (auto simp: stored_map_def fun_eq_iff)
  moreover have "stored_ok ops base ds n0 ?g (insert i ?S)"
    using g(1) assms(2,9) inj by (auto simp: stored_ok_def buffer_laws_def arrival_ok_def)
  ultimately have "arrived ops sd base ds n0 (insert i R) s'"
    using r(2,4) s(2,3) gi(2) S(2) unfolding arrived_def by auto
  then show ?thesis
    using r by blast
qed

lemma feed_any_order:
  assumes "mod_ready D tcp_params this" "buffer_laws ops" "cut_ok ds"
    "distinct is" "set is \<inter> R = {}" "set is \<union> R = {..<length ds}" "arrived ops sd base ds n0 R s"
    "\<forall>i \<in> set is. arrival_ok ops D this sd (ss_client s) (ds ! i) (arr i)"
  shows "\<exists>s' outs. feed ops this (map (\<lambda>i. (base + seg_off ds n0 i, ds ! i, arr i)) is) s = Some (Inr (s', outs))
    \<and> arrived ops sd base ds n0 {..<length ds} s' \<and> concat outs = concat (map ((!) ds) [gap R..<length ds])"
  using assms(4-8)
proof (induction "is" arbitrary: R s)
  case Nil
  then have "R = {..<length ds}" by simp
  moreover have "gap {..<length ds} = length ds"
    by (rule gap_unique) auto
  ultimately show ?case
    using Nil by simp
next
  case (Cons i "is")
  have R: "R \<subseteq> {..<length ds}" "i < length ds" "i \<notin> R" "insert i R \<subseteq> {..<length ds}"
    using Cons.prems(2,3) by auto
  have le: "gap R \<le> gap (insert i R)"
    using gap_facts [OF R(1)] gap_facts [OF R(4)] by (metis insertCI lessThan_iff not_less subsetD)
  have "\<exists>s' p'. Session_decode ops this (ar_flags (arr i)) (base + seg_off ds n0 i) (ar_ack (arr i)) (ds ! i) (ar_ptr (arr i))
        (ar_win (arr i)) s (ar_prop (arr i)) = Some (Inr (s', p'))
    \<and> arrived ops sd base ds n0 (insert i R) s' \<and> endpoints s' = endpoints s
    \<and> last_value (buf_mem ops (ar_mem (arr i)) s') (pid_of this ''data'') p' = concat (map ((!) ds) [gap R..<gap (insert i R)])"
  proof (cases "i = gap R")
    case True
    then show ?thesis
      using arrive_due [OF assms(1-3) R(1) Cons.prems(4)] Cons.prems(5) R(2) by simp
  next
    case False
    have "gap (insert i R) = gap R"
      using False gap_facts [OF R(1)] by (intro gap_unique) auto
    then show ?thesis
      using arrive_early [OF assms(1-3) R(1) Cons.prems(4) R(2,3) False] Cons.prems(5) by simp
  qed
  then obtain s1 p1 where 1: "Session_decode ops this (ar_flags (arr i)) (base + seg_off ds n0 i) (ar_ack (arr i)) (ds ! i)
        (ar_ptr (arr i)) (ar_win (arr i)) s (ar_prop (arr i)) = Some (Inr (s1, p1))"
      "arrived ops sd base ds n0 (insert i R) s1" "endpoints s1 = endpoints s"
      "last_value (buf_mem ops (ar_mem (arr i)) s1) (pid_of this ''data'') p1 = concat (map ((!) ds) [gap R..<gap (insert i R)])"
    by blast
  have ok: "\<forall>i \<in> set is. arrival_ok ops D this sd (ss_client s1) (ds ! i) (arr i)"
    using Cons.prems(5) by (simp add: arrival_ok_endpoints [OF 1(3)])
  obtain s' outs where 2: "feed ops this (map (\<lambda>i. (base + seg_off ds n0 i, ds ! i, arr i)) is) s1 = Some (Inr (s', outs))"
      "arrived ops sd base ds n0 {..<length ds} s'" "concat outs = concat (map ((!) ds) [gap (insert i R)..<length ds])"
    using Cons.IH [of "insert i R" s1] Cons.prems(1-3) 1(2) ok by auto
  have "[gap R..<length ds] = [gap R..<gap (insert i R)] @ [gap (insert i R)..<length ds]"
    using le gap_facts(3) [OF R(4)] by (metis le_add_diff_inverse upt_add_eq_append)
  then show ?case
    using 1 2 by simp
qed

subsection \<open>Set-up and tear-down\<close>

definition state_puts :: "'a pmodule_scheme \<Rightarrow> status \<Rightarrow> 'b session \<Rightarrow> put list" where
  "state_puts this ns s =
     (if ns = ESTABLISHED then [PCpy (mod_param this ''rtt_3wh'') (store_le 4 (unat (rtt_ts (ss_ts_rtt s)))) LITTLE] else [])"

definition state_evs :: "'a pmodule_scheme \<Rightarrow> status \<Rightarrow> event_id list" where
  "state_evs this ns =
     (if ns = ESTABLISHED then [mod_ev this ''established''] else if ns = CLOSED then [mod_ev this ''closed''] else [])"

lemma state_events_adds:
  assumes "params_ready D session_params this" "property_ok D p"
  obtains p' where "state_events this ns s p = Inr p'" "adds D m (state_puts this ns s) (state_evs this ns) p p'"
    "pr_pkt p' = pr_pkt p"
proof (cases "ns = ESTABLISHED")
  case True
  let ?p = "push_event (mod_ev this ''established'') p"
  have ev: "adds D m [] [mod_ev this ''established''] p ?p"
    using adds_event [OF adds_refl [OF assms(2)], of m "mod_ev this ''established''"] by simp
  have us: "list_all (put_typed D) (state_puts this ns s)"
    using assms(1) by (simp add: state_puts_def params_ready_def)
  have "returns (property_puts (state_puts this ns s) ?p)
      (\<lambda>p'. adds D m (state_puts this ns s) [mod_ev this ''established''] p p' \<and> pr_pkt p' = pr_pkt p)"
    using adds_trans [OF ev] by (intro returns_puts [where m = m and D = D, OF adds_wf [OF ev] us])
      (auto simp: same_frame_def push_event_def)
  then show ?thesis
    using that True by (auto simp: returns_def state_events_def state_puts_def state_evs_def simp del: store_le.simps)
next
  case False
  then show ?thesis
    using that adds_refl [OF assms(2)] adds_event [OF adds_refl [OF assms(2)], of m "mod_ev this ''closed''"]
    by (auto simp: state_events_def state_puts_def state_evs_def push_event_def)
qed

text \<open>A segment that is accepted while nothing is stored.\<close>

lemma Session_decode_simple:
  assumes "params_ready D session_params this" "property_ok D p" "property_tv p = Inr tv" "seg_ptr \<noteq> OwnPtr"
    "ss_seg_map s = []" "sd = (if is_src ops p (ss_client s) then Client else Server)"
    "stream_send seq (length data) (stream_of sd s) = (True, st)"
    "trans_state flags sd seq (length data) tv
       (upd_stream (other sd) (stream_recv ack (ucast win)) (upd_stream sd (\<lambda>_. st) (s\<lparr>ss_buf := None\<rparr>))) = (ns, s')"
  shows "\<exists>p' us. Session_decode ops this flags seq ack data seg_ptr win s p = Some (Inr (s', p'))
    \<and> adds D m (state_puts this ns s' @ us) (state_evs this ns) p p'
    \<and> put_def ` set us \<subseteq> mod_param this ` {''data'', ''tx_server'', ''tx_client''}"
proof -
  let ?s = "s\<lparr>ss_buf := None\<rparr>"
  have f: "ss_seg_map s' = []" "ss_buf s' = None"
    using trans_state_frame [OF assms(8)] assms(5) by simp_all
  obtain p1 where p1: "state_events this ns s' p = Inr p1" "adds D m (state_puts this ns s') (state_evs this ns) p p1"
    using state_events_adds [OF assms(1,2)] by metis
  have d: "list_all (put_typed D) [PSet (mod_param this ''data'') seg_ptr (length data) BIG]"
    "list_all (put_typed D) [PCpy (mod_param this ''tx_server'') x LITTLE, PCpy (mod_param this ''tx_client'') y LITTLE]" for x y
    using assms(1,4) by (simp_all add: params_ready_def)
  obtain p2 where p2: "property_puts [PSet (mod_param this ''data'') seg_ptr (length data) BIG] p1 = Inr p2"
    "adds D m [PSet (mod_param this ''data'') seg_ptr (length data) BIG] [] p1 p2"
    using returns_puts [OF adds_wf [OF p1(2)] d(1), of m "\<lambda>p2. adds D m [PSet (mod_param this ''data'') seg_ptr (length data) BIG] [] p1 p2"]
    by (auto simp: returns_def)
  let ?x = "store_le 4 (unat (ucast (sm_tx_size (ss_client s')) :: 32 word))"
  let ?y = "store_le 4 (unat (ucast (sm_tx_size (ss_server s')) :: 32 word))"
  let ?us = "[PCpy (mod_param this ''tx_server'') ?x LITTLE, PCpy (mod_param this ''tx_client'') ?y LITTLE]"
  obtain p3 where p3: "property_puts ?us p2 = Inr p3" "adds D m ?us [] p2 p3"
    using returns_puts [OF adds_wf [OF p2(2)] d(2), of m ?x ?y "\<lambda>p3. adds D m ?us [] p2 p3"] by (auto simp: returns_def)
  have "decode_stream (Suc (seg_total ?s)) ops this ack win sd flags seq data seg_ptr ?s p = Some (Inr (True, s', p2))"
    using assms(3,7,8) p1(1) p2(1) f by (simp add: decode_stream.simps deliver_def)
  then have "Session_decode ops this flags seq ack data seg_ptr win s p = Some (Inr (s', p3))"
    using p3(1) assms(6) by (simp add: Session_decode_def Let_def del: store_le.simps)
  moreover have "adds D m (state_puts this ns s' @ ([PSet (mod_param this ''data'') seg_ptr (length data) BIG] @ ?us))
      (state_evs this ns) p p3"
    using adds_puts [OF adds_puts [OF p1(2) p2(2)] p3(2)] by simp
  ultimately show ?thesis
    by (intro exI [of _ p3] exI [of _ "[PSet (mod_param this ''data'') seg_ptr (length data) BIG] @ ?us"]) auto
qed

end
