(* ===== verification/PM_Object.thy ===== *)
theory PM_Object
  imports PM_Proto
begin

text \<open>
  Values that refer to other values: the modules with variable parts (\<^verbatim>\<open>src/modules/icmp.cc\<close>, \<^verbatim>\<open>dhcp.cc\<close>, \<^verbatim>\<open>utils.cc\<close>) keep the pointer
  that \<^verbatim>\<open>Property::retain_value\<close> returns, cast it down with \<^verbatim>\<open>dynamic_cast\<close>, and store it in the arrays and maps of
  \<^verbatim>\<open>src/value.cc\<close>. A pointer is the place of the object in the property's tables; null is \<open>None\<close>, and a member call through it is
  the error \<open>UndefinedBehaviour\<close>.
\<close>

subsection \<open>Pointers to values\<close>

definition property_obj :: "vref \<Rightarrow> 'b property \<Rightarrow> pvalue res" where
  "property_obj r p =
     (case r of
        RNone \<Rightarrow> Inl UndefinedBehaviour
      | RVal pid i \<Rightarrow>
          if pid < length (pr_param p) \<and> i < length (pr_param p ! pid) then Inr (pr_param p ! pid ! i)
          else Inl UndefinedBehaviour)"

definition dynamic_cast :: "string \<Rightarrow> vref \<Rightarrow> 'b property \<Rightarrow> (vref option) res" where
  "dynamic_cast cls r p =
     bind_res (property_obj r p) (\<lambda>v. Inr (if class_name (v_cls v) = cls then Some r else None))"

text \<open>A member function that changes the object only.\<close>

definition call :: "vref option \<Rightarrow> (pvalue \<Rightarrow> pvalue) \<Rightarrow> 'b property \<Rightarrow> 'b property res" where
  "call r f p = (case r of None \<Rightarrow> Inl UndefinedBehaviour | Some r \<Rightarrow> Inr (property_upd r f p))"

text \<open>\<^verbatim>\<open>arr->push(v)\<close> on a pointer to an \<^verbatim>\<open>Array\<close>.\<close>

definition push_ref :: "vref option \<Rightarrow> vref option \<Rightarrow> 'b property \<Rightarrow> 'b property res" where
  "push_ref arr r p =
     (case (arr, r) of
        (Some a, Some r) \<Rightarrow>
          bind_res (property_obj a p) (\<lambda>v.
          bind_res (array_push r (v_cls v)) (\<lambda>c.
            Inr (property_upd a (\<lambda>v. v\<lparr>v_cls := c\<rparr>) p)))
      | _ \<Rightarrow> Inl UndefinedBehaviour)"

text \<open>\<^verbatim>\<open>prop->retain_value(def)\<close> cast to a class.\<close>

definition retain_as :: "string \<Rightarrow> pdef \<Rightarrow> 'b property \<Rightarrow> (vref option \<times> 'b property) res" where
  "retain_as cls d p =
     bind_res (retain_value d p) (\<lambda>(r, p). bind_res (dynamic_cast cls r p) (\<lambda>r. Inr (r, p)))"

subsection \<open>The heap of a property\<close>

text \<open>The live objects of a property as a heap: the proofs follow \<open>live p\<close>.\<close>

definition obj_at :: "(nat \<Rightarrow> pvalue list) \<Rightarrow> vref \<Rightarrow> pvalue option" where
  "obj_at H r = (case r of RNone \<Rightarrow> None | RVal pid i \<Rightarrow> if i < length (H pid) then Some (H pid ! i) else None)"

text \<open>The object a member of a map refers to, and the elements of an array.\<close>

definition member_at :: "(nat \<Rightarrow> pvalue list) \<Rightarrow> vref \<Rightarrow> string \<Rightarrow> pvalue option" where
  "member_at H r key =
     (case obj_at H r of
        None \<Rightarrow> None
      | Some v \<Rightarrow> (case map_find (v_cls v) key of Inl _ \<Rightarrow> None | Inr r' \<Rightarrow> obj_at H r'))"

definition elements_at :: "(nat \<Rightarrow> pvalue list) \<Rightarrow> vref \<Rightarrow> vref list" where
  "elements_at H r = (case obj_at H r of Some v \<Rightarrow> (case v_cls v of VArray refs \<Rightarrow> refs | _ \<Rightarrow> []) | None \<Rightarrow> [])"

lemma live_property_obj:
  "property_wf p \<Longrightarrow> i < length (live p pid) \<Longrightarrow> property_obj (RVal pid i) p = Inr (live p pid ! i)"
  by (auto simp: property_obj_def live_def property_wf_def split: if_splits)

lemma typed_live_is:
  "typed D p \<Longrightarrow> property_wf p \<Longrightarrow> i < length (live p pid) \<Longrightarrow> is_a (D pid) (v_cls (live p pid ! i))"
  by (auto simp: typed_def live_def property_wf_def split: if_splits)

lemma typed_live:
  "typed D p \<Longrightarrow> property_wf p \<Longrightarrow> i < length (live p pid) \<Longrightarrow> class_name (v_cls (live p pid ! i)) = D pid"
  using typed_live_is by (auto simp: is_a_def)

subsection \<open>Rules\<close>

text \<open>One step on the heap: an object added to a parameter, or an object replaced by one of the same class.\<close>

definition heap_step :: "(nat \<Rightarrow> string) \<Rightarrow> 'b property \<Rightarrow> (nat \<Rightarrow> pvalue list) \<Rightarrow> 'b property \<Rightarrow> bool" where
  "heap_step D p H p' \<longleftrightarrow> property_ok D p' \<and> same_frame p p' \<and> live p' = H"

lemma heap_stepD:
  "heap_step D p H p' \<Longrightarrow> property_ok D p'" "heap_step D p H p' \<Longrightarrow> same_frame p p'" "heap_step D p H p' \<Longrightarrow> live p' = H"
  by (simp_all add: heap_step_def)

lemma heap_step_refl: "property_ok D p \<Longrightarrow> heap_step D p (live p) p"
  by (simp add: heap_step_def same_frame_def)

lemma heap_step_trans: "heap_step D p H p1 \<Longrightarrow> heap_step D p1 H' p2 \<Longrightarrow> heap_step D p H' p2"
  by (auto simp: heap_step_def same_frame_def)

lemma returns_retain_value:
  assumes "property_ok D p" "0 \<le> df_id d" "def_typed D d"
    "\<And>v p'. heap_step D p ((live p)(nat (df_id d) := live p (nat (df_id d)) @ [v])) p' \<Longrightarrow> fresh_value d v \<Longrightarrow> is_a (D (nat (df_id d))) (v_cls v) \<Longrightarrow>
       Q (RVal (nat (df_id d)) (length (live p (nat (df_id d)))), p')"
  shows "returns (retain_value d p) Q"
proof -
  let ?pid = "nat (df_id d)"
  have p: "property_wf p" "typed D p"
    using assms(1) by (simp_all add: property_ok_def)
  obtain v p' where p': "retain_value d p = Inr (RVal ?pid (length (live p ?pid)), p')" "property_wf p'" "same_frame p p'"
      "live p' = (live p)(?pid := live p ?pid @ [v])" "fresh_value d v"
    using vt.retain_live [OF p(1) assms(2)] by blast
  have t: "typed D p'"
    using retain_value_typed [OF p(2,1) assms(3,2)] p'(1) by auto
  have "is_a (D ?pid) (v_cls v)"
    using typed_live_is [OF t p'(2), of "length (live p ?pid)" ?pid] by (simp add: p'(4))
  then show ?thesis
    using p' t assms(4) [of v p'] by (simp add: returns_def heap_step_def property_ok_def)
qed

lemma returns_retain_as:
  assumes "property_ok D p" "0 \<le> df_id d" "def_typed D d" "D (nat (df_id d)) = cls"
    "\<And>v p'. heap_step D p ((live p)(nat (df_id d) := live p (nat (df_id d)) @ [v])) p' \<Longrightarrow> fresh_value d v \<Longrightarrow> is_a cls (v_cls v) \<Longrightarrow>
       Q (Some (RVal (nat (df_id d)) (length (live p (nat (df_id d))))), p')"
  shows "returns (retain_as cls d p) Q"
  unfolding retain_as_def
proof (rule returns_bind, rule returns_retain_value [OF assms(1-3)])
  let ?pid = "nat (df_id d)"
  fix v p'
  assume h: "heap_step D p ((live p)(?pid := live p ?pid @ [v])) p'" "fresh_value d v" "is_a (D ?pid) (v_cls v)"
  then have "property_obj (RVal ?pid (length (live p ?pid))) p' = Inr v"
    using live_property_obj [of p' "length (live p ?pid)" ?pid] by (simp add: heap_step_def property_ok_def)
  then show "returns (case (RVal ?pid (length (live p ?pid)), p') of
      (r, p) \<Rightarrow> bind_res (dynamic_cast cls r p) (\<lambda>r. Inr (r, p))) Q"
    using h assms(4) assms(5) [OF h(1,2)] by (simp add: dynamic_cast_def returns_def is_a_def)
qed

lemma property_upd_step:
  assumes "property_ok D p" "i < length (live p pid)" "\<And>v. is_a (D pid) (v_cls v) \<Longrightarrow> is_a (D pid) (v_cls (f v))"
  shows "heap_step D p ((live p)(pid := (live p pid)[i := f (live p pid ! i)])) (property_upd (RVal pid i) f p)"
proof -
  have p: "property_wf p" "typed D p"
    using assms(1) by (simp_all add: property_ok_def)
  have "i < length (pr_param p ! pid)"
    using assms(2) by (auto simp: live_def split: if_splits)
  then show ?thesis
    using property_upd_typed [OF p(2), of pid f i] assms(3) property_upd_live [OF p(1) assms(2)] vt.upd_wf [OF p(1)]
      vt.upd_frame [of p "RVal pid i" f]
    by (simp add: heap_step_def property_ok_def del: property_upd.simps)
qed

lemma returns_call:
  assumes "property_ok D p" "i < length (live p pid)" "\<And>v. is_a (D pid) (v_cls v) \<Longrightarrow> is_a (D pid) (v_cls (f v))"
    "\<And>p'. heap_step D p ((live p)(pid := (live p pid)[i := f (live p pid ! i)])) p' \<Longrightarrow> Q p'"
  shows "returns (call (Some (RVal pid i)) f p) Q"
proof -
  have "heap_step D p ((live p)(pid := (live p pid)[i := f (live p pid ! i)])) (property_upd (RVal pid i) f p)"
    using property_upd_step [OF assms(1,2), of f] assms(3) by blast
  then show ?thesis
    using assms(4) by (simp add: call_def returns_def del: property_upd.simps)
qed

lemma returns_push_ref:
  assumes "property_ok D p" "i < length (live p pid)" "v_cls (live p pid ! i) = VArray refs"
    "\<And>p'. heap_step D p ((live p)(pid := (live p pid)[i := (live p pid ! i)\<lparr>v_cls := VArray (refs @ [r])\<rparr>])) p' \<Longrightarrow> Q p'"
  shows "returns (push_ref (Some (RVal pid i)) (Some r) p) Q"
proof -
  have p: "property_wf p" "typed D p"
    using assms(1) by (simp_all add: property_ok_def)
  have "D pid = ''Array''"
    using typed_live [OF p(2,1) assms(2)] assms(3) by simp
  then have "heap_step D p ((live p)(pid := (live p pid)[i := (live p pid ! i)\<lparr>v_cls := VArray (refs @ [r])\<rparr>]))
      (property_upd (RVal pid i) (\<lambda>v. v\<lparr>v_cls := VArray (refs @ [r])\<rparr>) p)"
    by (intro property_upd_step [OF assms(1,2)]) (simp add: is_a_def)
  then show ?thesis
    using assms(3,4) live_property_obj [OF p(1) assms(2)] by (simp add: push_ref_def returns_def)
qed

subsection \<open>Runs of several steps\<close>

text \<open>The same rules with the heap accumulated since \<open>p0\<close>.\<close>

lemma run_retain_value:
  assumes st: "heap_step D p0 H p" and d: "0 \<le> df_id d" "def_typed D d" "nat (df_id d) = pid"
    and Q: "\<And>v p'. heap_step D p0 (H(pid := H pid @ [v])) p' \<Longrightarrow> fresh_value d v \<Longrightarrow> is_a (D pid) (v_cls v) \<Longrightarrow>
       Q (RVal pid (length (H pid)), p')"
  shows "returns (retain_value d p) Q"
proof (rule returns_retain_value [OF heap_stepD(1) [OF st] d(1,2)], unfold d(3) heap_stepD(3) [OF st])
  fix v p'
  assume "heap_step D p (H(pid := H pid @ [v])) p'" "fresh_value d v" "is_a (D pid) (v_cls v)"
  then show "Q (RVal pid (length (H pid)), p')"
    using Q heap_step_trans [OF st] by blast
qed

lemma run_retain_as:
  assumes st: "heap_step D p0 H p" and d: "0 \<le> df_id d" "def_typed D d" "nat (df_id d) = pid" "D pid = cls"
    and Q: "\<And>v p'. heap_step D p0 (H(pid := H pid @ [v])) p' \<Longrightarrow> fresh_value d v \<Longrightarrow> is_a cls (v_cls v) \<Longrightarrow>
       Q (Some (RVal pid (length (H pid))), p')"
  shows "returns (retain_as cls d p) Q"
proof (rule returns_retain_as [OF heap_stepD(1) [OF st] d(1,2)], unfold d(3) heap_stepD(3) [OF st])
  fix v p'
  assume "heap_step D p (H(pid := H pid @ [v])) p'" "fresh_value d v" "is_a cls (v_cls v)"
  then show "Q (Some (RVal pid (length (H pid))), p')"
    using Q heap_step_trans [OF st] by blast
qed (rule d(4))

lemma run_call:
  assumes st: "heap_step D p0 H p" and "i < length (H pid)" "\<And>v. is_a (D pid) (v_cls v) \<Longrightarrow> is_a (D pid) (v_cls (f v))"
    and Q: "\<And>p'. heap_step D p0 (H(pid := (H pid)[i := f (H pid ! i)])) p' \<Longrightarrow> Q p'"
  shows "returns (call (Some (RVal pid i)) f p) Q"
proof (rule returns_call [OF heap_stepD(1) [OF st]], unfold heap_stepD(3) [OF st])
  fix p'
  assume "heap_step D p (H(pid := (H pid)[i := f (H pid ! i)])) p'"
  then show "Q p'"
    using Q heap_step_trans [OF st] by blast
qed (use assms in auto)

lemma run_push_ref:
  assumes st: "heap_step D p0 H p" and "i < length (H pid)" "v_cls (H pid ! i) = VArray refs"
    and Q: "\<And>p'. heap_step D p0 (H(pid := (H pid)[i := (H pid ! i)\<lparr>v_cls := VArray (refs @ [r])\<rparr>])) p' \<Longrightarrow> Q p'"
  shows "returns (push_ref (Some (RVal pid i)) (Some r) p) Q"
proof (rule returns_push_ref [OF heap_stepD(1) [OF st]], unfold heap_stepD(3) [OF st])
  fix p'
  assume "heap_step D p (H(pid := (H pid)[i := (H pid ! i)\<lparr>v_cls := VArray (refs @ [r])\<rparr>])) p'"
  then show "Q p'"
    using Q heap_step_trans [OF st] by blast
qed (use assms in auto)

subsection \<open>What the modules with variable parts share\<close>

lemma bind_res_cong:
  "r = r' \<Longrightarrow> (\<And>a. r' = Inr a \<Longrightarrow> f a = f' a) \<Longrightarrow> bind_res r f = bind_res r' f'"
  by (cases r') simp_all

lemma payload_retain_le: "payload_retain n pd = Inr (r, pd') \<Longrightarrow> pl_length pd' \<le> pl_length pd"
  by (auto simp: payload_retain_def Let_def split: if_splits)

lemma payload_retain_less: "payload_retain n pd = Inr (Some h, pd') \<Longrightarrow> 0 < n \<Longrightarrow> pl_length pd' < pl_length pd"
  by (auto simp: payload_retain_def Let_def split: if_splits)

text \<open>Objects are only added, but for the array \<open>a\<close>, and only to the parameters of \<open>S\<close>.\<close>

definition heap_grow :: "nat \<Rightarrow> nat set \<Rightarrow> (nat \<Rightarrow> pvalue list) \<Rightarrow> (nat \<Rightarrow> pvalue list) \<Rightarrow> bool" where
  "heap_grow a S H H' \<longleftrightarrow> (\<forall>pid. pid \<noteq> a \<longrightarrow> prefix (H pid) (H' pid)) \<and> (\<forall>pid. pid \<notin> S \<longrightarrow> H' pid = H pid)"

lemma heap_grow_refl: "heap_grow a S H H"
  by (simp add: heap_grow_def)

lemma heap_grow_trans:
  assumes "heap_grow a S H H1" "heap_grow a S H1 H2"
  shows "heap_grow a S H H2"
proof -
  have "prefix (H pid) (H2 pid)" if "pid \<noteq> a" for pid
    using assms that prefix_order.trans [of "H pid" "H1 pid" "H2 pid"] by (simp add: heap_grow_def)
  then show ?thesis
    using assms by (simp add: heap_grow_def)
qed

lemma prefix_nth: "prefix xs ys \<Longrightarrow> i < length xs \<Longrightarrow> i < length ys \<and> ys ! i = xs ! i"
  by (auto simp: prefix_def nth_append)

lemma shown_value_set [simp]: "shown m (value_set (PktPtr off) n e v) = map_option (\<lambda>bs. (bs, e)) (bslice_opt off n (m_pkt m))"
  by (auto simp: shown_def bslice_opt_def split: option.split)

lemma shown_cls [simp]: "shown m (v\<lparr>v_cls := c\<rparr>) = shown m v"
  by (simp add: shown_def v_bytes_def)

lemma view_prefix_upd:
  "k < length xs \<Longrightarrow> map (shown m) (xs[k := (xs ! k)\<lparr>v_cls := c\<rparr>]) = map (shown m) xs"
  by (simp add: map_update) (metis length_map list_update_id nth_map)

lemma fresh_array: "fresh_value d v \<Longrightarrow> df_cons d = VArray [] \<Longrightarrow> is_a ''Array'' (v_cls v) \<Longrightarrow> v_cls v = VArray []"
  by (elim disjE exE fresh_value_def [THEN iffD1, elim_format], simp add: new_object_def bvalue.defs,
      rename_tac w, case_tac "v_cls w", auto simp: is_a_def value_clear.simps)

lemma returns_adds:
  assumes "adds D m us [] p0 p" "list_all (put_typed D) vs" "\<And>p'. adds D m (us @ vs) [] p0 p' \<Longrightarrow> Q p'"
  shows "returns (property_puts vs p) Q"
  using adds_puts [OF assms(1)] assms(3) by (blast intro: returns_puts [OF adds_wf [OF assms(1)] assms(2)])

end
