(* ===== verification/PM_Net.thy ===== *)
theory PM_Net
  imports PM_Object
begin

text \<open>
  The modules of the network and transport layers without state: \<^verbatim>\<open>src/modules/ipv4.cc\<close>, \<^verbatim>\<open>ipv6.cc\<close>, \<^verbatim>\<open>icmp.cc\<close> and
  \<^verbatim>\<open>udp.cc\<close>. The minor parameters of a major \<^verbatim>\<open>hdr\<close> parameter are computed on demand by their deferred functions
  from the pointer the major value keeps; forming \<^verbatim>\<open>&hdr->field_\<close> reads nothing, so only the functions that copy a
  computed number read the header.
\<close>

unbundle bit_operations_syntax

subsection \<open>Deferred functions\<close>

text \<open>\<^verbatim>\<open>v->set(&(hdr->x_), sizeof(hdr->x_))\<close>.\<close>

definition defer_field :: "nat \<Rightarrow> nat \<Rightarrow> deferred" where
  "defer_field off n m ptr v = Inr (value_set (ptr_add ptr off) n BIG v)"

definition defer_cpy :: "nat \<Rightarrow> nat \<Rightarrow> (byte list \<Rightarrow> byte list) \<Rightarrow> deferred" where
  "defer_cpy off n f m ptr v = bind_res (ptr_bytes m ptr off n) (\<lambda>bs. Inr (value_cpy (f bs) BIG v))"

fun define_minors :: "string \<Rightarrow> (string \<times> deferred) list \<Rightarrow> pmodule \<Rightarrow> pmodule res" where
  "define_minors major [] m = Inr m"
| "define_minors major ((name, dfr) # ds) m = bind_res (define_minor major name dfr m) (define_minors major ds)"

subsection \<open>IPv4\<close>

record ipv4 = pmodule +
  i4_mod_tcp :: mod_id
  i4_mod_udp :: mod_id
  i4_mod_icmp :: mod_id

definition ipv4_hdr_len :: "byte \<Rightarrow> byte" where
  "ipv4_hdr_len b = push_bit 2 (b AND 0xf)"

definition ipv4_minors :: "(string \<times> deferred) list" where
  "ipv4_minors =
     [(''tos'', defer_field 1 1), (''total_len'', defer_field 2 2), (''id'', defer_field 4 2),
      (''offset'', defer_field 6 2), (''ttl'', defer_field 8 1), (''proto'', defer_field 9 1),
      (''chksum'', defer_field 10 2),
      (''hdr_len'', defer_cpy 0 1 (\<lambda>bs. [ipv4_hdr_len (load_le bs)])),
      (''ver'', defer_cpy 0 1 (\<lambda>bs. [drop_bit 4 (load_le bs)]))]"

definition IPv4_new :: "pmodule res" where
  "IPv4_new =
     bind_res (define_major_param ''hdr'' Module_new) (\<lambda>m.
     bind_res (define_minors ''hdr'' ipv4_minors m) (\<lambda>m.
       Inr (define_param ''data'' VPlain (define_param ''opt'' VPlain
             (define_param ''dst'' VIPv4Addr (define_param ''src'' VIPv4Addr m))))))"

definition IPv4_setup :: "(string \<Rightarrow> mod_id) \<Rightarrow> pmodule \<Rightarrow> ipv4" where
  "IPv4_setup lookup m =
     pmodule.extend m \<lparr>i4_mod_tcp = lookup ''TCP'', i4_mod_udp = lookup ''UDP'', i4_mod_icmp = lookup ''ICMP''\<rparr>"

definition IPv4_next :: "ipv4 \<Rightarrow> byte \<Rightarrow> mod_id" where
  "IPv4_next this proto =
     (if proto = 1 then i4_mod_icmp this
      else if proto = 6 then i4_mod_tcp this
      else if proto = 17 then i4_mod_udp this
      else Module_NONE)"

text \<open>The option field; a \<^verbatim>\<open>nullptr\<close> of \<^verbatim>\<open>retain\<close> is stored like any pointer.\<close>

definition IPv4_option :: "ipv4 \<Rightarrow> nat \<Rightarrow> payload \<Rightarrow> 'b property \<Rightarrow> (payload \<times> 'b property) res" where
  "IPv4_option this hdrlen pd prop =
     (if hdrlen > 20 then
        bind_res (payload_retain (hdrlen - 20) pd) (\<lambda>(opt, pd).
        bind_res (property_puts
           [PSet (mod_param this ''opt'') (case opt of None \<Rightarrow> NullPtr | Some q \<Rightarrow> PktPtr q) (hdrlen - 20) BIG] prop)
          (\<lambda>prop. Inr (pd, prop)))
      else Inr (pd, prop))"

text \<open>The rest of \<^verbatim>\<open>decode\<close> once the lengths are known to fit.\<close>

definition IPv4_body ::
  "'b buffer_ops \<Rightarrow> ipv4 \<Rightarrow> mem \<Rightarrow> nat \<Rightarrow> nat \<Rightarrow> nat \<Rightarrow> payload \<Rightarrow> 'b property
     \<Rightarrow> (mod_id \<times> payload \<times> 'b property) res" where
  "IPv4_body ops this m hdr hdrlen total_len pd prop =
     bind_res (property_puts [PSet (mod_param this ''hdr'') (PktPtr hdr) 20 BIG] prop) (\<lambda>prop.
     bind_res (pkt_bytes m (hdr + 12) 4) (\<lambda>src.
     bind_res (pkt_bytes m (hdr + 16) 4) (\<lambda>dst.
     bind_res (property_puts
         [PSet (mod_param this ''src'') (PktPtr (hdr + 12)) 4 BIG,
          PSet (mod_param this ''dst'') (PktPtr (hdr + 16)) 4 BIG]
         (set_dst_addr ops dst (set_src_addr ops src prop))) (\<lambda>prop.
     bind_res (IPv4_option this hdrlen pd prop) (\<lambda>(pd, prop).
       let data_len = total_len - hdrlen;
           pd = snd (payload_shrink data_len pd)
       in
         bind_res (property_puts
            [PSet (mod_param this ''data'') (PktPtr (pl_ptr pd)) (pl_length pd) BIG] prop) (\<lambda>prop.
         bind_res (u8_at m (hdr + 9)) (\<lambda>proto.
           Inr (IPv4_next this proto, pd, prop))))))))"

definition IPv4_decode ::
  "'b buffer_ops \<Rightarrow> ipv4 \<Rightarrow> mem \<Rightarrow> payload \<Rightarrow> 'b property \<Rightarrow> (mod_id \<times> payload \<times> 'b property) res" where
  "IPv4_decode ops this m pd prop =
     bind_res (payload_retain 20 pd) (\<lambda>(r, pd).
       case r of
         None \<Rightarrow> Inr (Module_NONE, pd, prop)
       | Some hdr \<Rightarrow>
           bind_res (u8_at m hdr) (\<lambda>b.
           bind_res (u16_at m (hdr + 2)) (\<lambda>tl.
             let hdrlen = unat (ipv4_hdr_len b);
                 total_len = unat (ntohs tl)
             in if total_len < hdrlen then Inr (Module_NONE, pd, prop)
                else IPv4_body ops this m hdr hdrlen total_len pd prop)))"

subsection \<open>IPv6\<close>

record ipv6 = pmodule +
  i6_mod_tcp :: mod_id
  i6_mod_udp :: mod_id

definition ipv6_flag_bits :: "32 word \<Rightarrow> nat \<Rightarrow> byte list \<Rightarrow> byte list" where
  "ipv6_flag_bits msk sh bs = store_le 4 (unat (drop_bit sh (ntohl (load_le bs) AND msk)))"

definition ipv6_minors :: "(string \<times> deferred) list" where
  "ipv6_minors =
     [(''flags'', defer_field 0 4), (''data_len'', defer_field 4 2), (''next_hdr'', defer_field 6 1),
      (''hop_limit'', defer_field 7 1),
      (''version'', defer_cpy 0 4 (ipv6_flag_bits 0xf0000000 28)),
      (''traffic_class'', defer_cpy 0 4 (ipv6_flag_bits 0x0ff00000 20)),
      (''flow_label'', defer_cpy 0 4 (ipv6_flag_bits 0xfffff 0))]"

definition IPv6_new :: "pmodule res" where
  "IPv6_new =
     bind_res (define_major_param ''hdr'' Module_new) (\<lambda>m.
     bind_res (define_minors ''hdr'' ipv6_minors m) (\<lambda>m.
       Inr (define_param ''data'' VPlain (define_param ''opt'' VPlain m))))"

definition IPv6_setup :: "(string \<Rightarrow> mod_id) \<Rightarrow> pmodule \<Rightarrow> ipv6" where
  "IPv6_setup lookup m = pmodule.extend m \<lparr>i6_mod_tcp = lookup ''TCP'', i6_mod_udp = lookup ''UDP''\<rparr>"

definition IPv6_decode ::
  "'b buffer_ops \<Rightarrow> ipv6 \<Rightarrow> mem \<Rightarrow> payload \<Rightarrow> 'b property \<Rightarrow> (mod_id \<times> payload \<times> 'b property) res" where
  "IPv6_decode ops this m pd prop =
     bind_res (payload_retain 40 pd) (\<lambda>(r, pd).
       case r of
         None \<Rightarrow> Inr (Module_NONE, pd, prop)
       | Some hdr \<Rightarrow>
           bind_res (pkt_bytes m (hdr + 8) 16) (\<lambda>src.
           bind_res (pkt_bytes m (hdr + 24) 16) (\<lambda>dst.
           bind_res (u8_at m (hdr + 6)) (\<lambda>next_hdr.
             Inr (if next_hdr = 6 then i6_mod_tcp this
                  else if next_hdr = 17 then i6_mod_udp this
                  else Module_NONE,
                  pd, set_dst_addr ops dst (set_src_addr ops src prop))))))"

subsection \<open>ICMP\<close>

definition ICMP_new :: pmodule where
  "ICMP_new =
     define_param ''chksum'' VPlain (define_param ''code'' (VIcmpCode None)
       (define_param ''type'' VIcmpType Module_new))"

text \<open>\<^verbatim>\<open>code->set(..); code->set_type(..)\<close> on the result of the \<^verbatim>\<open>dynamic_cast\<close>.\<close>

definition IcmpCode_set :: "nat \<Rightarrow> byte \<Rightarrow> pvalue \<Rightarrow> pvalue" where
  "IcmpCode_set off t v = (value_set (PktPtr off) 1 BIG v)\<lparr>v_cls := VIcmpCode (Some t)\<rparr>"

definition ICMP_code :: "pmodule \<Rightarrow> nat \<Rightarrow> byte \<Rightarrow> 'b property \<Rightarrow> 'b property res" where
  "ICMP_code this hdr t prop =
     bind_res (retain_value (mod_param this ''code'') prop) (\<lambda>(r, prop).
     bind_res (property_obj r prop) (\<lambda>v.
       if class_name (v_cls v) = ''IcmpCode'' then Inr (property_upd r (IcmpCode_set (hdr + 1) t) prop)
       else Inl UndefinedBehaviour))"

definition ICMP_decode ::
  "pmodule \<Rightarrow> mem \<Rightarrow> payload \<Rightarrow> 'b property \<Rightarrow> (mod_id \<times> payload \<times> 'b property) res" where
  "ICMP_decode this m pd prop =
     bind_res (payload_retain 4 pd) (\<lambda>(r, pd).
       case r of
         None \<Rightarrow> Inr (Module_NONE, pd, prop)
       | Some hdr \<Rightarrow>
           bind_res (property_puts [PSet (mod_param this ''type'') (PktPtr hdr) 1 BIG] prop) (\<lambda>prop.
           bind_res (u8_at m hdr) (\<lambda>t.
           bind_res (ICMP_code this hdr t prop) (\<lambda>prop.
           bind_res (property_puts [PSet (mod_param this ''chksum'') (PktPtr (hdr + 2)) 2 BIG] prop) (\<lambda>prop.
             Inr (Module_NONE, pd, prop))))))"

fun assoc_text :: "(nat \<times> string) list \<Rightarrow> nat \<Rightarrow> string" where
  "assoc_text [] n = []"
| "assoc_text ((k, s) # xs) n = (if n = k then s else assoc_text xs n)"

definition icmp_types :: "(nat \<times> string) list" where
  "icmp_types =
     [(0, ''Echo Reply''), (3, ''Destination Unreachable''), (4, ''Source Quench''), (5, ''Redirect''),
      (8, ''Echo Request''), (9, ''Router Advertisement''), (10, ''Router Solicitation''),
      (11, ''Time Exceeded''), (12, ''Parameter''), (13, ''Timestamp''), (14, ''Timestamp Reply''),
      (15, ''Information Request''), (16, ''Information Reply''), (17, ''Address Mask Request''),
      (18, ''Address Mask Reply'')]"

definition IcmpType_repr :: "mem \<Rightarrow> pvalue \<Rightarrow> ostream \<Rightarrow> ostream res" where
  "IcmpType_repr m v os =
     bind_res (value_uint_or_0 m v) (\<lambda>n. Inr (os_puts (assoc_text icmp_types (unat n)) os))"

definition icmp_codes :: "nat \<Rightarrow> (nat \<times> string) list option" where
  "icmp_codes t =
     (if t = 3 then Some
        [(0, ''Net Unreachable''), (1, ''Host Unreachable''), (2, ''Protocol Unreachable''),
         (3, ''Port Unreachable''), (4, ''Fragmentation Needed and DF was Set''), (5, ''Source Route Failed''),
         (6, ''Destination Network Unknown''), (7, ''Destination Host Unknown''), (8, ''Source Host Isolated''),
         (9, ''Communication with Destination Network is Administratively Prohibited''),
         (10, ''Communication with Destinaltion Host is Administratively Prohibited''),
         (11, ''Destination Network Unreachable for ToS''), (12, ''Destination Host Unreachable for ToS''),
         (13, ''Communication Administratively Prohibited''), (14, ''Host Precedence Violation''),
         (15, ''Precedence cutoff in effect'')]
      else if t = 5 then Some
        [(0, ''Redirect Datagram for the Network (or subnet)''), (1, ''Redirect Datagram for the Host''),
         (2, ''Redirect Datagram for the ToS and Network''), (3, ''Redirect Datagram for the ToS and Host'')]
      else if t = 9 then Some
        [(0, ''Normal router advertisement''), (16, ''Does not route common traffic'')]
      else if t = 11 then Some
        [(0, ''Time to Live exceeded in Transit''), (1, ''Fragment Reassembly Time Exceeded'')]
      else if t = 12 then Some
        [(0, ''Pointer indicates the error''), (1, ''Missing a Required Option''), (2, ''Bad Length'')]
      else None)"

definition IcmpCode_repr :: "mem \<Rightarrow> pvalue \<Rightarrow> ostream \<Rightarrow> ostream res" where
  "IcmpCode_repr m v os =
     bind_res (value_uint_or_0 m v) (\<lambda>n.
       case v_cls v of
         VIcmpCode (Some t) \<Rightarrow>
           (case icmp_codes (unat t) of
              Some tab \<Rightarrow> Inr (os_puts (assoc_text tab (unat n)) os)
            | None \<Rightarrow> Inr (os_putnum 0 (unat n) os))
       | _ \<Rightarrow> Inl UndefinedBehaviour)"

subsection \<open>UDP\<close>

record udp = pmodule +
  ud_mod_dns :: mod_id
  ud_mod_mdns :: mod_id
  ud_mod_dhcp :: mod_id

definition UDP_new :: "pmodule res" where
  "UDP_new =
     bind_res (define_major_param ''hdr''
       (define_param ''dst_port'' VPortNumber (define_param ''src_port'' VPortNumber Module_new))) (\<lambda>m.
     bind_res (define_minors ''hdr'' [(''length'', defer_field 4 2), (''chksum'', defer_field 6 2)] m) (\<lambda>m.
       Inr (define_param ''chksum'' VPlain (define_param ''length'' VPlain m))))"

definition UDP_setup :: "(string \<Rightarrow> mod_id) \<Rightarrow> pmodule \<Rightarrow> udp" where
  "UDP_setup lookup m =
     pmodule.extend m \<lparr>ud_mod_dns = lookup ''DNS'', ud_mod_mdns = lookup ''MDNS'', ud_mod_dhcp = lookup ''DHCP''\<rparr>"

definition UDP_next :: "udp \<Rightarrow> 16 word \<Rightarrow> 16 word \<Rightarrow> mod_id" where
  "UDP_next this sport dport =
     (if sport = 53 \<or> dport = 53 then ud_mod_dns this
      else if sport = 5353 \<or> dport = 5353 then ud_mod_mdns this
      else if sport = 67 \<or> sport = 68 \<or> dport = 67 \<or> dport = 68 then ud_mod_dhcp this
      else Module_NONE)"

definition UDP_puts :: "udp \<Rightarrow> nat \<Rightarrow> put list" where
  "UDP_puts this hdr =
     [PSet (mod_param this ''hdr'') (PktPtr hdr) 8 BIG,
      PSet (mod_param this ''src_port'') (PktPtr hdr) 2 BIG,
      PSet (mod_param this ''dst_port'') (PktPtr (hdr + 2)) 2 BIG,
      PSet (mod_param this ''length'') (PktPtr (hdr + 4)) 2 BIG,
      PSet (mod_param this ''chksum'') (PktPtr (hdr + 6)) 2 BIG]"

definition UDP_decode ::
  "udp \<Rightarrow> mem \<Rightarrow> payload \<Rightarrow> 'b property \<Rightarrow> (mod_id \<times> payload \<times> 'b property) res" where
  "UDP_decode this m pd prop =
     bind_res (payload_retain 8 pd) (\<lambda>(r, pd).
       case r of
         None \<Rightarrow> Inr (Module_NONE, pd, prop)
       | Some hdr \<Rightarrow>
           bind_res (u16_at m hdr) (\<lambda>sp.
           bind_res (u16_at m (hdr + 2)) (\<lambda>dp.
           bind_res (property_puts (UDP_puts this hdr) (set_dst_port (ntohs dp) (set_src_port (ntohs sp) prop)))
             (\<lambda>prop. Inr (UDP_next this (ntohs sp) (ntohs dp), pd, prop)))))"

subsection \<open>What each module does\<close>

abbreviation ipv4_params :: "string list" where "ipv4_params \<equiv> [''hdr'', ''src'', ''dst'', ''opt'', ''data'']"

text \<open>How far the cursor gets, and the writes; \<open>hl\<close> is the header length and \<open>len\<close> the bytes left at \<open>off\<close>.\<close>

definition ipv4_skip :: "nat \<Rightarrow> nat \<Rightarrow> nat" where
  "ipv4_skip hl len = (if 20 < hl \<and> hl \<le> len then hl else 20)"

definition ipv4_opt_puts :: "ipv4 \<Rightarrow> nat \<Rightarrow> nat \<Rightarrow> nat \<Rightarrow> put list" where
  "ipv4_opt_puts this off hl len =
     (if 20 < hl then [PSet (mod_param this ''opt'') (if hl \<le> len then PktPtr (off + 20) else NullPtr) (hl - 20) BIG]
      else [])"

definition IPv4_puts :: "ipv4 \<Rightarrow> nat \<Rightarrow> nat \<Rightarrow> nat \<Rightarrow> nat \<Rightarrow> put list" where
  "IPv4_puts this off hl tot len =
     [PSet (mod_param this ''hdr'') (PktPtr off) 20 BIG,
      PSet (mod_param this ''src'') (PktPtr (off + 12)) 4 BIG,
      PSet (mod_param this ''dst'') (PktPtr (off + 16)) 4 BIG]
     @ ipv4_opt_puts this off hl len
     @ [PSet (mod_param this ''data'') (PktPtr (off + ipv4_skip hl len)) (min (tot - hl) (len - ipv4_skip hl len)) BIG]"

lemma IPv4_option_returns:
  assumes "mod_ready D ipv4_params this" "payload_inv (length (m_pkt m)) pd1" "property_ok D p"
    "pl_ptr pd1 = off + 20" "len = 20 + pl_length pd1"
  shows "returns (IPv4_option this hl pd1 p) (\<lambda>(pd', p').
    payload_inv (length (m_pkt m)) pd' \<and> pl_ptr pd' = off + ipv4_skip hl len
    \<and> pl_length pd' = len - ipv4_skip hl len
    \<and> adds D m (ipv4_opt_puts this off hl len) [] p p' \<and> same_frame p p')"
proof (cases "20 < hl")
  case True
  have "0 \<le> df_id (mod_param this ''opt'')" "def_typed D (mod_param this ''opt'')"
    using assms(1) by (simp_all add: mod_ready_def)
  then show ?thesis
    using True assms(2-5) unfolding IPv4_option_def
    by (auto intro!: wp returns_puts [where m = m and D = D] simp: ipv4_skip_def ipv4_opt_puts_def)
next
  case False
  with assms show ?thesis
    by (auto intro!: wp adds_refl simp: IPv4_option_def ipv4_skip_def ipv4_opt_puts_def same_frame_def)
qed

lemma unat_ipv4_hdr_len: "unat (ipv4_hdr_len b) = 4 * (unat b mod 16)"
proof -
  have "unat (b AND mask 4) = unat b mod 2 ^ 4"
    by (simp only: unsigned_take_bit_eq flip: take_bit_eq_mask take_bit_eq_mod)
  then have "unat (b AND 0xf) = unat b mod 16"
    by (simp add: mask_eq_exp_minus_1)
  moreover have "push_bit 2 (b AND 0xf) = 4 * (b AND 0xf)"
    by (simp add: push_bit_eq_mult)
  moreover have "unat (4 * (b AND 0xf)) = 4 * unat (b AND 0xf)"
    using calculation(1) by (simp add: unat_word_ariths)
  ultimately show ?thesis
    by (simp add: ipv4_hdr_len_def)
qed

text \<open>The attributes a module sets besides the values.\<close>

definition same_addrs :: "'b property \<Rightarrow> 'b property \<Rightarrow> bool" where
  "same_addrs p p' \<longleftrightarrow> pr_src_addr p' = pr_src_addr p \<and> pr_dst_addr p' = pr_dst_addr p
     \<and> pr_src_port p' = pr_src_port p \<and> pr_dst_port p' = pr_dst_port p"

lemma same_addrs_trans: "same_frame p p1 \<Longrightarrow> same_addrs p1 p2 \<Longrightarrow> same_addrs p p2"
  by (simp add: same_addrs_def same_frame_def)

definition IPv4_post :: "(nat \<Rightarrow> string) \<Rightarrow> 'b buffer_ops \<Rightarrow> ipv4 \<Rightarrow> mem \<Rightarrow> nat \<Rightarrow> nat \<Rightarrow> nat \<Rightarrow> nat \<Rightarrow> 'b property
    \<Rightarrow> mod_id \<times> payload \<times> 'b property \<Rightarrow> bool" where
  "IPv4_post D ops this m off hl tot len p = (\<lambda>(nxt, pd', p').
     nxt = IPv4_next this (m_pkt m ! (off + 9))
     \<and> payload_inv (length (m_pkt m)) pd' \<and> pl_ptr pd' = off + ipv4_skip hl len
     \<and> pl_length pd' = min (tot - hl) (len - ipv4_skip hl len)
     \<and> adds D m (IPv4_puts this off hl tot len) [] p p'
     \<and> same_addrs (set_dst_addr ops (bslice (off + 16) 4 (m_pkt m)) (set_src_addr ops (bslice (off + 12) 4 (m_pkt m)) p)) p')"

lemma adds_attr_right:
  "adds D m us es (set_src_addr ops a p) p' = adds D m us es p p'"
  "adds D m us es (set_dst_addr ops a p) p' = adds D m us es p p'"
  "adds D m us es (set_src_port w p) p' = adds D m us es p p'"
  "adds D m us es (set_dst_port w p) p' = adds D m us es p p'"
  by (simp_all add: adds_def attr_frame)

lemma property_ok_attr [simp]:
  "property_ok D (set_src_addr ops a p) = property_ok D p" "property_ok D (set_dst_addr ops a p) = property_ok D p"
  "property_ok D (set_src_port w p) = property_ok D p" "property_ok D (set_dst_port w p) = property_ok D p"
  by (simp_all add: property_ok_def attr_frame)

lemma IPv4_body_returns:
  assumes ready: "mod_ready D ipv4_params this" and pd: "payload_inv (length (m_pkt m)) pd" "pl_ptr pd = off + 20"
    "len = 20 + pl_length pd" and p: "property_ok D p"
  shows "returns (IPv4_body ops this m off hl tot pd p) (IPv4_post D ops this m off hl tot len p)"
proof -
  have range: "off + 20 \<le> length (m_pkt m)"
    using pd by (simp add: payload_inv_def)
  show ?thesis
    unfolding IPv4_body_def
  proof (rule returns_bind, rule returns_puts [where m = m and D = D, OF p], goal_cases)
    case 1
    show ?case using ready by (simp add: mod_ready_def)
  next
    case (2 p1)
    show ?case
    proof (intro returns_bind returns_pkt_bytes, goal_cases)
      case 3
      show ?case
      proof (rule returns_puts [where m = m and D = D], goal_cases)
        case (3 p2)
        show ?case
        proof (rule returns_bind, rule returns_mono [OF IPv4_option_returns [OF ready pd(1) adds_wf [OF 3(1)] pd(2,3)]], clarify)
          fix pd3 p3
          assume pd3: "payload_inv (length (m_pkt m)) pd3" "pl_ptr pd3 = off + ipv4_skip hl len"
              "pl_length pd3 = len - ipv4_skip hl len" and
            p3: "adds D m (ipv4_opt_puts this off hl len) [] p2 p3" "same_frame p2 p3"
          have p13: "adds D m ([PSet (mod_param this ''hdr'') (PktPtr off) 20 BIG] @ [PSet (mod_param this ''src'')
              (PktPtr (off + 12)) 4 BIG, PSet (mod_param this ''dst'') (PktPtr (off + 16)) 4 BIG]
              @ ipv4_opt_puts this off hl len) [] p p3"
            by (rule adds_puts [OF 2(1) adds_puts [OF _ p3(1)]]) (use 3(1) in \<open>simp add: adds_attr_right\<close>)
          have frame: "same_addrs (set_dst_addr ops (bslice (off + 16) 4 (m_pkt m)) (set_src_addr ops (bslice (off + 12) 4 (m_pkt m)) p)) p3"
            using 2(2) 3(2) p3(2) by (simp add: same_frame_def same_addrs_def set_dst_addr_def set_src_addr_def)
          show "returns
            (let data_len = tot - hl; pd = snd (payload_shrink data_len pd3)
             in bind_res (property_puts [PSet (mod_param this ''data'') (PktPtr (pl_ptr pd)) (pl_length pd) BIG] p3)
               (\<lambda>prop. bind_res (u8_at m (off + 9)) (\<lambda>proto. Inr (IPv4_next this proto, pd, prop))))
            (IPv4_post D ops this m off hl tot len p)"
            unfolding Let_def
          proof (intro returns_bind returns_puts [where m = m and D = D, OF adds_wf [OF p13]] returns_u8 returns_Inr, goal_cases)
            case (3 p4)
            have "pl_ptr (snd (payload_shrink (tot - hl) pd3)) = pl_ptr pd3"
              by (simp add: payload_shrink_def)
            with adds_puts [OF p13 3(1)] frame 3(2) pd3 show ?case
              by (simp add: IPv4_post_def IPv4_puts_def payload_shrink_inv payload_shrink_length same_addrs_def same_frame_def)
          qed (use ready range in \<open>simp_all add: mod_ready_def\<close>)
        qed
      qed (use 2 adds_wf [OF 2(1)] ready in \<open>simp_all add: mod_ready_def\<close>)
    qed (use range in simp_all)
  qed
qed

lemma IPv4_returns:
  assumes "mod_ready D ipv4_params this" "payload_inv (length (m_pkt m)) pd" "property_ok D p"
    and hl: "hl = 4 * (unat (m_pkt m ! pl_ptr pd) mod 16)" and tot: "tot = pkt_num m (pl_ptr pd + 2) 2"
  shows "returns (IPv4_decode ops this m pd p) (\<lambda>(nxt, pd', p').
    if pl_length pd < 20 then nxt = Module_NONE \<and> pd' = pd \<and> p' = p
    else if tot < hl then nxt = Module_NONE \<and> moved (length (m_pkt m)) 20 pd pd' \<and> p' = p
    else IPv4_post D ops this m (pl_ptr pd) hl tot (pl_length pd) p (nxt, pd', p'))"
  unfolding IPv4_decode_def
proof (rule returns_bind, rule returns_retain [OF assms(2)], goal_cases)
  case 1
  then show ?case by (auto intro!: wp)
next
  case (2 pd1)
  have tot': "unat (ntohs (load_le (bslice (pl_ptr pd + 2) 2 (m_pkt m)))) = tot"
    using 2(5) by (simp add: unat_ntohs_at tot)
  have hl': "unat (ipv4_hdr_len (m_pkt m ! pl_ptr pd)) = hl"
    by (simp add: unat_ipv4_hdr_len hl)
  show ?case
    unfolding prod.case option.case Let_def
  proof (intro returns_bind returns_u8 returns_u16, unfold tot' hl', goal_cases)
    case 3
    have "returns (IPv4_body ops this m (pl_ptr pd) hl tot pd1 p) (IPv4_post D ops this m (pl_ptr pd) hl tot (pl_length pd) p)"
      by (rule IPv4_body_returns) (use assms(1,3) 2 in simp_all)
    with 2 assms(3) show ?case
      by (auto intro!: returns_Inr elim!: returns_mono)
  qed (use 2 in simp_all)
qed

lemma IPv4_post_advance:
  "IPv4_post D ops this m (pl_ptr pd) hl tot len p (nxt, pd', p') \<Longrightarrow> advance D m pd p pd' p'"
  by (auto simp: IPv4_post_def advance_def adds_def)

interpretation ipv4: protocol "IPv4_decode ops" "\<lambda>D. mod_ready D ipv4_params"
  "\<lambda>this. {i4_mod_tcp this, i4_mod_udp this, i4_mod_icmp this}" for ops
proof (unfold_locales, goal_cases)
  case (1 D this m pd p)
  show ?case
    by (rule returns_mono [OF IPv4_returns [OF 1 refl refl]])
      (use 1 in \<open>auto simp: advance_refl IPv4_post_advance adds_advance [OF adds_refl] split: if_splits,
        auto simp: IPv4_post_def IPv4_next_def\<close>)
qed

lemma IPv6_returns:
  assumes "payload_inv (length (m_pkt m)) pd" "property_ok D p"
  shows "returns (IPv6_decode ops this m pd p) (\<lambda>(nxt, pd', p').
    if pl_length pd < 40 then nxt = Module_NONE \<and> pd' = pd \<and> p' = p
    else nxt = (let n = m_pkt m ! (pl_ptr pd + 6)
                in if n = 6 then i6_mod_tcp this else if n = 17 then i6_mod_udp this else Module_NONE)
      \<and> moved (length (m_pkt m)) 40 pd pd' \<and> adds D m [] [] p p'
      \<and> p' = set_dst_addr ops (bslice (pl_ptr pd + 24) 16 (m_pkt m)) (set_src_addr ops (bslice (pl_ptr pd + 8) 16 (m_pkt m)) p))"
  using assms unfolding IPv6_decode_def
  by (auto intro!: wp adds_attr adds_refl simp: Let_def)

interpretation ipv6: protocol "IPv6_decode ops" "\<lambda>D this. True" "\<lambda>this. {i6_mod_tcp this, i6_mod_udp this}" for ops
proof (unfold_locales, goal_cases)
  case (1 D this m pd p)
  show ?case
    by (rule returns_mono [OF IPv6_returns [OF 1(2,3)]])
      (use 1 in \<open>auto simp: Let_def advance_refl intro: adds_advance split: if_splits\<close>)
qed

abbreviation icmp_params :: "string list" where "icmp_params \<equiv> [''type'', ''code'', ''chksum'']"

definition icmp_ready :: "(nat \<Rightarrow> string) \<Rightarrow> pmodule \<Rightarrow> bool" where
  "icmp_ready D this \<longleftrightarrow> mod_ready D icmp_params this \<and> D (pid_of this ''code'') = ''IcmpCode''"

text \<open>The cast succeeds, so the statement is a plain write of the parameter.\<close>

lemma ICMP_code_put:
  assumes "icmp_ready D this" "property_ok D p"
  shows "ICMP_code this hdr t p = property_put (mod_param this ''code'') (IcmpCode_set (hdr + 1) t) p"
proof -
  let ?d = "mod_param this ''code''"
  have d: "0 \<le> df_id ?d" "def_typed D ?d" "D (nat (df_id ?d)) = ''IcmpCode''"
    using assms(1) by (simp_all add: icmp_ready_def mod_ready_def pid_of_def)
  have p: "property_wf p" "typed D p"
    using assms(2) by (simp_all add: property_ok_def)
  obtain v q where q: "retain_value ?d p = Inr (RVal (nat (df_id ?d)) (length (live p (nat (df_id ?d)))), q)" "property_wf q"
      "live q = (live p)(nat (df_id ?d) := live p (nat (df_id ?d)) @ [v])"
    using vt.retain_live [OF p(1) d(1)] by blast
  have "typed D q"
    using retain_value_typed [OF p(2,1) d(2,1)] q(1) by auto
  then show ?thesis
    using q d(3) live_property_obj [OF q(2), of "length (live p (nat (df_id ?d)))" "nat (df_id ?d)"]
      typed_live [OF _ q(2), of D "length (live p (nat (df_id ?d)))" "nat (df_id ?d)"]
    by (simp add: ICMP_code_def property_put_def)
qed

lemma returns_ICMP_code:
  assumes "icmp_ready D this" "property_ok D p"
    "\<And>p'. adds D m [PSet (mod_param this ''code'') (PktPtr (hdr + 1)) 1 BIG] [] p p' \<Longrightarrow> same_frame p p' \<Longrightarrow> Q p'"
  shows "returns (ICMP_code this hdr t p) Q"
proof -
  let ?d = "mod_param this ''code''" and ?f = "IcmpCode_set (hdr + 1) t"
  have d: "0 \<le> df_id ?d" "def_typed D ?d" "D (nat (df_id ?d)) = ''IcmpCode''"
    using assms(1) by (simp_all add: icmp_ready_def mod_ready_def pid_of_def)
  have p: "property_wf p" "typed D p"
    using assms(2) by (simp_all add: property_ok_def)
  obtain v p' where p': "property_put ?d ?f p = Inr p'" "property_wf p'" "same_frame p p'"
      "live p' = (live p)(nat (df_id ?d) := live p (nat (df_id ?d)) @ [?f v])"
    using property_put_live [OF p(1) d(1)] by blast
  have "shown m (?f v) = put_shown m (PSet ?d (PktPtr (hdr + 1)) 1 BIG)"
    by (simp add: shown_def IcmpCode_set_def v_bytes_def value_set_def bslice_opt_def)
  moreover have "typed D p'"
    by (rule property_put_typed [OF p(2,1) d(2,1) p'(1)]) (simp add: d(3) IcmpCode_set_def is_a_def)
  ultimately have "adds D m [PSet ?d (PktPtr (hdr + 1)) 1 BIG] [] p p'"
    using p'(2-4) by (simp add: adds_def property_ok_def view_def emitted_def same_frame_events)
  then show ?thesis
    using assms p' by (simp add: ICMP_code_put returns_def)
qed

definition ICMP_puts :: "pmodule \<Rightarrow> nat \<Rightarrow> put list" where
  "ICMP_puts this hdr =
     [PSet (mod_param this ''type'') (PktPtr hdr) 1 BIG, PSet (mod_param this ''code'') (PktPtr (hdr + 1)) 1 BIG,
      PSet (mod_param this ''chksum'') (PktPtr (hdr + 2)) 2 BIG]"

lemma ICMP_returns:
  assumes ready: "icmp_ready D this" and pd: "payload_inv (length (m_pkt m)) pd" and p: "property_ok D p"
  shows "returns (ICMP_decode this m pd p) (\<lambda>(nxt, pd', p'). nxt = Module_NONE
    \<and> (if pl_length pd < 4 then pd' = pd \<and> p' = p
       else moved (length (m_pkt m)) 4 pd pd' \<and> adds D m (ICMP_puts this (pl_ptr pd)) [] p p'))"
  unfolding ICMP_decode_def
proof (rule returns_bind, rule returns_retain [OF pd], goal_cases)
  case 1
  then show ?case by (auto intro!: wp)
next
  case (2 pd1)
  note pd1 = this
  have params: "0 \<le> df_id (mod_param this n)" "def_typed D (mod_param this n)" if "n \<in> set icmp_params" for n
    using ready that by (auto simp: icmp_ready_def mod_ready_def)
  show ?case
    unfolding prod.case option.case
  proof (rule returns_bind, rule returns_puts [where m = m and D = D, OF p], goal_cases)
    case 1
    show ?case using params by simp
  next
    case (2 p1)
    note p1 = this
    show ?case
    proof (intro returns_bind returns_u8, goal_cases)
      case 2
      show ?case
      proof (rule returns_ICMP_code [OF ready adds_wf [OF p1(1)], where m = m], goal_cases)
        case (1 p2)
        note p2 = adds_puts [OF p1(1) 1(1)]
        show ?case
        proof (rule returns_bind, rule returns_puts [where m = m and D = D, OF adds_wf [OF p2]], goal_cases)
          case (2 p3)
          with adds_puts [OF p2 2(1)] pd1 show ?case by (auto intro!: wp simp: ICMP_puts_def)
        qed (use params in simp)
      qed
    qed (use pd1 in simp)
  qed
qed

interpretation icmp: protocol ICMP_decode icmp_ready "\<lambda>_. {}"
proof (unfold_locales, goal_cases)
  case (1 D this m pd p)
  show ?case
    by (rule returns_mono [OF ICMP_returns [OF 1]])
      (use 1 in \<open>auto simp: advance_refl intro: adds_advance split: if_splits\<close>)
qed

abbreviation udp_params :: "string list" where
  "udp_params \<equiv> [''hdr'', ''src_port'', ''dst_port'', ''length'', ''chksum'']"

lemma UDP_returns:
  assumes "mod_ready D udp_params this" "payload_inv (length (m_pkt m)) pd" "property_ok D p"
  shows "returns (UDP_decode this m pd p) (\<lambda>(nxt, pd', p').
    if pl_length pd < 8 then nxt = Module_NONE \<and> pd' = pd \<and> p' = p
    else let sp = ntohs (load_le (bslice (pl_ptr pd) 2 (m_pkt m)));
             dp = ntohs (load_le (bslice (pl_ptr pd + 2) 2 (m_pkt m)))
      in nxt = UDP_next this sp dp \<and> moved (length (m_pkt m)) 8 pd pd'
        \<and> adds D m (UDP_puts this (pl_ptr pd)) [] p p' \<and> pr_src_port p' = sp \<and> pr_dst_port p' = dp)"
proof -
  have "list_all (put_typed D) (UDP_puts this hdr)" for hdr
    using assms(1) by (simp add: UDP_puts_def mod_ready_def)
  then show ?thesis
    using assms(2,3) unfolding UDP_decode_def
    by (auto intro!: wp returns_puts [where m = m and D = D] simp: Let_def adds_attr_right)
      (simp_all add: same_frame_def set_src_port_def set_dst_port_def)
qed

definition UDP_nexts :: "udp \<Rightarrow> mod_id set" where
  "UDP_nexts this = {ud_mod_dns this, ud_mod_mdns this, ud_mod_dhcp this}"

interpretation udp: protocol UDP_decode "\<lambda>D. mod_ready D udp_params" UDP_nexts
proof (unfold_locales, goal_cases)
  case (1 D this m pd p)
  show ?case
    by (rule returns_mono [OF UDP_returns [OF 1]])
      (use 1 in \<open>auto simp: Let_def UDP_next_def UDP_nexts_def advance_refl adds_advance split: if_splits\<close>)
qed

subsection \<open>Properties\<close>


definition demo_ipv4 :: ipv4 where
  "demo_ipv4 = IPv4_setup (\<lambda>n. int (length n)) (case IPv4_new of Inr m \<Rightarrow> solo m | Inl _ \<Rightarrow> Module_new)"

definition demo_ip_packet :: "byte list" where
  "demo_ip_packet = [0x45, 0, 0, 22, 0, 1, 0, 0, 64, 17, 0, 0, 10, 0, 0, 1, 10, 0, 0, 2, 0xaa, 0xbb, 0, 0]"



definition demo_cut_packet :: "byte list" where
  "demo_cut_packet = [0x46, 0, 0, 30, 0, 1, 0, 0, 64, 17, 0, 0, 10, 0, 0, 1, 10, 0, 0, 2, 7]"


text \<open>
  C24: A UDP header is decoded as RFC 768 lays it out, the ports are also the property's ports, and they select
  the next module: 53 DNS, 5353 mDNS, 67 and 68 DHCP, on either side and in this order.
\<close>

theorem udp_decodes:
  assumes "mod_ready D udp_params this" "payload_inv (length (m_pkt m)) pd" "property_ok D p" "8 \<le> pl_length pd"
    "s = pkt_num m (pl_ptr pd) 2" "d = pkt_num m (pl_ptr pd + 2) 2"
  shows "\<exists>nxt pd' p'. UDP_decode this m pd p = Inr (nxt, pd', p')
    \<and> pl_ptr pd' = pl_ptr pd + 8 \<and> unat (pr_src_port p') = s \<and> unat (pr_dst_port p') = d
    \<and> view m p' (pid_of this ''src_port'') = view m p (pid_of this ''src_port'') @ [Some (bslice (pl_ptr pd) 2 (m_pkt m), BIG)]
    \<and> view m p' (pid_of this ''dst_port'') = view m p (pid_of this ''dst_port'') @ [Some (bslice (pl_ptr pd + 2) 2 (m_pkt m), BIG)]
    \<and> view m p' (pid_of this ''length'') = view m p (pid_of this ''length'') @ [Some (bslice (pl_ptr pd + 4) 2 (m_pkt m), BIG)]
    \<and> view m p' (pid_of this ''chksum'') = view m p (pid_of this ''chksum'') @ [Some (bslice (pl_ptr pd + 6) 2 (m_pkt m), BIG)]
    \<and> nxt = (if 53 \<in> {s, d} then ud_mod_dns this else if 5353 \<in> {s, d} then ud_mod_mdns this
             else if 67 \<in> {s, d} \<or> 68 \<in> {s, d} then ud_mod_dhcp this else Module_NONE)"
proof -
  have r: "pl_ptr pd + 8 \<le> length (m_pkt m)"
    using assms(2,4) by (simp add: payload_inv_def)
  have next_eq: "UDP_next this (ntohs (load_le (bslice (pl_ptr pd) 2 (m_pkt m)))) (ntohs (load_le (bslice (pl_ptr pd + 2) 2 (m_pkt m))))
      = (if 53 \<in> {s, d} then ud_mod_dns this else if 5353 \<in> {s, d} then ud_mod_mdns this
         else if 67 \<in> {s, d} \<or> 68 \<in> {s, d} then ud_mod_dhcp this else Module_NONE)"
    using r by (auto simp: UDP_next_def ntohs_at_eq_iff assms(5,6))
  have views: "view m p' (pid_of this n) = view m p (pid_of this n) @ [Some (bslice (pl_ptr pd + o') 2 (m_pkt m), BIG)]"
    if "adds D m (UDP_puts this (pl_ptr pd)) [] p p'"
      "(n, o') \<in> {(''src_port'', 0), (''dst_port'', 2), (''length'', 4), (''chksum'', 6)}" for p' n o'
    using that r by (auto simp: adds_def emitted_def UDP_puts_def pid_of_eq_iff [OF assms(1)] bslice_opt_def)
  obtain nxt pd' p' where "UDP_decode this m pd p = Inr (nxt, pd', p')" "moved (length (m_pkt m)) 8 pd pd'"
      "adds D m (UDP_puts this (pl_ptr pd)) [] p p'"
      "pr_src_port p' = ntohs (load_le (bslice (pl_ptr pd) 2 (m_pkt m)))"
      "pr_dst_port p' = ntohs (load_le (bslice (pl_ptr pd + 2) 2 (m_pkt m)))"
      "nxt = UDP_next this (pr_src_port p') (pr_dst_port p')"
    using UDP_returns [OF assms(1-3)] assms(4) by (auto simp: returns_def Let_def)
  then show ?thesis
    using r views [of p' "''src_port''" 0] views [of p' "''dst_port''" 2] views [of p' "''length''" 4]
      views [of p' "''chksum''" 6] next_eq
    by (auto simp: moved_def unat_ntohs_at assms(5,6))
qed

definition demo_udp :: udp where
  "demo_udp = UDP_setup (\<lambda>n. int (length n)) (case UDP_new of Inr m \<Rightarrow> solo m | Inl _ \<Rightarrow> Module_new)"

definition demo_udp_packet :: "byte list" where
  "demo_udp_packet = [0x30, 0x39, 0, 53, 0, 8, 0, 0]"

theorem udp_decodes_witness:
  "\<exists>pd' p'. UDP_decode demo_udp (demo_mem demo_udp_packet) (demo_pd demo_udp_packet) demo_prop = Inr (3, pd', p')
     \<and> unat (pr_src_port p') = 12345 \<and> unat (pr_dst_port p') = 53"
proof -
  have "mod_ready (demo_D demo_udp) udp_params demo_udp" "length demo_udp_packet = 8" "ud_mod_dns demo_udp = 3"
      "pkt_num (demo_mem demo_udp_packet) 0 2 = 12345" "pkt_num (demo_mem demo_udp_packet) 2 2 = 53"
    by code_simp+
  then show ?thesis
    using udp_decodes [of "demo_D demo_udp" demo_udp "demo_mem demo_udp_packet" "demo_pd demo_udp_packet" demo_prop
        12345 53] by (auto simp flip: numeral_2_eq_2)
qed

text \<open>
  C26: An ICMP message of at least four bytes gives its type, code and checksum; the cast of the recycled code object
  never fails, and a well-formed property stays well-formed with every object in the class of its parameter.
\<close>

theorem icmp_decodes:
  assumes "icmp_ready D this" "payload_inv (length (m_pkt m)) pd" "property_ok D p" "4 \<le> pl_length pd"
  shows "\<exists>pd' p'. ICMP_decode this m pd p = Inr (Module_NONE, pd', p') \<and> property_ok D p'
    \<and> view m p' (pid_of this ''type'') = view m p (pid_of this ''type'') @ [Some (bslice (pl_ptr pd) 1 (m_pkt m), BIG)]
    \<and> view m p' (pid_of this ''code'') = view m p (pid_of this ''code'') @ [Some (bslice (pl_ptr pd + 1) 1 (m_pkt m), BIG)]
    \<and> view m p' (pid_of this ''chksum'') = view m p (pid_of this ''chksum'') @ [Some (bslice (pl_ptr pd + 2) 2 (m_pkt m), BIG)]"
proof -
  have "mod_ready D icmp_params this"
    using assms(1) by (simp add: icmp_ready_def)
  moreover have "pl_ptr pd + 4 \<le> length (m_pkt m)"
    using assms(2,4) by (simp add: payload_inv_def)
  ultimately show ?thesis
    using ICMP_returns [OF assms(1-3)] assms(4)
    by (elim returns_obtain)
      (auto simp: adds_def emitted_def ICMP_puts_def pid_of_eq_iff bslice_opt_def)
qed

definition demo_icmp :: pmodule where "demo_icmp = solo ICMP_new"

definition demo_icmp_packet :: "byte list" where "demo_icmp_packet = [8, 0, 0x12, 0x34]"

theorem icmp_decodes_witness:
  "\<exists>pd' p'. ICMP_decode demo_icmp (demo_mem demo_icmp_packet) (demo_pd demo_icmp_packet) demo_prop
       = Inr (Module_NONE, pd', p')
     \<and> view (demo_mem demo_icmp_packet) p' (pid_of demo_icmp ''chksum'') = [Some ([0x12, 0x34], BIG)]"
proof -
  have "icmp_ready (demo_D demo_icmp) demo_icmp" "length demo_icmp_packet = 4" "bslice 2 2 demo_icmp_packet = [0x12, 0x34]"
    by code_simp+
  then show ?thesis
    using icmp_decodes [of "demo_D demo_icmp" demo_icmp "demo_mem demo_icmp_packet" "demo_pd demo_icmp_packet" demo_prop]
    by (auto simp flip: numeral_2_eq_2)
qed

lemma live_Cons:
  assumes "live p pid = v # vs"
  shows "pid < length (pr_param p) \<and> pr_param_idx p ! pid > 0 \<and> pr_param p ! pid ! 0 = v"
proof (cases "pid < length (pr_param p)")
  case True
  with assms have t: "take (pr_param_idx p ! pid) (pr_param p ! pid) = v # vs"
    by (simp add: live_def)
  then have "pr_param_idx p ! pid > 0"
    by (cases "pr_param_idx p ! pid") simp_all
  moreover from t have "take (pr_param_idx p ! pid) (pr_param p ! pid) ! 0 = v"
    by simp
  ultimately show ?thesis
    using True by simp
qed (use assms in \<open>simp add: live_def\<close>)

text \<open>
  C30: A minor parameter that is a header field is read lazily and correctly: if the first live value of the major
  parameter points at a header at \<open>off\<close>, reading the minor gives the \<open>n\<close> bytes at \<open>off + k\<close> of the packet, whatever an
  earlier read or an earlier packet left in the storage; the property changes only inside that storage object.
\<close>

theorem minor_field_read:
  assumes "property_wf p" "k_def key = Some (KMinor parent d)" "mn_defer d = defer_field k n"
    "live p (nat (k_id key)) = v # vs" "0 \<le> k_id key" "v_cls v = VStorage st" "v_active v" "v_ptr v = PktPtr off"
    "df_minors parent = Some ms" "nat (mn_minor_id d) < length ms" "st = [] \<or> length st = length ms"
    "off + k + n \<le> length (m_pkt m)"
  shows "\<exists>w p'. property_value m key p = Inr (w, p') \<and> shown m w = Some (bslice (off + k) n (m_pkt m), BIG)
    \<and> same_frame p p'"
proof -
  let ?pid = "nat (k_id key)"
  have pid: "?pid < length (pr_param p)" "pr_param_idx p ! ?pid > 0" "pr_param p ! ?pid ! 0 = v"
    using live_Cons [OF assms(4)] by blast+
  have "length (pr_param_idx p) = length (pr_param p)"
    using assms(1) by (simp add: property_wf_def)
  then have cnt: "param_count (k_id key) p = Inr (pr_param_idx p ! ?pid)"
    using pid assms(5) by (simp add: param_count_def)
  have get: "\<exists>w. storage_get (if st = [] then storage_resize (length ms) st else st) (nat (mn_minor_id d)) = Inr w"
    using assms(10,11) by (auto simp: storage_get_def storage_resize_def)
  have "shown m (bvalue.extend (value_set (PktPtr (off + k)) n BIG (w :: bvalue)) \<lparr>v_cls = VPlain\<rparr>)
      = Some (bslice (off + k) n (m_pkt m), BIG)" for w
    using assms(12) by (simp add: shown_def v_bytes_def value_set_def bvalue.defs bslice_opt_def)
  then show ?thesis
    using get pid cnt assms(2,3,6-9) vt.upd_frame [of p "RVal ?pid 0"]
    by (auto simp: property_value_def Let_def defer_field_def)
qed

definition demo_minor_prop :: "byte list property" where
  "demo_minor_prop = demo_prop\<lparr>pr_param := [[bvalue.extend (value_set (PktPtr 0) 20 BIG Value_new) \<lparr>v_cls = VStorage []\<rparr>]],
     pr_param_idx := [1]\<rparr>"

definition demo_minor_key :: pkey where
  "demo_minor_key =
     (let d = (MajorParamDef_new ''hdr'')\<lparr>df_id := 0, df_minors := Some [(''ttl'', MinorParamDef_new ''ttl'' (defer_field 8 1))]\<rparr>
      in \<lparr>k_id = 0, k_def = Some (KMinor d ((MinorParamDef_new ''ttl'' (defer_field 8 1))\<lparr>mn_minor_id := 0\<rparr>))\<rparr>)"

theorem minor_field_read_witness:
  "\<exists>w p'. property_value (demo_mem demo_ip_packet) demo_minor_key demo_minor_prop = Inr (w, p')
     \<and> shown (demo_mem demo_ip_packet) w = Some ([64], BIG)"
proof -
  let ?d = "MinorParamDef_new ''ttl'' (defer_field 8 1)"
  let ?v = "bvalue.extend (value_set (PktPtr 0) 20 BIG Value_new) \<lparr>v_cls = VStorage []\<rparr>"
  have "bslice 8 1 demo_ip_packet = [64]" "length demo_ip_packet = 24"
    by code_simp+
  moreover have "property_wf demo_minor_prop" "live demo_minor_prop 0 = [?v]"
    by (simp_all add: demo_minor_prop_def property_wf_def live_def demo_prop_def property_init_def Property_new_def)
  ultimately show ?thesis
    using minor_field_read [of demo_minor_prop demo_minor_key
        "(MajorParamDef_new ''hdr'')\<lparr>df_id := 0, df_minors := Some [(''ttl'', ?d)]\<rparr>" "?d\<lparr>mn_minor_id := 0\<rparr>" 8 1 ?v "[]" "[]" 0
        "[(''ttl'', ?d)]" "demo_mem demo_ip_packet"]
    by (simp add: demo_minor_key_def Let_def MinorParamDef_new_def bvalue.defs value_set_def) blast
qed

text \<open>
  The minor \<^verbatim>\<open>IPv6.hdr.version\<close> does not read back as the version: the number is computed in host order and stored as
  if it were big-endian, so on a little-endian host the version nibble \<open>k\<close> reads as \<open>k * 2^24\<close>.
\<close>

theorem ipv6_version_misread:
  "value_uint64 m (value_cpy (ipv6_flag_bits 0xf0000000 28 [b0, b1, b2, b3]) BIG (v :: bvalue))
     = Inr (Some (of_nat (unat b0 div 16 * 2 ^ 24)))"
proof -
  let ?w = "drop_bit 28 (ntohl (load_le [b0, b1, b2, b3]) AND 0xf0000000) :: 32 word"
  have high: "8 \<le> n \<Longrightarrow> \<not> bit b0 n" for n
    using bit_imp_le_length [of b0 n] by auto
  have "?w = ucast (drop_bit 4 b0)"
  proof (rule bit_word_eqI)
    fix n assume "n < LENGTH(32)"
    then have "n \<in> set [0..<32]" by simp
    then show "bit ?w n = bit (ucast (drop_bit 4 b0) :: 32 word) n"
      by (simp add: upt_conv_Cons)
        (elim disjE; simp add: ntohl_load_le bit_simps bit_load_le high flip: numeral_2_eq_2)
  qed
  moreover have "unat (ucast (drop_bit 4 b0) :: 32 word) = unat b0 div 16"
    using byte_less [of b0]
    by (simp add: unsigned_ucast_eq unsigned_drop_bit_eq drop_bit_eq_div take_bit_nat_eq_self_iff unat_div
        take_bit_nat_eq_self)
  ultimately have w: "unat ?w = unat b0 div 16"
    by (simp only:)
  have less: "unat b0 div 16 < 256"
    using byte_less [of b0] by simp
  have "store_le (Suc (Suc (Suc (Suc 0)))) (unat b0 div 16) = [of_nat (unat b0 div 16), 0, 0, 0]"
    using less by simp
  then have "ipv6_flag_bits 0xf0000000 28 [b0, b1, b2, b3] = [of_nat (unat b0 div 16), 0, 0, 0]"
    unfolding ipv6_flag_bits_def w by (simp flip: numeral_2_eq_2)
  moreover have "le_nat [0, 0, 0, of_nat (unat b0 div 16)] = unat b0 div 16 * 2 ^ 24"
    using less by (simp add: unat_of_nat)
  moreover have "ucast (load_le bs :: 32 word) = (of_nat (le_nat bs) :: 64 word)" if "length bs = 4" for bs
  proof -
    have "unat (load_le bs :: 32 word) = le_nat bs"
      by (rule unat_load_le) (simp add: that)
    then show ?thesis by (metis of_nat_unat)
  qed
  ultimately show ?thesis
    by (simp add: value_uint64_def is_uint_def ntohl_load_le Let_def del: le_nat.simps of_nat_mult)
qed

end
