(* ===== verification/PM_Registry.thy ===== *)
theory PM_Registry
  imports PM_Proto
begin

text \<open>
  What \<^verbatim>\<open>Decoder::init\<close> of \<^verbatim>\<open>src/decoder.cc\<close> establishes for the protocol modules: every parameter that a module defined has an id
  of its own, and the decoder's table has the definition under that id. This is the hypothesis \<open>mod_ready\<close> of
  the module proofs, for the table's classes.
\<close>

subsection \<open>Numbering\<close>

lemma add_params_result:
  "add_params m ps dec = (ps', dec') \<Longrightarrow>
     map fst ps' = map fst ps \<and> dc_params dec' = dc_params dec @ map snd ps' \<and> dc_modules dec' = dc_modules dec
     \<and> map (df_id \<circ> snd) ps' = map int [length (dc_params dec)..<length (dc_params dec) + length ps]
     \<and> map (df_cons \<circ> snd) ps' = map (df_cons \<circ> snd) ps"
proof (induction m ps dec arbitrary: ps' dec' rule: add_params.induct)
  case (2 m k d ps dec)
  let ?d = "param_finalize (mo_id m) (int (length (dc_params dec))) (mo_name m) d"
  obtain qs dec1 where q: "add_params m ps (add_param ?d dec) = (qs, dec1)"
    by fastforce
  then have eq: "ps' = (k, ?d) # qs" "dec' = dec1"
    using 2(2) by (simp_all add: Let_def)
  have "[length (dc_params dec)..<length (dc_params dec) + length ((k, d) # ps)]
      = length (dc_params dec) # [Suc (length (dc_params dec))..<length (dc_params dec) + Suc (length ps)]"
    using upt_conv_Cons [of "length (dc_params dec)" "length (dc_params dec) + length ((k, d) # ps)"] by (simp del: upt_Suc)
  then show ?case
    using 2(1) [OF refl q] by (simp add: eq add_param_def del: upt_Suc)
qed simp

lemma add_events_frame: "add_events m es dec = (es', dec') \<Longrightarrow> dc_params dec' = dc_params dec \<and> dc_modules dec' = dc_modules dec"
proof (induction m es dec arbitrary: es' dec' rule: add_events.induct)
  case (2 m k d es dec)
  obtain qs dec1 where "add_events m es (add_event (event_finalize (mo_id m) (int (length (dc_events dec))) (mo_name m) k d) dec)
      = (qs, dec1)"
    by fastforce
  with 2 show ?case by (auto simp: Let_def add_event_def)
qed simp

lemma add_configs_frame: "add_configs m cs dec = (cs', dec') \<Longrightarrow> dc_params dec' = dc_params dec \<and> dc_modules dec' = dc_modules dec"
proof (induction m cs dec arbitrary: cs' dec' rule: add_configs.induct)
  case (2 m k d cs dec)
  let ?d = "config_finalize (mo_id m) (mo_name m) d"
  obtain qs dec1 where "add_configs m cs (dec\<lparr>dc_config_map := smap_insert (cd_name ?d) ?d (dc_config_map dec)\<rparr>) = (qs, dec1)"
    by fastforce
  with 2 show ?case by (auto simp: Let_def)
qed simp

text \<open>Module \<open>j\<close> has been finalised: its definitions are those of the decoder's table, each with an id of its own, and keep the
  names and classes \<open>ps0\<close> that the constructor gave them.\<close>

definition placed :: "decoder \<Rightarrow> (string, pdef) smap \<Rightarrow> nat \<Rightarrow> bool" where
  "placed dec ps0 j \<longleftrightarrow>
     (let ps = mo_param_map (dc_modules dec ! j)
      in map fst ps = map fst ps0 \<and> map (df_cons \<circ> snd) ps = map (df_cons \<circ> snd) ps0 \<and> distinct (map (df_id \<circ> snd) ps)
         \<and> (\<forall>d \<in> snd ` set ps. 0 \<le> df_id d \<and> nat (df_id d) < length (dc_params dec) \<and> dc_params dec ! nat (df_id d) = d))"

lemma finalize_module_placed:
  assumes "i < length (dc_modules dec)"
  shows "placed (finalize_module i dec) (mo_param_map (dc_modules dec ! i)) i"
    "length (dc_modules (finalize_module i dec)) = length (dc_modules dec)"
    "j \<noteq> i \<Longrightarrow> dc_modules (finalize_module i dec) ! j = dc_modules dec ! j"
    "j \<noteq> i \<Longrightarrow> placed dec ps0 j \<Longrightarrow> placed (finalize_module i dec) ps0 j"
proof -
  let ?m = "dc_modules dec ! i"
  obtain ps dec1 where p: "add_params ?m (mo_param_map ?m) dec = (ps, dec1)" by fastforce
  obtain es dec2 where e: "add_events ?m (mo_event_map ?m) dec1 = (es, dec2)" by fastforce
  obtain cs dec3 where c: "add_configs ?m (mo_config_map ?m) dec2 = (cs, dec3)" by fastforce
  have fin: "finalize_module i dec =
      dec3\<lparr>dc_modules := (dc_modules dec3)[i := ?m\<lparr>mo_param_map := ps, mo_event_map := es, mo_config_map := cs\<rparr>]\<rparr>"
    using p e c by (simp add: finalize_module_def Let_def)
  note r = add_params_result [OF p]
  have d3: "dc_params dec3 = dc_params dec @ map snd ps" "dc_modules dec3 = dc_modules dec"
    using r add_events_frame [OF e] add_configs_frame [OF c] by simp_all
  have ids: "df_id (snd (ps ! l)) = int (length (dc_params dec) + l)" if "l < length ps" for l
  proof -
    have "map (df_id \<circ> snd) ps ! l = map int [length (dc_params dec)..<length (dc_params dec) + length ps] ! l"
      using r by (metis length_map)
    then show ?thesis using that by simp
  qed
  have "distinct (map (df_id \<circ> snd) ps)"
    using r by (simp add: distinct_map)
  moreover have "0 \<le> df_id d \<and> nat (df_id d) < length (dc_params dec3) \<and> dc_params dec3 ! nat (df_id d) = d"
    if d: "d \<in> snd ` set ps" for d
  proof -
    obtain e where "e \<in> set ps" "d = snd e"
      using d by blast
    then obtain l where "l < length ps" "d = snd (ps ! l)"
      by (auto simp only: in_set_conv_nth)
    then show ?thesis
      using ids [of l] by (simp add: d3 nth_append nat_add_distrib)
  qed
  ultimately show "placed (finalize_module i dec) (mo_param_map ?m) i"
    using r assms by (simp add: placed_def fin d3(2))
  show "length (dc_modules (finalize_module i dec)) = length (dc_modules dec)"
    by (simp add: fin d3(2))
  show "j \<noteq> i \<Longrightarrow> dc_modules (finalize_module i dec) ! j = dc_modules dec ! j"
    by (simp add: fin d3(2))
  show "j \<noteq> i \<Longrightarrow> placed dec ps0 j \<Longrightarrow> placed (finalize_module i dec) ps0 j"
    by (auto simp: placed_def Let_def fin d3 nth_append)
qed

lemma finalize_modules_placed:
  assumes "j < length (dc_modules dec)"
  shows "placed (finalize_modules dec) (mo_param_map (dc_modules dec ! j)) j"
proof -
  have "length (dc_modules (fold finalize_module [0..<i] dec)) = length (dc_modules dec)
      \<and> (\<forall>l. i \<le> l \<longrightarrow> dc_modules (fold finalize_module [0..<i] dec) ! l = dc_modules dec ! l)
      \<and> (\<forall>l < i. placed (fold finalize_module [0..<i] dec) (mo_param_map (dc_modules dec ! l)) l)"
    if "i \<le> length (dc_modules dec)" for i
    using that
  proof (induction i)
    case (Suc i)
    let ?dec = "fold finalize_module [0..<i] dec"
    have i: "i < length (dc_modules ?dec)"
      using Suc by simp
    note fp = finalize_module_placed [OF i]
    have "dc_modules ?dec ! i = dc_modules dec ! i"
      using Suc by simp
    then show ?case
      using Suc fp by (auto simp: less_Suc_eq)
  qed simp
  then show ?thesis
    using assms by (simp add: finalize_modules_def)
qed

definition table_class :: "decoder \<Rightarrow> nat \<Rightarrow> string" where
  "table_class dec pid = (if pid < length (dc_params dec) then class_name (df_cons (dc_params dec ! pid)) else [])"

lemma placed_ready:
  assumes "placed dec ps0 j" "distinct names" "set names \<subseteq> fst ` set ps0" "list_all (\<lambda>e. cls_wf (df_cons (snd e))) ps0"
  shows "mod_ready (table_class dec) names (dc_modules dec ! j)"
proof -
  let ?m = "dc_modules dec ! j"
  let ?ps = "mo_param_map ?m"
  have ps: "map fst ?ps = map fst ps0" "distinct (map (df_id \<circ> snd) ?ps)"
    "\<And>d. d \<in> snd ` set ?ps \<Longrightarrow> 0 \<le> df_id d \<and> nat (df_id d) < length (dc_params dec) \<and> dc_params dec ! nat (df_id d) = d"
    using assms(1) by (auto simp: placed_def Let_def)
  have keys: "fst ` set ?ps = fst ` set ps0"
    using ps(1) by (metis list.set_map)
  have find: "(n, mod_param ?m n) \<in> set ?ps" if "n \<in> set names" for n
  proof -
    have "n \<in> fst ` set ?ps" using that assms(3) keys by blast
    then obtain d where "map_of ?ps n = Some d"
      by (metis map_of_eq_None_iff not_None_eq)
    then show ?thesis
      by (simp add: mod_param_def smap_find_def map_of_SomeD)
  qed
  have cls: "cls_wf (df_cons d)" if "d \<in> snd ` set ?ps" for d
  proof -
    have "set (map (df_cons \<circ> snd) ?ps) = set (map (df_cons \<circ> snd) ps0)"
      using assms(1) by (simp add: placed_def Let_def del: set_map)
    moreover have "df_cons d \<in> set (map (df_cons \<circ> snd) ?ps)"
      using that by force
    ultimately show ?thesis
      using assms(4) by (auto simp: list_all_iff)
  qed
  have "0 \<le> df_id (mod_param ?m n) \<and> def_typed (table_class dec) (mod_param ?m n)" if "n \<in> set names" for n
  proof -
    have "mod_param ?m n \<in> snd ` set ?ps"
      using find [OF that] by force
    then show ?thesis
      using ps(3) [of "mod_param ?m n"] cls by (simp add: def_typed_def is_a_def table_class_def)
  qed
  moreover have "inj_on (\<lambda>n. df_id (mod_param ?m n)) (set names)"
  proof (rule inj_onI)
    fix a b assume "a \<in> set names" "b \<in> set names" "df_id (mod_param ?m a) = df_id (mod_param ?m b)"
    moreover have "inj_on (df_id \<circ> snd) (set ?ps)"
      using ps(2) by (simp add: distinct_map)
    ultimately have "(a, mod_param ?m a) = (b, mod_param ?m b)"
      using find [of a] find [of b] by (intro inj_onD [of "df_id \<circ> snd"]) auto
    then show "a = b" by simp
  qed
  ultimately show ?thesis
    using assms(2) by (simp add: mod_ready_def distinct_map)
qed

lemma map_of_same_cons:
  "map fst ps = map fst ps0 \<Longrightarrow> map (df_cons \<circ> snd) ps = map (df_cons \<circ> snd) ps0 \<Longrightarrow>
     map_option df_cons (map_of ps n) = map_option df_cons (map_of ps0 n)"
  by (induction ps ps0 rule: list_induct2') auto

lemma placed_class:
  assumes "placed dec ps0 j" "map_of ps0 n = Some d0"
  shows "df_cons (mod_param (dc_modules dec ! j) n) = df_cons d0"
proof -
  let ?ps = "mo_param_map (dc_modules dec ! j)"
  have "map fst ?ps = map fst ps0" "map (df_cons \<circ> snd) ?ps = map (df_cons \<circ> snd) ps0"
    using assms(1) by (auto simp: placed_def Let_def)
  then have "map_option df_cons (map_of ?ps n) = map_option df_cons (map_of ps0 n)"
    by (rule map_of_same_cons)
  then show ?thesis
    using assms(2) by (auto simp: mod_param_def smap_find_def)
qed

subsection \<open>Modules that are alone\<close>

lemma solo_ready:
  assumes "distinct names" "set names \<subseteq> fst ` set (mo_param_map m)"
    "list_all (\<lambda>e. cls_wf (df_cons (snd e))) (mo_param_map m)"
  shows "mod_ready (demo_D (solo m)) names (solo m)"
proof -
  let ?dec = "finalize_modules (Decoder_new\<lparr>dc_modules := [m]\<rparr>)"
  have pl: "placed ?dec (mo_param_map m) 0"
    using finalize_modules_placed [of 0 "Decoder_new\<lparr>dc_modules := [m]\<rparr>"] by simp
  obtain ps dec1 where p: "add_params m (mo_param_map m) (Decoder_new\<lparr>dc_modules := [m]\<rparr>) = (ps, dec1)" by fastforce
  obtain es dec2 where e: "add_events m (mo_event_map m) dec1 = (es, dec2)" by fastforce
  obtain cs dec3 where c: "add_configs m (mo_config_map m) dec2 = (cs, dec3)" by fastforce
  have "dc_params ?dec = map snd ps" "mo_param_map (solo m) = ps"
    using p e c add_params_result [OF p] add_events_frame [OF e] add_configs_frame [OF c]
    by (simp_all add: finalize_modules_def finalize_module_def solo_def Decoder_new_def)
  then have "table_class ?dec = demo_D (solo m)"
    by (simp add: table_class_def demo_D_def fun_eq_iff)
  then show ?thesis
    using placed_ready [OF pl assms] by (simp add: solo_def)
qed

lemma same_params:
  assumes "mo_param_map a = mo_param_map b"
  shows "mod_param a = mod_param b" "mod_ready D names a = mod_ready D names b" "demo_D a = demo_D b"
proof -
  show par: "mod_param a = mod_param b"
    using assms by (simp add: mod_param_def fun_eq_iff)
  then show "mod_ready D names a = mod_ready D names b"
    by (simp add: mod_ready_def)
  show "demo_D a = demo_D b"
    using assms by (simp add: demo_D_def fun_eq_iff)
qed

end
