(* ===== verification/PM_TCP.thy ===== *)
theory PM_TCP
  imports PM_Reassembly PM_Net PM_Registry "HOL-Library.Multiset"
begin

text \<open>
  The module \<^verbatim>\<open>TCP\<close> of \<^verbatim>\<open>src/modules/tcp.cc\<close> around its sessions: header parameters, the key of a connection, the table of
  sessions and their expiry. \<^verbatim>\<open>tb::LruHash\<close> and \<^verbatim>\<open>tb::HashKey\<close> of the cpp-toolbox submodule are parameters
  (\<open>lru_ops\<close>); a \<^verbatim>\<open>Session*\<close> is an address in \<open>tc_heap\<close>, so that using or deleting a session twice is an error
  of the model.
\<close>

subsection \<open>State\<close>

record ('t, 'k) lru_ops =
  lr_new :: "nat \<Rightarrow> nat \<Rightarrow> 't"
  lr_get :: "'k \<Rightarrow> 't \<Rightarrow> nat option \<times> 't"
  lr_put :: "int \<Rightarrow> 'k \<Rightarrow> nat \<Rightarrow> 't \<Rightarrow> 't"
  lr_step :: "int \<Rightarrow> 't \<Rightarrow> 't"
  lr_has_expired :: "'t \<Rightarrow> bool"
  lr_pop_expired :: "'t \<Rightarrow> nat \<times> 't"
  lr_wipe :: "'t \<Rightarrow> 't"
  lr_key :: "nat \<Rightarrow> byte list list \<Rightarrow> 'k"

record ('t, 'b) tcp = pmodule +
  tc_ssn_count :: "64 word"
  tc_curr_ts :: int
  tc_init_ts :: bool
  tc_table :: 't
  tc_enable :: bool
  tc_timeout :: int
  tc_heap :: "nat \<Rightarrow> 'b session option"
  tc_brk :: nat

subsection \<open>Construction\<close>

definition tcp_offset :: "byte \<Rightarrow> byte" where
  "tcp_offset b = drop_bit 2 (b AND 0xf0)"

definition tcp_flag :: "byte \<Rightarrow> byte list \<Rightarrow> byte list" where
  "tcp_flag flag bs = [if load_le bs AND flag > 0 then 1 else 0]"

definition tcp_minors :: "(string \<times> deferred) list" where
  "tcp_minors =
     [(''offset'', defer_cpy 12 1 (\<lambda>bs. [tcp_offset (load_le bs)])),
      (''seq'', defer_field 4 4), (''ack'', defer_field 8 4), (''flags'', defer_field 13 1),
      (''window'', defer_field 14 2), (''chksum'', defer_field 16 2), (''urgptr'', defer_field 18 2),
      (''flag_fin'', defer_cpy 13 1 (tcp_flag FIN)), (''flag_syn'', defer_cpy 13 1 (tcp_flag SYN)),
      (''flag_rst'', defer_cpy 13 1 (tcp_flag RST)), (''flag_push'', defer_cpy 13 1 (tcp_flag PUSH)),
      (''flag_ack'', defer_cpy 13 1 (tcp_flag ACK)), (''flag_urg'', defer_cpy 13 1 (tcp_flag URG)),
      (''flag_ece'', defer_cpy 13 1 (tcp_flag ECE)), (''flag_cwr'', defer_cpy 13 1 (tcp_flag CWR))]"

definition TCP_new :: "pmodule res" where
  "TCP_new =
     bind_res (define_major_param ''hdr''
       (define_param ''id'' VPlain (define_param ''dst_port'' VPortNumber
         (define_param ''src_port'' VPortNumber Module_new)))) (\<lambda>m.
     bind_res (define_minors ''hdr'' tcp_minors m) (\<lambda>m.
     bind_res (define_event ''new_session''
       (define_param ''tx_client'' VPlain (define_param ''tx_server'' VPlain (define_param ''rtt_3wh'' VPlain
         (define_param ''data'' VPlain (define_param ''segment'' VPlain (define_param ''optdata'' VPlain m))))))) (\<lambda>m.
     bind_res (define_event ''established'' m) (\<lambda>m.
     bind_res (define_event ''closed'' m) (\<lambda>m.
     bind_res (define_config ''enable_session_mgmt'' (Some (CBool ''enable_session_mgmt'' True)) m) (\<lambda>m.
     bind_res (define_config ''session_table_size'' (Some (CInt ''session_table_size'' 65521)) m) (\<lambda>m.
       define_config ''session_timeout'' (Some (CInt ''session_timeout'' 300)) m)))))))"

text \<open>\<^verbatim>\<open>setup\<close>; the counters are those of the constructor.\<close>

definition TCP_setup :: "('t, 'k) lru_ops \<Rightarrow> config \<Rightarrow> pmodule \<Rightarrow> ('t, 'b) tcp res" where
  "TCP_setup L config m =
     bind_res (bind_res (config_get ''session_table_size'' config) as_int) (\<lambda>sz.
     bind_res (bind_res (config_get ''enable_session_mgmt'' config) as_bool) (\<lambda>enable.
     bind_res (bind_res (config_get ''session_timeout'' config) as_int) (\<lambda>timeout.
       Inr (pmodule.extend m
         \<lparr>tc_ssn_count = 0, tc_curr_ts = 0, tc_init_ts = False, tc_table = lr_new L 3600 (unat (word_of_int sz :: 64 word)), tc_enable = enable,
          tc_timeout = timeout, tc_heap = (\<lambda>_. None), tc_brk = 0\<rparr>))))"

subsection \<open>Key of a connection\<close>

text \<open>The sign of \<^verbatim>\<open>memcmp\<close>.\<close>

fun memcmp :: "byte list \<Rightarrow> byte list \<Rightarrow> int" where
  "memcmp (a # as) (b # bs) = (if a < b then -1 else if b < a then 1 else memcmp as bs)"
| "memcmp _ _ = 0"

text \<open>What \<^verbatim>\<open>make_key\<close> appends to the key, in order.\<close>

definition key_parts :: "byte list \<Rightarrow> 16 word \<Rightarrow> byte list \<Rightarrow> 16 word \<Rightarrow> byte list list" where
  "key_parts src sport dst dport =
     (if memcmp src dst > 0 \<or> (memcmp src dst = 0 \<and> sport > dport)
      then [src, store_le 2 (unat sport), dst, store_le 2 (unat dport)]
      else [dst, store_le 2 (unat dport), src, store_le 2 (unat sport)])"

definition make_key :: "('t, 'k) lru_ops \<Rightarrow> 'b buffer_ops \<Rightarrow> 'b property \<Rightarrow> 'k res" where
  "make_key L ops p =
     (let src = tb_bytes ops (pr_src_addr p); dst = tb_bytes ops (pr_dst_addr p)
      in if length src \<noteq> length dst then Inl AssertFailed
         else Inr (lr_key L (length src + length dst + 2 + 2) (key_parts src (pr_src_port p) dst (pr_dst_port p))))"

subsection \<open>Decoding\<close>

definition set_properties ::
  "('t, 'b) tcp \<Rightarrow> mem \<Rightarrow> nat \<Rightarrow> payload \<Rightarrow> 'b property \<Rightarrow> (bool \<times> payload \<times> 'b property) res" where
  "set_properties this m hdr pd prop =
     bind_res (u16_at m hdr) (\<lambda>sp.
     bind_res (u16_at m (hdr + 2)) (\<lambda>dp.
     bind_res (property_puts
         [PSet (mod_param this ''src_port'') (PktPtr hdr) 2 BIG,
          PSet (mod_param this ''dst_port'') (PktPtr (hdr + 2)) 2 BIG,
          PSet (mod_param this ''hdr'') (PktPtr hdr) 20 BIG]
         (set_dst_port (ntohs dp) (set_src_port (ntohs sp) prop))) (\<lambda>prop.
     bind_res (u8_at m (hdr + 12)) (\<lambda>b.
       let optlen = ucast (tcp_offset b) - 20 :: 64 word
       in if optlen > 0 then
            bind_res (payload_retain (unat optlen) pd) (\<lambda>(opt, pd).
              case opt of
                None \<Rightarrow> Inr (False, pd, prop)
              | Some q \<Rightarrow>
                  bind_res (property_puts [PSet (mod_param this ''optdata'') (PktPtr q) (unat optlen) BIG] prop) (\<lambda>prop.
                    Inr (True, pd, prop)))
          else Inr (True, pd, prop)))))"

definition tcp_segment :: "('t, 'b) tcp \<Rightarrow> payload \<Rightarrow> 'b property \<Rightarrow> (ptr \<times> payload \<times> 'b property) res" where
  "tcp_segment this pd prop =
     (if pl_length pd > 0 then
        bind_res (payload_retain (pl_length pd) pd) (\<lambda>(r, pd').
          let seg_ptr = (case r of None \<Rightarrow> NullPtr | Some q \<Rightarrow> PktPtr q)
          in bind_res (property_puts [PSet (mod_param this ''segment'') seg_ptr (pl_length pd) BIG] prop) (\<lambda>prop.
               Inr (seg_ptr, pd', prop)))
      else Inr (NullPtr, pd, prop))"

definition delete_session :: "nat \<Rightarrow> ('t, 'b) tcp \<Rightarrow> ('t, 'b) tcp res" where
  "delete_session q this =
     (case tc_heap this q of
        None \<Rightarrow> Inl UndefinedBehaviour
      | Some _ \<Rightarrow> Inr (this\<lparr>tc_heap := (tc_heap this)(q := None)\<rparr>))"

text \<open>The loop over the expired sessions; \<open>None\<close>: it does not end.\<close>

partial_function (option) expire_sessions :: "('t, 'k) lru_ops \<Rightarrow> ('t, 'b) tcp \<Rightarrow> ('t, 'b) tcp res option" where
  "expire_sessions L this =
     (if lr_has_expired L (tc_table this) then
        (case lr_pop_expired L (tc_table this) of
           (q, t) \<Rightarrow>
             (case delete_session q (this\<lparr>tc_table := t\<rparr>) of
                Inl e \<Rightarrow> Some (Inl e)
              | Inr this \<Rightarrow> expire_sessions L this))
      else Some (Inr this))"

definition tcp_clock :: "('t, 'k) lru_ops \<Rightarrow> int \<Rightarrow> ('t, 'b) tcp \<Rightarrow> ('t, 'b) tcp" where
  "tcp_clock L ts this =
     (if tc_curr_ts this < ts then
        let dif = ts - tc_curr_ts this;
            this = this\<lparr>tc_curr_ts := ts\<rparr>
        in if tc_init_ts this then this\<lparr>tc_table := lr_step L dif (tc_table this)\<rparr>
           else this\<lparr>tc_init_ts := True\<rparr>
      else this)"

definition search_session ::
  "('t, 'k) lru_ops \<Rightarrow> 'b buffer_ops \<Rightarrow> 'k \<Rightarrow> ('t, 'b) tcp \<Rightarrow> 'b property \<Rightarrow> nat \<times> ('t, 'b) tcp \<times> 'b property" where
  "search_session L ops key this prop =
     (case lr_get L key (tc_table this) of
        (node, t) \<Rightarrow>
          let this = this\<lparr>tc_table := t\<rparr>
          in (case node of
                Some q \<Rightarrow> (q, this, prop)
              | None \<Rightarrow>
                  let this = this\<lparr>tc_ssn_count := tc_ssn_count this + 1\<rparr>;
                      q = tc_brk this;
                      this = this\<lparr>tc_heap := (tc_heap this)(q \<mapsto> Session_new ops prop (tc_ssn_count this)), tc_brk := q + 1\<rparr>;
                      this = this\<lparr>tc_table := lr_put L (tc_timeout this) key q (tc_table this)\<rparr>
                  in (q, this, push_event (mod_ev this ''new_session'') prop)))"

definition tcp_session ::
  "('t, 'k) lru_ops \<Rightarrow> 'b buffer_ops \<Rightarrow> mem \<Rightarrow> nat \<Rightarrow> ptr \<Rightarrow> nat \<Rightarrow> ('t, 'b) tcp \<Rightarrow> 'b property
     \<Rightarrow> (('t, 'b) tcp \<times> 'b property) res option" where
  "tcp_session L ops m hdr seg_ptr seg_len this prop =
     bind_opt (Some (property_ts prop)) (\<lambda>ts.
     bind_opt (expire_sessions L (tcp_clock L ts this)) (\<lambda>this.
     bind_opt (Some (make_key L ops prop)) (\<lambda>key.
       case search_session L ops key this prop of
         (q, this, prop) \<Rightarrow>
           (case tc_heap this q of
              None \<Rightarrow> Some (Inl UndefinedBehaviour)
            | Some ssn \<Rightarrow>
                bind_opt (Some (u8_at m (hdr + 13))) (\<lambda>fl.
                bind_opt (Some (u32_at m (hdr + 4))) (\<lambda>seq.
                bind_opt (Some (u32_at m (hdr + 8))) (\<lambda>ack.
                bind_opt (Some (u16_at m (hdr + 14))) (\<lambda>win.
                bind_opt (Some (property_puts [PCpy (mod_param this ''id'') (store_le 8 (unat (ss_id ssn))) BIG] prop)) (\<lambda>prop.
                bind_opt (Some (ptr_bytes m seg_ptr 0 seg_len)) (\<lambda>data.
                bind_opt (Session_decode ops this (fl AND (FIN OR SYN OR RST OR ACK)) (ntohl seq) (ntohl ack) data seg_ptr (ntohs win)
                    ssn prop) (\<lambda>(ssn, prop).
                  Some (Inr (this\<lparr>tc_heap := (tc_heap this)(q \<mapsto> ssn)\<rparr>, prop)))))))))))))"

definition TCP_decode ::
  "('t, 'k) lru_ops \<Rightarrow> 'b buffer_ops \<Rightarrow> ('t, 'b) tcp \<Rightarrow> mem \<Rightarrow> payload \<Rightarrow> 'b property
     \<Rightarrow> (mod_id \<times> ('t, 'b) tcp \<times> payload \<times> 'b property) res option" where
  "TCP_decode L ops this m pd prop =
     bind_opt (Some (payload_retain 20 pd)) (\<lambda>(r, pd).
       case r of
         None \<Rightarrow> Some (Inr (Module_NONE, this, pd, prop))
       | Some hdr \<Rightarrow>
           bind_opt (Some (set_properties this m hdr pd prop)) (\<lambda>(ok, pd, prop).
             if \<not> ok then Some (Inr (Module_NONE, this, pd, prop))
             else
               let seg_len = pl_length pd
               in bind_opt (Some (tcp_segment this pd prop)) (\<lambda>(seg_ptr, pd, prop).
                    if tc_enable this then
                      bind_opt (tcp_session L ops m hdr seg_ptr seg_len this prop) (\<lambda>(this, prop).
                        Some (Inr (Module_NONE, this, pd, prop)))
                    else Some (Inr (Module_NONE, this, pd, prop)))))"

text \<open>The destructor: every session is deleted.\<close>

definition TCP_delete :: "('t, 'k) lru_ops \<Rightarrow> ('t, 'b) tcp \<Rightarrow> ('t, 'b) tcp res option" where
  "TCP_delete L this = expire_sessions L (this\<lparr>tc_table := lr_wipe L (tc_table this)\<rparr>)"

subsection \<open>The table of sessions\<close>

text \<open>
  What the module relies on of \<^verbatim>\<open>tb::LruHash\<close>, in terms of the entries that \<^verbatim>\<open>get\<close> can return (\<open>inside\<close>) and those waiting
  to be popped (\<open>outside\<close>): \<^verbatim>\<open>get\<close> returns an entry of the table or none; \<^verbatim>\<open>put\<close> adds one; \<^verbatim>\<open>step\<close> and \<^verbatim>\<open>wipe\<close> only move entries
  from inside to outside; \<^verbatim>\<open>pop_expired\<close> takes one of those outside.
\<close>

definition lru_moves :: "('t \<Rightarrow> nat set) \<Rightarrow> ('t \<Rightarrow> nat list) \<Rightarrow> 't \<Rightarrow> 't \<Rightarrow> bool" where
  "lru_moves inside outside t t' \<longleftrightarrow>
     (inside t \<inter> set (outside t) = {} \<and> distinct (outside t) \<longrightarrow>
        inside t' \<union> set (outside t') = inside t \<union> set (outside t) \<and> inside t' \<inter> set (outside t') = {} \<and> distinct (outside t'))"

definition lru_laws :: "('t, 'k) lru_ops \<Rightarrow> ('t \<Rightarrow> nat set) \<Rightarrow> ('t \<Rightarrow> nat list) \<Rightarrow> bool" where
  "lru_laws L inside outside \<longleftrightarrow>
     (\<forall>a n. inside (lr_new L a n) = {} \<and> outside (lr_new L a n) = [])
     \<and> (\<forall>key t r t'. lr_get L key t = (r, t') \<longrightarrow>
          inside t' = inside t \<and> outside t' = outside t \<and> (\<forall>q. r = Some q \<longrightarrow> q \<in> inside t))
     \<and> (\<forall>timeout key q t. inside (lr_put L timeout key q t) = insert q (inside t)
          \<and> outside (lr_put L timeout key q t) = outside t)
     \<and> (\<forall>t d. lru_moves inside outside t (lr_step L d t) \<and> lru_moves inside outside t (lr_wipe L t))
     \<and> (\<forall>t. inside (lr_wipe L t) = {})
     \<and> (\<forall>t. lr_has_expired L t \<longleftrightarrow> outside t \<noteq> [])
     \<and> (\<forall>t q qs. outside t = q # qs \<longrightarrow>
          (\<exists>t'. lr_pop_expired L t = (q, t') \<and> inside t' = inside t \<and> outside t' = qs))"

lemma lru_lawsD:
  assumes "lru_laws L inside outside"
  shows "inside (lr_new L a n) = {}" "outside (lr_new L a n) = []"
    "lr_get L key t = (r, t') \<Longrightarrow> inside t' = inside t \<and> outside t' = outside t"
    "lr_get L key t = (Some q, t') \<Longrightarrow> q \<in> inside t"
    "inside (lr_put L timeout key q t) = insert q (inside t)" "outside (lr_put L timeout key q t) = outside t"
    "lru_moves inside outside t (lr_step L d t)" "lru_moves inside outside t (lr_wipe L t)"
    "inside (lr_wipe L t) = {}" "lr_has_expired L t \<longleftrightarrow> outside t \<noteq> []"
    "outside t = q # qs \<Longrightarrow> \<exists>t'. lr_pop_expired L t = (q, t') \<and> inside t' = inside t \<and> outside t' = qs"
  using assms unfolding lru_laws_def by simp_all

text \<open>Every session in the table is in the heap, exactly once, and nothing else is.\<close>

definition table_ok :: "('t \<Rightarrow> nat set) \<Rightarrow> ('t \<Rightarrow> nat list) \<Rightarrow> ('t, 'b) tcp \<Rightarrow> bool" where
  "table_ok inside outside mdl \<longleftrightarrow>
     inside (tc_table mdl) \<inter> set (outside (tc_table mdl)) = {} \<and> distinct (outside (tc_table mdl))
     \<and> dom (tc_heap mdl) = inside (tc_table mdl) \<union> set (outside (tc_table mdl))
     \<and> (\<forall>q \<in> dom (tc_heap mdl). q < tc_brk mdl)"

abbreviation same_module :: "('t, 'b) tcp \<Rightarrow> ('t, 'b) tcp \<Rightarrow> bool" where
  "same_module mdl mdl' \<equiv> pmodule.truncate mdl' = pmodule.truncate mdl \<and> tc_enable mdl' = tc_enable mdl"

lemma expire_ok:
  assumes laws: "lru_laws L inside outside" and "table_ok inside outside mdl"
  shows "\<exists>mdl'. expire_sessions L mdl = Some (Inr mdl') \<and> table_ok inside outside mdl' \<and> outside (tc_table mdl') = []
    \<and> inside (tc_table mdl') = inside (tc_table mdl) \<and> same_module mdl mdl'"
  using assms(2)
proof (induction "length (outside (tc_table mdl))" arbitrary: mdl)
  case 0
  then show ?case
    by (subst expire_sessions.simps) (simp add: lru_lawsD(10) [OF laws])
next
  case (Suc n)
  then obtain q qs where out: "outside (tc_table mdl) = q # qs" "length qs = n"
    by (cases "outside (tc_table mdl)") auto
  obtain t' where t': "lr_pop_expired L (tc_table mdl) = (q, t')" "inside t' = inside (tc_table mdl)" "outside t' = qs"
    using lru_lawsD(11) [OF laws out(1)] by blast
  have q: "tc_heap mdl q \<noteq> None"
    using Suc.prems out(1) by (auto simp: table_ok_def)
  let ?mdl = "mdl\<lparr>tc_table := t', tc_heap := (tc_heap mdl)(q := None)\<rparr>"
  have del: "delete_session q (mdl\<lparr>tc_table := t'\<rparr>) = Inr ?mdl"
    using q by (auto simp: delete_session_def)
  have "table_ok inside outside ?mdl"
    using Suc.prems out(1) t'(2,3) by (auto simp: table_ok_def)
  then obtain mdl' where "expire_sessions L ?mdl = Some (Inr mdl')" "table_ok inside outside mdl'"
    "outside (tc_table mdl') = []" "inside (tc_table mdl') = inside t'" "same_module ?mdl mdl'"
    using Suc.hyps(1) [of ?mdl] out(2) t'(3) by auto
  then show ?case
    using t' del out(1) by (subst expire_sessions.simps) (simp add: lru_lawsD(10) [OF laws] pmodule.truncate_def)
qed

lemma clock_ok:
  "lru_laws L inside outside \<Longrightarrow> table_ok inside outside mdl \<Longrightarrow>
     table_ok inside outside (tcp_clock L ts mdl) \<and> same_module mdl (tcp_clock L ts mdl)"
  using lru_lawsD(7) [of L inside outside "tc_table mdl" "ts - tc_curr_ts mdl"]
  by (auto simp: tcp_clock_def table_ok_def lru_moves_def Let_def pmodule.truncate_def)

lemma search_ok:
  assumes laws: "lru_laws L inside outside" and "table_ok inside outside mdl"
    "search_session L ops key mdl prop = (q, mdl', prop')"
  shows "table_ok inside outside mdl' \<and> tc_heap mdl' q \<noteq> None \<and> same_module mdl mdl'
    \<and> (prop' = prop \<or> (\<exists>e. prop' = push_event e prop))"
proof -
  obtain node t where get: "lr_get L key (tc_table mdl) = (node, t)"
    by fastforce
  note fr = lru_lawsD(3) [OF laws get]
  show ?thesis
  proof (cases node)
    case None
    let ?mdl = "mdl\<lparr>tc_table := lr_put L (tc_timeout mdl) key (tc_brk mdl) t, tc_ssn_count := tc_ssn_count mdl + 1,
        tc_heap := (tc_heap mdl)(tc_brk mdl \<mapsto> Session_new ops prop (tc_ssn_count mdl + 1)), tc_brk := tc_brk mdl + 1\<rparr>"
    have eq: "q = tc_brk mdl" "mdl' = ?mdl" "\<exists>e. prop' = push_event e prop"
      using assms(3) get None by (auto simp: search_session_def Let_def)
    have tab: "inside (tc_table ?mdl) = insert (tc_brk mdl) (inside (tc_table mdl))" "outside (tc_table ?mdl) = outside (tc_table mdl)"
      using fr lru_lawsD(5,6) [OF laws] by simp_all
    have dom: "dom (tc_heap ?mdl) = insert (tc_brk mdl) (dom (tc_heap mdl))"
      by auto
    have "tc_brk mdl \<notin> dom (tc_heap mdl)"
      using assms(2) unfolding table_ok_def by blast
    then have "table_ok inside outside ?mdl"
      using assms(2) unfolding table_ok_def tab dom by (auto simp: less_Suc_eq)
    then show ?thesis
      using eq by (simp add: pmodule.truncate_def)
  next
    case (Some q')
    have "mdl' = mdl\<lparr>tc_table := t\<rparr>" "q = q'" "prop' = prop"
      using assms(3) get Some by (auto simp: search_session_def)
    then show ?thesis
      using assms(2) fr lru_lawsD(4) [OF laws get [unfolded Some]]
      by (auto simp: table_ok_def pmodule.truncate_def)
  qed
qed

lemma heap_upd_ok:
  "table_ok inside outside mdl \<Longrightarrow> tc_heap mdl q \<noteq> None \<Longrightarrow>
     table_ok inside outside (mdl\<lparr>tc_heap := (tc_heap mdl)(q \<mapsto> ssn)\<rparr>)"
  by (auto simp: table_ok_def)

subsection \<open>Safety\<close>

text \<open>Values and events added, with the packet and the addresses as they were.\<close>

definition grows :: "(nat \<Rightarrow> string) \<Rightarrow> mem \<Rightarrow> 'b property \<Rightarrow> 'b property \<Rightarrow> bool" where
  "grows D m p p' \<longleftrightarrow> (\<exists>us es. adds D m us es p p') \<and> pr_pkt p' = pr_pkt p
     \<and> pr_src_addr p' = pr_src_addr p \<and> pr_dst_addr p' = pr_dst_addr p"

lemma grew_grows: "grew D m p p' \<Longrightarrow> grows D m p p'"
  by (auto simp: grew_def grows_def)

lemma grows_refl: "property_ok D p \<Longrightarrow> grows D m p p"
  by (intro grew_grows grew_refl)

lemma grows_trans: "grows D m p p1 \<Longrightarrow> grows D m p1 p2 \<Longrightarrow> grows D m p p2"
  by (auto simp: grows_def intro: adds_trans)

lemma grows_ok: "grows D m p p' \<Longrightarrow> property_ok D p'"
  by (auto simp: grows_def intro: adds_wf)

lemma grows_puts: "adds D m us es p p' \<Longrightarrow> same_frame p p' \<Longrightarrow> grows D m p p'"
  by (auto simp: grows_def same_frame_def)

lemma grows_ports:
  assumes "property_ok D p"
  shows "grows D m p (set_dst_port w (set_src_port w' p))"
proof -
  have "\<exists>us es. adds D m us es p (set_dst_port w (set_src_port w' p))"
    using adds_attr(4) [OF adds_attr(3) [OF adds_refl [OF assms]]] by blast
  then show ?thesis
    by (simp add: grows_def set_dst_port_def set_src_port_def)
qed

lemma grows_advance: "grows D m p p' \<Longrightarrow> payload_inv (length (m_pkt m)) pd' \<Longrightarrow> pl_ptr pd \<le> pl_ptr pd' \<Longrightarrow> advance D m pd p pd' p'"
  by (auto simp: grows_def adds_def advance_def)

text \<open>What the parameters of a module are depends on its definitions only.\<close>

lemma same_module_params:
  assumes "pmodule.truncate a = pmodule.truncate b"
  shows "mod_param a = mod_param b" "mod_ev a = mod_ev b"
  using assms by (simp_all add: pmodule.truncate_def mod_param_def mod_ev_def fun_eq_iff)

lemma ready_simps: "mod_ready D tcp_params mdl \<Longrightarrow> n \<in> set tcp_params \<Longrightarrow> 0 \<le> df_id (mod_param mdl n) \<and> def_typed D (mod_param mdl n)"
  by (auto simp: mod_ready_def)

lemma set_properties_returns:
  assumes "mod_ready D tcp_params mdl" "payload_inv (length (m_pkt m)) pd" "property_ok D p" "hdr + 20 \<le> length (m_pkt m)"
  shows "returns (set_properties mdl m hdr pd p) (\<lambda>(ok, pd', p').
    payload_inv (length (m_pkt m)) pd' \<and> pl_ptr pd \<le> pl_ptr pd' \<and> grows D m p p')"
proof -
  note d = ready_simps [OF assms(1)]
  have us: "list_all (put_typed D) [PSet (mod_param mdl ''src_port'') (PktPtr hdr) 2 BIG,
      PSet (mod_param mdl ''dst_port'') (PktPtr (hdr + 2)) 2 BIG, PSet (mod_param mdl ''hdr'') (PktPtr hdr) 20 BIG]"
    "list_all (put_typed D) [PSet (mod_param mdl ''optdata'') (PktPtr q) n BIG]" for q n
    using d by simp_all
  have ok: "property_ok D (set_dst_port w (set_src_port w' p))" for w w'
    using grows_ok [OF grows_ports [OF assms(3), of undefined]] .
  show ?thesis
    unfolding set_properties_def
  proof (intro returns_bind returns_u16, goal_cases)
    case 3
    show ?case
    proof (rule returns_puts [where m = m and D = D, OF ok us(1)], goal_cases)
      case (1 p1)
      note p1 = grows_trans [OF grows_ports [OF assms(3)] grows_puts [OF 1]]
      show ?case
      proof (intro returns_bind returns_u8, goal_cases)
        case 2
        show ?case
          unfolding Let_def
        proof (split if_split, intro conjI impI returns_bind, goal_cases)
          case 1
          show ?case
          proof (rule returns_retain [OF assms(2)], goal_cases)
            case 1
            then show ?case using p1 assms(2) by (auto intro: wp)
          next
            case (2 pd')
            then show ?case
              using grows_trans [OF p1 grows_puts] 
              by (auto intro!: returns_bind returns_Inr returns_puts [where m = m and D = D, OF grows_ok [OF p1] us(2)])
          qed
        next
          case 2
          then show ?case using p1 assms(2) by (auto intro: wp)
        qed
      qed (use assms(4) in simp)
    qed
  qed (use assms(4) in simp_all)
qed

lemma tcp_segment_returns:
  assumes "mod_ready D tcp_params mdl" "payload_inv (length (m_pkt m)) pd" "property_ok D p"
  shows "returns (tcp_segment mdl pd p) (\<lambda>(q, pd', p').
    payload_inv (length (m_pkt m)) pd' \<and> pl_ptr pd \<le> pl_ptr pd' \<and> grows D m p p' \<and> q \<noteq> OwnPtr
    \<and> (\<exists>bs. ptr_bytes m q 0 (pl_length pd) = Inr bs))"
proof (cases "pl_length pd > 0")
  case True
  have us: "list_all (put_typed D) [PSet (mod_param mdl ''segment'') (PktPtr q) n BIG]" for q n
    using ready_simps [OF assms(1)] by simp
  show ?thesis
    unfolding tcp_segment_def using True
  proof (simp only: if_True, intro returns_bind, rule_tac returns_retain [OF assms(2)], goal_cases)
    case (2 pd')
    then show ?case
      by (auto intro!: returns_bind returns_Inr returns_puts [where m = m and D = D, OF assms(3) us]
          intro: grows_puts simp: ptr_bytes_def bslice_opt_def Let_def)
  qed simp
next
  case False
  then show ?thesis
    using assms(2,3) by (auto intro!: wp grows_refl simp: tcp_segment_def ptr_bytes_def)
qed

lemma tcp_session_returns:
  assumes laws: "lru_laws L inside outside" and "mod_ready D tcp_params mdl" "table_ok inside outside mdl"
    "property_ok D p" "pr_pkt p \<noteq> None" "length (tb_bytes ops (pr_src_addr p)) = length (tb_bytes ops (pr_dst_addr p))"
    "hdr + 20 \<le> length (m_pkt m)" "q \<noteq> OwnPtr" "ptr_bytes m q 0 n = Inr data"
  shows "\<exists>mdl' p'. tcp_session L ops m hdr q n mdl p = Some (Inr (mdl', p')) \<and> table_ok inside outside mdl'
    \<and> same_module mdl mdl' \<and> grows D m p p'"
proof -
  obtain ts where ts: "property_ts p = Inr ts"
    using assms(5) by (auto simp: property_ts_def property_tv_def)
  obtain mdl1 where 1: "expire_sessions L (tcp_clock L ts mdl) = Some (Inr mdl1)" "table_ok inside outside mdl1" "same_module mdl mdl1"
    using expire_ok [OF laws] clock_ok [OF laws assms(3), of ts] by fastforce
  obtain key where key: "make_key L ops p = Inr key"
    using assms(6) by (simp add: make_key_def Let_def)
  obtain a mdl2 p2 where s2: "search_session L ops key mdl1 p = (a, mdl2, p2)"
    by (metis prod_cases3)
  note so = search_ok [OF laws 1(2) s2]
  obtain ssn where ssn: "tc_heap mdl2 a = Some ssn"
    using so by blast
  have g2: "grows D m p p2"
    using so grows_refl [OF assms(4)] grew_grows [OF grew_event [OF assms(4)]] by auto
  have sm: "mod_param mdl2 = mod_param mdl" "same_module mdl mdl2"
    using so 1(3) same_module_params [of mdl2 mdl] by auto
  have "returns (property_puts [PCpy (mod_param mdl2 ''id'') (store_le 8 (unat (ss_id ssn))) BIG] p2) (grows D m p2)"
    using ready_simps [OF assms(2), of "''id''"] sm(1)
    by (intro returns_puts [where m = m and D = D, OF grows_ok [OF g2]] grows_puts) auto
  then obtain p3 where p3: "property_puts [PCpy (mod_param mdl2 ''id'') (store_le 8 (unat (ss_id ssn))) BIG] p2 = Inr p3"
    "grows D m p2 p3" by (auto simp: returns_def)
  note g3 = grows_trans [OF g2 p3(2)]
  have pr: "params_ready D session_params mdl2"
    using assms(2) sm(1) by (simp add: params_ready_def mod_ready_def)
  have pk: "pr_pkt p3 \<noteq> None"
    using g3 assms(5) by (simp add: grows_def)
  have "\<exists>s' p4. Session_decode ops mdl2 (m_pkt m ! (hdr + 13) AND (FIN OR SYN OR RST OR ACK))
      (ntohl (load_le (bslice (hdr + 4) 4 (m_pkt m)))) (ntohl (load_le (bslice (hdr + 8) 4 (m_pkt m)))) data q
      (ntohs (load_le (bslice (hdr + 14) 2 (m_pkt m)))) ssn p3 = Some (Inr (s', p4)) \<and> grew D m p3 p4 \<and> endpoints s' = endpoints ssn"
    by (rule Session_decode_returns [OF pr grows_ok [OF g3] pk assms(8)])
  then obtain s' p4 where "Session_decode ops mdl2 (m_pkt m ! (hdr + 13) AND (FIN OR SYN OR RST OR ACK))
      (ntohl (load_le (bslice (hdr + 4) 4 (m_pkt m)))) (ntohl (load_le (bslice (hdr + 8) 4 (m_pkt m)))) data q
      (ntohs (load_le (bslice (hdr + 14) 2 (m_pkt m)))) ssn p3 = Some (Inr (s', p4))" "grew D m p3 p4"
    by blast
  moreover have "table_ok inside outside (mdl2\<lparr>tc_heap := (tc_heap mdl2)(a \<mapsto> s')\<rparr>)"
    using heap_upd_ok [of inside outside mdl2 a s'] so by blast
  ultimately show ?thesis
    using ts 1(1) key s2 ssn p3(1) assms(7,9) sm(2) grows_trans [OF g3 grew_grows]
    by (simp add: tcp_session_def pmodule.truncate_def del: store_le.simps)
qed

lemma bind_opt_returns:
  assumes "returns r (\<lambda>a. \<exists>b. f a = Some (Inr b) \<and> Q b)"
  shows "\<exists>b. bind_opt (Some r) f = Some (Inr b) \<and> Q b"
  using assms by (auto simp: returns_def)

lemma TCP_returns:
  assumes laws: "lru_laws L inside outside" and "mod_ready D tcp_params mdl" "table_ok inside outside mdl"
    "payload_inv (length (m_pkt m)) pd" "property_ok D p" "pr_pkt p \<noteq> None"
    "length (tb_bytes ops (pr_src_addr p)) = length (tb_bytes ops (pr_dst_addr p))"
  shows "\<exists>r. TCP_decode L ops mdl m pd p = Some (Inr r) \<and>
    (case r of (nxt, mdl', pd', p') \<Rightarrow> nxt = Module_NONE \<and> table_ok inside outside mdl' \<and> same_module mdl mdl'
       \<and> advance D m pd p pd' p' \<and> grows D m p p')"
  unfolding TCP_decode_def
proof (rule bind_opt_returns, rule returns_retain [OF assms(4)], goal_cases)
  case 1
  then show ?case
    using assms(3-5) by (simp add: advance_refl grows_refl)
next
  case (2 pd1)
  let ?hdr = "pl_ptr pd"
  have hdr: "?hdr + 20 \<le> length (m_pkt m)"
    using 2(5) by simp
  show ?case
    unfolding prod.case option.case
  proof (rule bind_opt_returns, rule returns_mono [OF set_properties_returns [OF assms(2) 2(2) assms(5) hdr]], goal_cases)
    case (1 r)
    obtain ok pd2 p2 where r: "r = (ok, pd2, p2)"
      by (cases r)
    then have r2: "payload_inv (length (m_pkt m)) pd2" "?hdr \<le> pl_ptr pd2" "grows D m p p2"
      using 1 2(3) by auto
    show ?case
    proof (cases ok)
      case False
      then show ?thesis
        using r r2 assms(3) grows_advance [OF r2(3,1), of pd] by simp
    next
      case True
      obtain q pd3 p3 where 3: "tcp_segment mdl pd2 p2 = Inr (q, pd3, p3)" "payload_inv (length (m_pkt m)) pd3"
        "pl_ptr pd2 \<le> pl_ptr pd3" "grows D m p2 p3" "q \<noteq> OwnPtr" "\<exists>bs. ptr_bytes m q 0 (pl_length pd2) = Inr bs"
        using tcp_segment_returns [OF assms(2) r2(1) grows_ok [OF r2(3)]] by (auto simp: returns_def)
      note g3 = grows_trans [OF r2(3) 3(4)]
      have adv: "advance D m pd p pd3 p' \<and> grows D m p p'" if "grows D m p p'" for p'
        using that grows_advance [OF that 3(2)] r2(2) 3(3) by simp
      show ?thesis
      proof (cases "tc_enable mdl")
        case True
        have "pr_pkt p3 \<noteq> None" "length (tb_bytes ops (pr_src_addr p3)) = length (tb_bytes ops (pr_dst_addr p3))"
          using g3 assms(6,7) by (simp_all add: grows_def)
        then obtain mdl' p' where "tcp_session L ops m ?hdr q (pl_length pd2) mdl p3 = Some (Inr (mdl', p'))"
          "table_ok inside outside mdl'" "same_module mdl mdl'" "grows D m p3 p'"
          using tcp_session_returns [OF laws assms(2,3) grows_ok [OF g3] _ _ hdr 3(5)] 3(6) by blast
        then show ?thesis
          using True \<open>ok\<close> r 3(1) adv [OF grows_trans [OF g3]] by simp
      next
        case False
        then show ?thesis
          using \<open>ok\<close> r 3(1) assms(3) adv [OF g3] by simp
      qed
    qed
  qed
qed

subsection \<open>A concrete module\<close>

text \<open>A table that keeps its entries in a list and drops all of them when the clock advances by 300 seconds or more.\<close>

type_synonym list_lru = "(byte list list \<times> nat) list \<times> nat list"

definition list_lru :: "(list_lru, byte list list) lru_ops" where
  "list_lru =
     \<lparr>lr_new = (\<lambda>_ _. ([], [])),
      lr_get = (\<lambda>key t. (map_of (fst t) key, t)),
      lr_put = (\<lambda>_ key q t. ((key, q) # fst t, snd t)),
      lr_step = (\<lambda>d t. if 300 \<le> d then ([], remdups (map snd (fst t)) @ snd t) else t),
      lr_has_expired = (\<lambda>t. snd t \<noteq> []),
      lr_pop_expired = (\<lambda>t. case snd t of q # qs \<Rightarrow> (q, (fst t, qs)) | [] \<Rightarrow> (0, t)),
      lr_wipe = (\<lambda>t. ([], remdups (map snd (fst t)) @ snd t)),
      lr_key = (\<lambda>_ parts. parts)\<rparr>"

lemma list_lru_laws: "lru_laws list_lru (\<lambda>t. snd ` set (fst t)) snd"
  by (force simp: lru_laws_def list_lru_def lru_moves_def dest: map_of_SomeD)

definition demo_tcp :: "(list_lru, byte list) tcp" where
  "demo_tcp =
     pmodule.extend (case TCP_new of Inr m \<Rightarrow> solo m | Inl _ \<Rightarrow> Module_new)
       \<lparr>tc_ssn_count = 0, tc_curr_ts = 0, tc_init_ts = False, tc_table = lr_new list_lru 3600 65521, tc_enable = True,
        tc_timeout = 300, tc_heap = (\<lambda>_. None), tc_brk = 0\<rparr>"

lemma demo_tcp_ready: "mod_ready (demo_D demo_tcp) tcp_params demo_tcp"
proof -
  have "case TCP_new of Inr m \<Rightarrow> map fst (mo_param_map m) =
      [''data'', ''dst_port'', ''hdr'', ''id'', ''optdata'', ''rtt_3wh'', ''segment'', ''src_port'', ''tx_client'', ''tx_server'']
      \<and> list_all (\<lambda>e. cls_wf (df_cons (snd e))) (mo_param_map m)
    | Inl _ \<Rightarrow> False"
    by code_simp
  then obtain m where m: "TCP_new = Inr m" "map fst (mo_param_map m) =
      [''data'', ''dst_port'', ''hdr'', ''id'', ''optdata'', ''rtt_3wh'', ''segment'', ''src_port'', ''tx_client'', ''tx_server'']" "list_all (\<lambda>e. cls_wf (df_cons (snd e))) (mo_param_map m)"
    by (auto split: sum.splits)
  have sub: "set tcp_params \<subseteq> fst ` set (mo_param_map m)"
    unfolding list.set_map [symmetric] m(2) by simp
  have "mod_ready (demo_D (solo m)) tcp_params (solo m)"
    by (rule solo_ready [OF _ sub m(3)]) simp
  moreover have "mo_param_map demo_tcp = mo_param_map (solo m)"
    by (simp add: demo_tcp_def m(1) pmodule.defs)
  ultimately show ?thesis
    by (simp only: same_params [of demo_tcp "solo m"])
qed

definition demo_tcp_packet :: "byte list" where
  "demo_tcp_packet = [0x30, 0x39, 0, 80, 0, 0, 0, 7, 0, 0, 0, 0, 0x50, 2, 0, 0, 0, 0, 0, 0]"

subsection \<open>Properties\<close>

text \<open>
  TCP decoding always returns and is memory safe: for every packet, session table and stored segments \<^verbatim>\<open>decode\<close> ends
  (the loop over expired sessions and the recursion over stored segments included), raises nothing, reads inside the
  packet, neither uses nor frees a session twice, keeps table and heap in step, moves the cursor forward and
  only adds values and events.
\<close>

theorem tcp_decode_returns:
  assumes "lru_laws L inside outside" "mod_ready D tcp_params mdl" "table_ok inside outside mdl"
    "payload_inv (length (m_pkt m)) pd" "property_ok D p" "pr_pkt p \<noteq> None"
    "length (tb_bytes ops (pr_src_addr p)) = length (tb_bytes ops (pr_dst_addr p))"
  shows "\<exists>mdl' pd' p'. TCP_decode L ops mdl m pd p = Some (Inr (Module_NONE, mdl', pd', p'))
    \<and> table_ok inside outside mdl' \<and> advance D m pd p pd' p'"
  using TCP_returns [OF assms] by auto

theorem tcp_decode_returns_witness:
  "\<exists>mdl' pd' p'. TCP_decode list_lru list_buffer demo_tcp (demo_mem demo_tcp_packet) (demo_pd demo_tcp_packet) demo_prop
      = Some (Inr (Module_NONE, mdl', pd', p'))
    \<and> table_ok (\<lambda>t. snd ` set (fst t)) snd mdl'"
proof -
  have "table_ok (\<lambda>t. snd ` set (fst t)) snd demo_tcp" "pr_pkt demo_prop \<noteq> None"
    "tb_bytes list_buffer (pr_src_addr demo_prop) = tb_bytes list_buffer (pr_dst_addr demo_prop)"
    by (simp_all add: table_ok_def demo_tcp_def pmodule.defs list_lru_def demo_prop_def property_init_def Property_new_def)
  then show ?thesis
    using tcp_decode_returns [OF list_lru_laws demo_tcp_ready, of "demo_mem demo_tcp_packet" "demo_pd demo_tcp_packet" demo_prop
        list_buffer] by auto
qed

lemma store_le_port_inj: "store_le 2 (unat (p :: 16 word)) = store_le 2 (unat q) \<longleftrightarrow> p = q"
proof
  assume "store_le 2 (unat p) = store_le 2 (unat q)"
  then have "unat p mod 256 ^ 2 = unat q mod 256 ^ 2"
    by (metis le_nat_store_le)
  moreover have "unat p < 256 ^ 2" "unat q < 256 ^ 2"
    using unsigned_less [of p] unsigned_less [of q] by simp_all
  ultimately show "p = q"
    by (simp add: unsigned_word_eqI)
qed simp

lemma memcmp_swap: "memcmp b a = - memcmp a b"
  by (induction a b rule: memcmp.induct) auto

lemma memcmp_0: "length a = length b \<Longrightarrow> memcmp a b = 0 \<longleftrightarrow> a = b"
  by (induction a b rule: memcmp.induct) auto

text \<open>
  C22:
  The key of a connection is the same for both directions, and two packets have the same key parts only if they run between
  the same two endpoints (address and port).
\<close>

theorem connection_key:
  assumes "length a = length b"
  shows "key_parts b q a p = key_parts a p b q
    \<and> (key_parts a p b q = key_parts a' p' b' q' \<longrightarrow> {(a, p), (b, q)} = {(a', p'), (b', q')})"
proof
  show "key_parts b q a p = key_parts a p b q"
    using memcmp_swap [of b a] memcmp_0 [OF assms]
    by (cases "memcmp a b" "0 :: int" rule: linorder_cases; cases p q rule: linorder_cases)
      (auto simp: key_parts_def simp del: store_le.simps)
  show "key_parts a p b q = key_parts a' p' b' q' \<longrightarrow> {(a, p), (b, q)} = {(a', p'), (b', q')}"
    by (auto simp: key_parts_def store_le_port_inj split: if_splits simp del: store_le.simps)
qed

theorem connection_key_witness:
  "key_parts [10, 0, 0, 2] 80 [10, 0, 0, 1] 12345 = key_parts [10, 0, 0, 1] 12345 [10, 0, 0, 2] 80"
  using connection_key [of "[10, 0, 0, 1]" "[10, 0, 0, 2]" 80 12345] by simp


text \<open>Two segments that arrive in the wrong order, in packets that hold only the segment.\<close>

definition demo_session :: "byte list session" where
  "demo_session = (Session_new list_buffer demo_prop 1)\<lparr>ss_status := ESTABLISHED,
     ss_client := set_base_seq 1000 0 (Stream_new [] 0)\<rparr>"

definition demo_arrival :: "byte list \<Rightarrow> byte list arrival" where
  "demo_arrival d = \<lparr>ar_flags = ACK, ar_ack = 0, ar_win = 0, ar_ptr = PktPtr 0, ar_mem = demo_mem d, ar_prop = demo_prop\<rparr>"


text \<open>The three packets of the set-up; \<open>p\<close> are the properties before the session sees them.\<close>

definition handshake_ok :: "'b buffer_ops \<Rightarrow> (nat \<Rightarrow> string) \<Rightarrow> 'b property \<Rightarrow> 'b property \<Rightarrow> 'b property \<Rightarrow> bool" where
  "handshake_ok ops D p1 p2 p3 \<longleftrightarrow>
     property_ok D p1 \<and> property_ok D p2 \<and> property_ok D p3 \<and> pr_pkt p1 \<noteq> None \<and> pr_pkt p2 \<noteq> None \<and> pr_pkt p3 \<noteq> None
     \<and> (tb_bytes ops (pr_src_addr p2), pr_src_port p2) \<noteq> (tb_bytes ops (pr_src_addr p1), pr_src_port p1)
     \<and> (tb_bytes ops (pr_src_addr p3), pr_src_port p3) = (tb_bytes ops (pr_src_addr p1), pr_src_port p1)"

lemma rtt_view:
  assumes "mod_ready D tcp_params this" "adds D m (state_puts this ESTABLISHED s @ us) es p p'"
    "put_def ` set us \<subseteq> mod_param this ` {''data'', ''tx_server'', ''tx_client''}"
  shows "view m p' (pid_of this ''rtt_3wh'') = view m p (pid_of this ''rtt_3wh'')
    @ [Some (store_le 4 (unat (rtt_ts (ss_ts_rtt s))), LITTLE)]"
proof -
  have "nat (df_id (put_def u)) \<noteq> pid_of this ''rtt_3wh''" if u: "u \<in> set us" for u
  proof -
    have "put_def u \<in> mod_param this ` {''data'', ''tx_server'', ''tx_client''}"
      using assms(3) u by blast
    then show ?thesis
      by (auto simp: pid_of_eq_iff [OF assms(1)])
  qed
  then have "emitted m us (pid_of this ''rtt_3wh'') = []"
    by (simp add: emitted_def filter_empty_conv)
  then show ?thesis
    using assms(2) by (simp add: adds_def emitted_append state_puts_def emitted_def pid_of_def del: store_le.simps)
qed

text \<open>
  C19:
  Set-up: SYN from the client, SYN and ACK from the server, ACK from the client take a new session through SYN_SENT and SYNACK_SENT to
  ESTABLISHED; exactly the third packet gets the event \<^verbatim>\<open>TCP.established\<close> and \<^verbatim>\<open>TCP.rtt_3wh\<close>, the microseconds
  between first and third packet (modulo \<open>2^32\<close>); afterwards both directions are ready for reassembly from their
  initial sequence number plus one, with nothing stored.
\<close>

theorem tcp_handshake:
  assumes "mod_ready D tcp_params this" "handshake_ok ops D p1 p2 p3" "property_tv p1 = Inr t1" "property_tv p3 = Inr t3"
  shows "\<exists>s1 s2 s3 p1' p2' p3'.
      Session_decode ops this SYN x ka [] NullPtr wa (Session_new ops p1 ssn) p1 = Some (Inr (s1, p1'))
    \<and> Session_decode ops this (SYN OR ACK) y kb [] NullPtr wb s1 p2 = Some (Inr (s2, p2'))
    \<and> Session_decode ops this ACK (x + 1) kc [] NullPtr wc s2 p3 = Some (Inr (s3, p3'))
    \<and> map ss_status [s1, s2, s3] = [SYN_SENT, SYNACK_SENT, ESTABLISHED]
    \<and> events p1' = events p1 \<and> events p2' = events p2 \<and> events p3' = events p3 @ [mod_ev this ''established'']
    \<and> view m p3' (pid_of this ''rtt_3wh'') = view m p3 (pid_of this ''rtt_3wh'')
        @ [Some (store_le 4 (unat (rtt_ts (timersub t3 t1))), LITTLE)]
    \<and> (\<forall>sd. flowing sd s3 \<and> sm_base_seq (stream_of sd s3) = (if sd = Client then x else y) \<and> sm_next_seq (stream_of sd s3) = 1)
    \<and> ss_seg_map s3 = []"
proof -
  let ?cl = "Stream_new (tb_bytes ops (pr_src_addr p1)) (pr_src_port p1)"
  let ?sv = "Stream_new (tb_bytes ops (pr_dst_addr p1)) (pr_dst_port p1)"
  let ?s0 = "Session_new ops p1 ssn"
  have pr: "params_ready D session_params this"
    by (rule mod_ready_params [OF assms(1)]) simp
  have ok: "property_ok D p1" "property_ok D p2" "property_ok D p3"
    using assms(2) by (simp_all add: handshake_ok_def)
  obtain t2 where t2: "property_tv p2 = Inr t2"
    using assms(2) by (auto simp: handshake_ok_def property_tv_def)
  define s1 where "s1 = ?s0\<lparr>ss_status := SYN_SENT, ss_ts_init := t1, ss_client := set_base_seq x 0 ?cl,
      ss_server := stream_recv ka (ucast wa) ?sv\<rparr>"
  define s2 where "s2 = s1\<lparr>ss_status := SYNACK_SENT, ss_client := stream_recv kb (ucast wb) (ss_client s1),
      ss_server := set_base_seq y 0 (ss_server s1)\<rparr>"
  define s3 where "s3 = s2\<lparr>ss_status := ESTABLISHED, ss_ts_estb := t3, ss_ts_rtt := timersub t3 t1,
      ss_server := stream_recv kc (ucast wc) (ss_server s2)\<rparr>"
  note defs = Session_new_def Stream_new_def set_base_seq_def stream_recv_def Let_def
  obtain p1' us1 where 1: "Session_decode ops this SYN x ka [] NullPtr wa ?s0 p1 = Some (Inr (s1, p1'))"
    "adds D m (state_puts this SYN_SENT s1 @ us1) (state_evs this SYN_SENT) p1 p1'"
    using Session_decode_simple [where m = m and sd = Client and s = ?s0 and s' = s1 and st = ?cl and ns = SYN_SENT
        and seq = x and data = "[]" and flags = SYN and ack = ka and win = wa and ops = ops, OF pr ok(1) assms(3), of NullPtr]
    by (auto simp: s1_def defs is_src_def stream_match_def stream_send_def trans_state_def)
  have src2: "\<not> is_src ops p2 (ss_client s1)"
    using assms(2) by (auto simp: s1_def defs handshake_ok_def is_src_def stream_match_def)
  obtain p2' us2 where 2: "Session_decode ops this (SYN OR ACK) y kb [] NullPtr wb s1 p2 = Some (Inr (s2, p2'))"
    "adds D m (state_puts this SYNACK_SENT s2 @ us2) (state_evs this SYNACK_SENT) p2 p2'"
    using Session_decode_simple [where m = m and sd = Server and s = s1 and s' = s2 and st = "ss_server s1" and ns = SYNACK_SENT
        and seq = y and data = "[]" and flags = "SYN OR ACK" and ack = kb and win = wb and ops = ops, OF pr ok(2) t2, of NullPtr] src2
    by (auto simp: s2_def s1_def defs stream_send_def trans_state_def)
  have src3: "is_src ops p3 (ss_client s2)"
    using assms(2) by (auto simp: s2_def s1_def defs handshake_ok_def is_src_def stream_match_def)
  obtain p3' us3 where 3: "Session_decode ops this ACK (x + 1) kc [] NullPtr wc s2 p3 = Some (Inr (s3, p3'))"
    "adds D m (state_puts this ESTABLISHED s3 @ us3) (state_evs this ESTABLISHED) p3 p3'"
    "put_def ` set us3 \<subseteq> mod_param this ` {''data'', ''tx_server'', ''tx_client''}"
    using Session_decode_simple [where m = m and sd = Client and s = s2 and s' = s3 and st = "ss_client s2" and ns = ESTABLISHED
        and seq = "x + 1" and data = "[]" and flags = ACK and ack = kc and win = wc and ops = ops, OF pr ok(3) assms(4), of NullPtr] src3
    by (auto simp: s3_def s2_def s1_def defs stream_send_def trans_state_def)
  have "flowing sd s3 \<and> sm_base_seq (stream_of sd s3) = (if sd = Client then x else y) \<and> sm_next_seq (stream_of sd s3) = 1" for sd
    by (cases sd) (simp_all add: flowing_def s3_def s2_def s1_def defs)
  moreover have "map ss_status [s1, s2, s3] = [SYN_SENT, SYNACK_SENT, ESTABLISHED]" "ss_seg_map s3 = []"
    "ss_ts_rtt s3 = timersub t3 t1"
    by (simp_all add: s3_def s2_def s1_def defs)
  moreover have "events p1' = events p1" "events p2' = events p2" "events p3' = events p3 @ [mod_ev this ''established'']"
    using 1(2) 2(2) 3(2) by (simp_all add: adds_def state_evs_def)
  ultimately show ?thesis
    using 1(1) 2(1) 3(1) rtt_view [OF assms(1) 3(2,3)] by auto
qed

definition demo_hand :: "nat \<Rightarrow> int \<Rightarrow> byte list property" where
  "demo_hand port t = demo_prop\<lparr>pr_src_port := word_of_nat port,
     pr_pkt := Some (Packet_new 0 0 \<lparr>tv_sec = 5, tv_usec = t\<rparr>)\<rparr>"

theorem tcp_handshake_witness:
  "\<exists>s1 s2 s3 p1' p2' p3'.
      Session_decode list_buffer demo_tcp SYN 7 0 [] NullPtr 0 (Session_new list_buffer (demo_hand 1 10) 1) (demo_hand 1 10)
        = Some (Inr (s1, p1'))
    \<and> Session_decode list_buffer demo_tcp (SYN OR ACK) 9 8 [] NullPtr 0 s1 (demo_hand 2 20) = Some (Inr (s2, p2'))
    \<and> Session_decode list_buffer demo_tcp ACK 8 10 [] NullPtr 0 s2 (demo_hand 1 40) = Some (Inr (s3, p3'))
    \<and> ss_status s3 = ESTABLISHED
    \<and> view (demo_mem []) p3' (pid_of demo_tcp ''rtt_3wh'') = [Some ([30, 0, 0, 0], LITTLE)]"
proof -
  have ok: "property_ok D (demo_hand port t)" "view m (demo_hand port t) pid = []" for D port t m pid
    by (simp_all add: demo_hand_def demo_prop_def property_init_def Property_new_def property_ok_def property_wf_def typed_def
        view_def live_def)
  have hs: "handshake_ok list_buffer (demo_D demo_tcp) (demo_hand 1 10) (demo_hand 2 20) (demo_hand 1 40)"
    using ok by (simp add: handshake_ok_def) (simp add: demo_hand_def)
  have tv: "property_tv (demo_hand port t) = Inr \<lparr>tv_sec = 5, tv_usec = t\<rparr>" for port t
    by (simp add: demo_hand_def property_tv_def Packet_new_def)
  have "store_le 4 (unat (rtt_ts (timersub \<lparr>tv_sec = 5, tv_usec = 40\<rparr> \<lparr>tv_sec = 5, tv_usec = 10\<rparr>))) = [30, 0, 0, 0]"
    by code_simp
  then show ?thesis
    using tcp_handshake [OF demo_tcp_ready hs tv tv, where m = "demo_mem []" and x = 7 and y = 9 and ka = 0 and kb = 8 and kc = 10
        and wa = 0 and wb = 0 and wc = 0 and ssn = 1] ok(2) by (simp del: store_le.simps) blast
qed

end
