(* ===== verification/PM_DHCP.thy ===== *)
theory PM_DHCP
  imports PM_Object PM_Registry
begin

text \<open>
  \<^verbatim>\<open>src/modules/dhcp.cc\<close>: the fixed header of a DHCP message and the list of options behind it. An option becomes a map value with
  the members \<^verbatim>\<open>type\<close>, \<^verbatim>\<open>length\<close> and \<^verbatim>\<open>data\<close>, and the array value \<^verbatim>\<open>options\<close> refers to the maps in the order of the message.
  The proofs compare the loop over the packet with a parser of the option bytes, \<open>dhcp_parse\<close>.
\<close>

declare bind_res_cong [fundef_cong]

subsection \<open>The module\<close>

definition Option_new :: vclass where
  "Option_new = VDhcpOption (smap_insert ''data'' None (smap_insert ''length'' None (smap_insert ''type'' None [])))"

text \<open>\<^verbatim>\<open>set_type\<close>, \<^verbatim>\<open>set_length\<close> and \<^verbatim>\<open>set_data\<close> write through the iterator of their entry.\<close>

definition Option_set :: "string \<Rightarrow> vref \<Rightarrow> pvalue \<Rightarrow> pvalue" where
  "Option_set key r v =
     (case v_cls v of VDhcpOption kvs \<Rightarrow> v\<lparr>v_cls := VDhcpOption (smap_assign key (Some r) kvs)\<rparr> | _ \<Rightarrow> v)"

definition DHCP_new :: pmodule where
  "DHCP_new =
     fold (\<lambda>(name, cons). define_param name cons)
       [(''msg_type'', VPlain), (''hw_type'', VPlain), (''hw_addr_len'', VPlain), (''hops'', VPlain), (''trans_id'', VPlain),
        (''seconds'', VPlain), (''flags'', VPlain), (''client_addr'', VPlain), (''your_client_addr'', VPlain),
        (''next_server_addr'', VPlain), (''relay_agent_addr'', VPlain), (''client_hw_addr'', VPlain),
        (''server_host_name'', VPlain), (''boot_file_name'', VPlain), (''magic_cookie'', VPlain), (''options'', VArray []),
        (''_option'', Option_new), (''_opt_type'', VPlain), (''_opt_length'', VPlain), (''_opt_data'', VPlain)]
       Module_new"

text \<open>The fields written in any case; \<open>hl\<close> is the field \<^verbatim>\<open>hw_addr_len_\<close>.\<close>

definition DHCP_puts :: "pmodule \<Rightarrow> nat \<Rightarrow> byte \<Rightarrow> put list" where
  "DHCP_puts this hdr hl =
     [PSet (mod_param this ''msg_type'') (PktPtr hdr) 1 BIG,
      PSet (mod_param this ''hw_type'') (PktPtr (hdr + 1)) 1 BIG,
      PSet (mod_param this ''hw_addr_len'') (PktPtr (hdr + 2)) 1 BIG,
      PSet (mod_param this ''hops'') (PktPtr (hdr + 3)) 1 BIG,
      PSet (mod_param this ''trans_id'') (PktPtr (hdr + 4)) 4 BIG,
      PSet (mod_param this ''flags'') (PktPtr (hdr + 10)) 2 BIG,
      PSet (mod_param this ''client_addr'') (PktPtr (hdr + 12)) 4 BIG,
      PSet (mod_param this ''your_client_addr'') (PktPtr (hdr + 16)) 4 BIG,
      PSet (mod_param this ''next_server_addr'') (PktPtr (hdr + 20)) 4 BIG,
      PSet (mod_param this ''relay_agent_addr'') (PktPtr (hdr + 24)) 4 BIG,
      PSet (mod_param this ''magic_cookie'') (PktPtr (hdr + 236)) 4 BIG,
      PSet (mod_param this ''seconds'') (PktPtr (hdr + 8)) 2 LITTLE,
      PSet (mod_param this ''client_hw_addr'') (PktPtr (hdr + 28)) (unat hl) BIG]"

text \<open>A text field whose first byte is zero is absent.\<close>

definition DHCP_text :: "pmodule \<Rightarrow> string \<Rightarrow> nat \<Rightarrow> nat \<Rightarrow> byte \<Rightarrow> put list" where
  "DHCP_text this name off n b = (if b \<noteq> 0 then [PSet (mod_param this name) (PktPtr off) n BIG] else [])"

definition DHCP_option :: "pmodule \<Rightarrow> nat \<Rightarrow> nat \<Rightarrow> nat \<Rightarrow> vref option \<Rightarrow> 'b property \<Rightarrow> 'b property res" where
  "DHCP_option this opt_hdr len opt_data opt_arr prop =
     bind_res (retain_as ''DhcpOption'' (mod_param this ''_option'') prop) (\<lambda>(option, prop).
     bind_res (retain_value (mod_param this ''_opt_type'') prop) (\<lambda>(v_type, prop).
     bind_res (retain_value (mod_param this ''_opt_length'') prop) (\<lambda>(v_length, prop).
     bind_res (retain_value (mod_param this ''_opt_data'') prop) (\<lambda>(v_data, prop).
     bind_res (call (Some v_type) (value_set (PktPtr opt_hdr) 1 BIG) prop) (\<lambda>prop.
     bind_res (call (Some v_length) (value_set (PktPtr (opt_hdr + 1)) 1 BIG) prop) (\<lambda>prop.
     bind_res (call (Some v_data) (value_set (PktPtr opt_data) len BIG) prop) (\<lambda>prop.
     bind_res (call option (Option_set ''type'' v_type) prop) (\<lambda>prop.
     bind_res (call option (Option_set ''length'' v_length) prop) (\<lambda>prop.
     bind_res (call option (Option_set ''data'' v_data) prop) (\<lambda>prop.
       push_ref opt_arr option prop))))))))))"

function DHCP_options ::
  "pmodule \<Rightarrow> mem \<Rightarrow> vref option \<Rightarrow> payload \<Rightarrow> 'b property \<Rightarrow> (payload \<times> 'b property) res" where
  "DHCP_options this m opt_arr pd prop =
     bind_res (payload_retain 2 pd) (\<lambda>(r, pd1).
       case r of
         None \<Rightarrow> Inr (pd1, prop)
       | Some opt_hdr \<Rightarrow>
           bind_res (u8_at m opt_hdr) (\<lambda>opt.
           if opt = 0xFF then Inr (pd1, prop)
           else
             bind_res (u8_at m (opt_hdr + 1)) (\<lambda>len.
             bind_res (payload_retain (unat len) pd1) (\<lambda>(r, pd2).
               case r of
                 None \<Rightarrow> Inr (pd2, prop)
               | Some opt_data \<Rightarrow>
                   bind_res (DHCP_option this opt_hdr (unat len) opt_data opt_arr prop) (\<lambda>prop.
                     DHCP_options this m opt_arr pd2 prop)))))"
  by pat_completeness auto

termination
  by (relation "measure (\<lambda>(this, m, opt_arr, pd, prop). pl_length pd)")
    (auto intro: le_less_trans [OF payload_retain_le payload_retain_less])

declare DHCP_options.simps [simp del]

definition DHCP_decode ::
  "pmodule \<Rightarrow> mem \<Rightarrow> payload \<Rightarrow> 'b property \<Rightarrow> (mod_id \<times> payload \<times> 'b property) res" where
  "DHCP_decode this m pd prop =
     bind_res (payload_retain 240 pd) (\<lambda>(r, pd).
       case r of
         None \<Rightarrow> Inr (Module_NONE, pd, prop)
       | Some hdr \<Rightarrow>
           bind_res (u8_at m (hdr + 2)) (\<lambda>hl.
           bind_res (property_puts (DHCP_puts this hdr hl) prop) (\<lambda>prop.
           bind_res (u8_at m (hdr + 44)) (\<lambda>s0.
           bind_res (property_puts (DHCP_text this ''server_host_name'' (hdr + 44) 64 s0) prop) (\<lambda>prop.
           bind_res (u8_at m (hdr + 108)) (\<lambda>b0.
           bind_res (property_puts (DHCP_text this ''boot_file_name'' (hdr + 108) 128 b0) prop) (\<lambda>prop.
           bind_res (retain_as ''Array'' (mod_param this ''options'') prop) (\<lambda>(opt_arr, prop).
           bind_res (DHCP_options this m opt_arr pd prop) (\<lambda>(pd, prop).
             Inr (Module_NONE, pd, prop))))))))))"

subsection \<open>One option\<close>

abbreviation dhcp_params :: "string list" where
  "dhcp_params \<equiv> [''msg_type'', ''hw_type'', ''hw_addr_len'', ''hops'', ''trans_id'', ''seconds'', ''flags'', ''client_addr'',
     ''your_client_addr'', ''next_server_addr'', ''relay_agent_addr'', ''client_hw_addr'', ''server_host_name'',
     ''boot_file_name'', ''magic_cookie'', ''options'', ''_option'', ''_opt_type'', ''_opt_length'', ''_opt_data'']"

definition dhcp_ready :: "(nat \<Rightarrow> string) \<Rightarrow> pmodule \<Rightarrow> bool" where
  "dhcp_ready D this \<longleftrightarrow> mod_ready D dhcp_params this \<and> D (pid_of this ''_option'') = ''DhcpOption''
     \<and> df_cons (mod_param this ''options'') = VArray []"

lemma dhcp_ready_param:
  "dhcp_ready D this \<Longrightarrow> n \<in> set dhcp_params \<Longrightarrow> 0 \<le> df_id (mod_param this n) \<and> def_typed D (mod_param this n)"
  unfolding dhcp_ready_def mod_ready_def by blast

lemma dhcp_ready_neq:
  "dhcp_ready D this \<Longrightarrow> a \<in> set dhcp_params \<Longrightarrow> b \<in> set dhcp_params \<Longrightarrow> pid_of this a = pid_of this b \<longleftrightarrow> a = b"
  using pid_of_eq_iff [of D dhcp_params this a b] unfolding dhcp_ready_def pid_of_def by blast

lemma Option_set_sel [simp]:
  "is_a n (v_cls (Option_set key r v)) = is_a n (v_cls v)" "v_active (Option_set key r v) = v_active v"
  "v_ptr (Option_set key r v) = v_ptr v" "v_len (Option_set key r v) = v_len v" "v_buf (Option_set key r v) = v_buf v"
  "v_endian (Option_set key r v) = v_endian v"
  by (cases "v_cls v"; simp add: Option_set_def is_a_def)+

text \<open>The map \<open>o\<close> has the three members.\<close>

definition option_refs :: "vclass \<Rightarrow> vref \<Rightarrow> vref \<Rightarrow> vref \<Rightarrow> bool" where
  "option_refs c rt rl rd \<longleftrightarrow> map_find c ''type'' = Inr rt \<and> map_find c ''length'' = Inr rl \<and> map_find c ''data'' = Inr rd"

lemma Option_set_refs:
  assumes "is_a ''DhcpOption'' (v_cls v)"
  shows "option_refs (v_cls (Option_set ''data'' rd (Option_set ''length'' rl (Option_set ''type'' rt v)))) rt rl rd"
proof (cases "v_cls v")
  case (VDhcpOption kvs)
  have keys: "map fst kvs = [''data'', ''length'', ''type'']"
    using assms by (simp add: VDhcpOption is_a_def)
  have "smap_find kvs k \<noteq> None" if "k \<in> set (map fst kvs)" for k
    using that by (simp add: smap_find_def map_of_eq_None_iff)
  from this [unfolded keys, of "''type''"] this [unfolded keys, of "''length''"] this [unfolded keys, of "''data''"] show ?thesis
    by (simp add: VDhcpOption option_refs_def Option_set_def map_find_def smap_find_assign)
qed (use assms in \<open>simp_all add: is_a_def\<close>)

lemma DHCP_option_returns:
  assumes ready: "dhcp_ready D this" and p: "property_ok D p"
    and k: "k < length (live p (pid_of this ''options''))" "v_cls (live p (pid_of this ''options'') ! k) = VArray refs"
    and ids: "po = pid_of this ''_option''" "pt = pid_of this ''_opt_type''" "pl = pid_of this ''_opt_length''"
      "pv = pid_of this ''_opt_data''" "pa = pid_of this ''options''"
  shows "returns (DHCP_option this h len d (Some (RVal pa k)) p) (\<lambda>p'. \<exists>vo vt vl vv.
    option_refs (v_cls vo) (RVal pt (length (live p pt))) (RVal pl (length (live p pl))) (RVal pv (length (live p pv)))
    \<and> heap_step D p ((live p)
        (pt := live p pt @ [value_set (PktPtr h) 1 BIG vt], pl := live p pl @ [value_set (PktPtr (h + 1)) 1 BIG vl],
         pv := live p pv @ [value_set (PktPtr d) len BIG vv], po := live p po @ [vo],
         pa := (live p pa)[k := (live p pa ! k)\<lparr>v_cls := VArray (refs @ [RVal po (length (live p po))])\<rparr>])) p')"
proof -
  have ne: "po \<noteq> pt" "po \<noteq> pl" "po \<noteq> pv" "po \<noteq> pa" "pt \<noteq> pl" "pt \<noteq> pv" "pt \<noteq> pa" "pl \<noteq> pv" "pl \<noteq> pa" "pv \<noteq> pa"
    using dhcp_ready_neq [OF ready] by (simp_all add: ids)
  note ne = ne ne [symmetric]
  have defs: "0 \<le> df_id (mod_param this n) \<and> def_typed D (mod_param this n)" if "n \<in> set dhcp_params" for n
    using dhcp_ready_param [OF ready that] .
  have Do: "D po = ''DhcpOption''"
    using ready by (simp add: dhcp_ready_def ids)
  have k': "k < length (live p pa)" "v_cls (live p pa ! k) = VArray refs"
    using k ids by simp_all
  note nat_ids = ids [unfolded pid_of_def, symmetric]
  show ?thesis
    unfolding DHCP_option_def
    apply (rule returns_bind, rule run_retain_as [OF heap_step_refl [OF p], where pid = po])
        apply (simp_all add: defs nat_ids Do)
    apply (rule returns_bind, erule run_retain_value [where pid = pt], simp_all add: defs nat_ids ne)
    apply (rule returns_bind, erule run_retain_value [where pid = pl], simp_all add: defs nat_ids ne)
    apply (rule returns_bind, erule run_retain_value [where pid = pv], simp_all add: defs nat_ids ne)
    apply (rule returns_bind, erule run_call, simp_all add: ne)+
    apply (erule run_push_ref, simp_all add: ne k')
    apply (blast intro: Option_set_refs)
    done
qed

subsection \<open>The loop over the options\<close>

function dhcp_parse :: "byte list \<Rightarrow> (byte \<times> byte list) list" where
  "dhcp_parse (t # l # bs) =
     (if t = 0xFF \<or> length bs < unat l then [] else (t, take (unat l) bs) # dhcp_parse (drop (unat l) bs))"
| "dhcp_parse [] = []"
| "dhcp_parse [t] = []"
  by pat_completeness auto
termination
  by (relation "measure length") auto

text \<open>The objects at the given places are the option \<open>(t, d)\<close>, and so on for a list of options.\<close>

definition option_built ::
  "mem \<Rightarrow> pmodule \<Rightarrow> (nat \<Rightarrow> pvalue list) \<Rightarrow> nat \<Rightarrow> nat \<Rightarrow> nat \<Rightarrow> nat \<Rightarrow> byte \<times> byte list \<Rightarrow> bool" where
  "option_built m this H i it il iv e \<longleftrightarrow>
     i < length (H (pid_of this ''_option''))
     \<and> option_refs (v_cls (H (pid_of this ''_option'') ! i)) (RVal (pid_of this ''_opt_type'') it)
          (RVal (pid_of this ''_opt_length'') il) (RVal (pid_of this ''_opt_data'') iv)
     \<and> it < length (H (pid_of this ''_opt_type'')) \<and> shown m (H (pid_of this ''_opt_type'') ! it) = Some ([fst e], BIG)
     \<and> il < length (H (pid_of this ''_opt_length''))
     \<and> shown m (H (pid_of this ''_opt_length'') ! il) = Some ([word_of_nat (length (snd e))], BIG)
     \<and> iv < length (H (pid_of this ''_opt_data'')) \<and> shown m (H (pid_of this ''_opt_data'') ! iv) = Some (snd e, BIG)"

fun options_built ::
  "mem \<Rightarrow> pmodule \<Rightarrow> (nat \<Rightarrow> pvalue list) \<Rightarrow> nat \<Rightarrow> nat \<Rightarrow> nat \<Rightarrow> nat \<Rightarrow> (byte \<times> byte list) list \<Rightarrow> bool" where
  "options_built m this H i it il iv [] = True"
| "options_built m this H i it il iv (e # es) =
     (option_built m this H i it il iv e \<and> options_built m this H (Suc i) (Suc it) (Suc il) (Suc iv) es)"

abbreviation options_grow :: "pmodule \<Rightarrow> (nat \<Rightarrow> pvalue list) \<Rightarrow> (nat \<Rightarrow> pvalue list) \<Rightarrow> bool" where
  "options_grow this \<equiv> heap_grow (pid_of this ''options'')
     (pid_of this ` {''options'', ''_option'', ''_opt_type'', ''_opt_length'', ''_opt_data''})"

lemma option_built_grow:
  assumes "dhcp_ready D this" "options_grow this H H'" "option_built m this H i it il iv e"
  shows "option_built m this H' i it il iv e"
proof -
  have "i < length (H (pid_of this n)) \<Longrightarrow> i < length (H' (pid_of this n)) \<and> H' (pid_of this n) ! i = H (pid_of this n) ! i"
    if "n \<in> {''_option'', ''_opt_type'', ''_opt_length'', ''_opt_data''}" for n i
    using that assms(2) dhcp_ready_neq [OF assms(1), of n "''options''"]
    by (intro prefix_nth) (auto simp: heap_grow_def)
  from this [of "''_option''"] this [of "''_opt_type''"] this [of "''_opt_length''"] this [of "''_opt_data''"] assms(3)
  show ?thesis
    by (simp add: option_built_def)
qed

definition DHCP_options_post ::
  "(nat \<Rightarrow> string) \<Rightarrow> pmodule \<Rightarrow> mem \<Rightarrow> nat \<Rightarrow> vref list \<Rightarrow> payload \<Rightarrow> 'b property \<Rightarrow> payload \<times> 'b property \<Rightarrow> bool" where
  "DHCP_options_post D this m k refs pd p = (\<lambda>(pd', p').
     payload_inv (length (m_pkt m)) pd' \<and> pl_ptr pd \<le> pl_ptr pd' \<and> property_ok D p' \<and> same_frame p p'
     \<and> options_grow this (live p) (live p')
     \<and> (let os = dhcp_parse (bslice (pl_ptr pd) (pl_length pd) (m_pkt m)); po = pid_of this ''_option''; pa = pid_of this ''options''
        in options_built m this (live p') (length (live p po)) (length (live p (pid_of this ''_opt_type'')))
             (length (live p (pid_of this ''_opt_length''))) (length (live p (pid_of this ''_opt_data''))) os
           \<and> live p' pa = (live p pa)[k := (live p pa ! k)\<lparr>v_cls := VArray (refs @ map (RVal po)
                [length (live p po)..<length (live p po) + length os])\<rparr>]))"

text \<open>What one turn of the loop does, and the turn in front of the rest of the loop.\<close>

definition option_added ::
  "(nat \<Rightarrow> string) \<Rightarrow> pmodule \<Rightarrow> mem \<Rightarrow> nat \<Rightarrow> vref list \<Rightarrow> byte \<times> byte list \<Rightarrow> 'b property \<Rightarrow> 'b property \<Rightarrow> bool" where
  "option_added D this m k refs e p p1 \<longleftrightarrow>
     property_ok D p1 \<and> same_frame p p1 \<and> options_grow this (live p) (live p1)
     \<and> option_built m this (live p1) (length (live p (pid_of this ''_option''))) (length (live p (pid_of this ''_opt_type'')))
         (length (live p (pid_of this ''_opt_length''))) (length (live p (pid_of this ''_opt_data''))) e
     \<and> live p1 (pid_of this ''options'') = (live p (pid_of this ''options''))[k := (live p (pid_of this ''options'') ! k)
         \<lparr>v_cls := VArray (refs @ [RVal (pid_of this ''_option'') (length (live p (pid_of this ''_option'')))])\<rparr>]
     \<and> length (live p1 (pid_of this ''_option'')) = Suc (length (live p (pid_of this ''_option'')))
     \<and> length (live p1 (pid_of this ''_opt_type'')) = Suc (length (live p (pid_of this ''_opt_type'')))
     \<and> length (live p1 (pid_of this ''_opt_length'')) = Suc (length (live p (pid_of this ''_opt_length'')))
     \<and> length (live p1 (pid_of this ''_opt_data'')) = Suc (length (live p (pid_of this ''_opt_data'')))"

lemma DHCP_option_added:
  assumes ready: "dhcp_ready D this" and p: "property_ok D p"
    and k: "k < length (live p (pid_of this ''options''))" "v_cls (live p (pid_of this ''options'') ! k) = VArray refs"
    and off: "off + 2 + unat (m_pkt m ! (off + 1)) \<le> length (m_pkt m)"
  shows "returns (DHCP_option this off (unat (m_pkt m ! (off + 1))) (off + 2) (Some (RVal (pid_of this ''options'') k)) p)
    (option_added D this m k refs (m_pkt m ! off, bslice (off + 2) (unat (m_pkt m ! (off + 1))) (m_pkt m)) p)"
proof (rule returns_mono [OF DHCP_option_returns [OF ready p k refl refl refl refl refl]], elim exE conjE)
  fix p1 vo vt vl vv
  let ?po = "pid_of this ''_option''" and ?pt = "pid_of this ''_opt_type''" and ?pl = "pid_of this ''_opt_length''"
    and ?pv = "pid_of this ''_opt_data''" and ?pa = "pid_of this ''options''"
  let ?l = "m_pkt m ! (off + 1)"
  assume refs: "option_refs (v_cls vo) (RVal ?pt (length (live p ?pt))) (RVal ?pl (length (live p ?pl))) (RVal ?pv (length (live p ?pv)))"
    and st: "heap_step D p ((live p)
        (?pt := live p ?pt @ [value_set (PktPtr off) 1 BIG vt], ?pl := live p ?pl @ [value_set (PktPtr (off + 1)) 1 BIG vl],
         ?pv := live p ?pv @ [value_set (PktPtr (off + 2)) (unat ?l) BIG vv], ?po := live p ?po @ [vo],
         ?pa := (live p ?pa)[k := (live p ?pa ! k)\<lparr>v_cls := VArray (refs @ [RVal ?po (length (live p ?po))])\<rparr>])) p1"
  have ne: "?po \<noteq> ?pt" "?po \<noteq> ?pl" "?po \<noteq> ?pv" "?po \<noteq> ?pa" "?pt \<noteq> ?pl" "?pt \<noteq> ?pv" "?pt \<noteq> ?pa" "?pl \<noteq> ?pv" "?pl \<noteq> ?pa" "?pv \<noteq> ?pa"
    using dhcp_ready_neq [OF ready] by simp_all
  note ne = ne ne [symmetric]
  have "option_built m this (live p1) (length (live p ?po)) (length (live p ?pt)) (length (live p ?pl)) (length (live p ?pv))
      (m_pkt m ! off, bslice (off + 2) (unat ?l) (m_pkt m))"
    using refs off
    by (simp add: option_built_def heap_stepD(3) [OF st] ne bslice_opt_def bslice_1 [simplified])
  moreover have "options_grow this (live p) (live p1)"
    by (simp add: heap_grow_def heap_stepD(3) [OF st] ne)
  ultimately show "option_added D this m k refs (m_pkt m ! off, bslice (off + 2) (unat ?l) (m_pkt m)) p p1"
    by (simp add: option_added_def heap_stepD(1,2) [OF st] heap_stepD(3) [OF st] ne)
qed

lemma DHCP_options_post_Cons:
  assumes ready: "dhcp_ready D this" and k: "k < length (live p (pid_of this ''options''))"
    and added: "option_added D this m k refs e p p1" and ptr: "pl_ptr pd \<le> pl_ptr pd1"
    and parse: "dhcp_parse (bslice (pl_ptr pd) (pl_length pd) (m_pkt m))
      = e # dhcp_parse (bslice (pl_ptr pd1) (pl_length pd1) (m_pkt m))"
    and post: "DHCP_options_post D this m k (refs @ [RVal (pid_of this ''_option'') (length (live p (pid_of this ''_option'')))])
      pd1 p1 r"
  shows "DHCP_options_post D this m k refs pd p r"
proof -
  obtain pd' p' where r: "r = (pd', p')" by (cases r)
  note post' = post [unfolded DHCP_options_post_def r prod.case Let_def]
  note added = added [unfolded option_added_def]
  have grow: "options_grow this (live p) (live p')"
    using heap_grow_trans [of _ _ "live p" "live p1" "live p'"] post' added by blast
  moreover have "option_built m this (live p') (length (live p (pid_of this ''_option'')))
      (length (live p (pid_of this ''_opt_type''))) (length (live p (pid_of this ''_opt_length'')))
      (length (live p (pid_of this ''_opt_data''))) e"
    using option_built_grow [OF ready] post' added by blast
  moreover have "[length (live p po)..<length (live p po) + Suc n] =
      length (live p po) # [Suc (length (live p po))..<Suc (length (live p po)) + n]" for po n
    by (simp add: upt_conv_Cons del: upt_Suc)
  ultimately show ?thesis
    using post' added ptr k
    by (simp add: DHCP_options_post_def r Let_def parse same_frame_def del: upt_Suc)
qed

lemma dhcp_parse_step:
  assumes "t = xs ! off" "l = xs ! (off + 1)" "n = 2 + unat l + n'" "off + n \<le> length xs" "t \<noteq> 0xFF"
  shows "dhcp_parse (bslice off n xs) = (t, bslice (off + 2) (unat l) xs) # dhcp_parse (bslice (off + 2 + unat l) n' xs)"
proof -
  have "bslice off n xs = t # l # bslice (off + 2) (unat l + n') xs"
    using assms by (simp add: bslice_def Cons_nth_drop_Suc [symmetric])
  moreover have "take (unat l) (bslice (off + 2) (unat l + n') xs) = bslice (off + 2) (unat l) xs"
    "drop (unat l) (bslice (off + 2) (unat l + n') xs) = bslice (off + 2 + unat l) n' xs"
    by (simp_all add: bslice_def drop_take add.commute)
  ultimately show ?thesis
    using assms by simp
qed

lemma dhcp_parse_stop:
  assumes "off + n \<le> length xs" "n < 2 \<or> xs ! off = 0xFF \<or> n < 2 + unat (xs ! (off + 1))"
  shows "dhcp_parse (bslice off n xs) = []"
proof (cases "n < 2")
  case True
  then have "n = 0 \<or> n = 1" by auto
  then show ?thesis
    using assms(1) by (auto simp: bslice_1 [simplified])
next
  case False
  then have "bslice off n xs = xs ! off # xs ! (off + 1) # bslice (off + 2) (n - 2) xs"
    using assms by (simp add: bslice_def Cons_nth_drop_Suc [symmetric] take_Cons' numeral_2_eq_2)
  then show ?thesis
    using assms False by auto
qed

lemma DHCP_options_post_stop:
  assumes "payload_inv (length (m_pkt m)) pd'" "pl_ptr pd \<le> pl_ptr pd'" "property_ok D p"
    "k < length (live p (pid_of this ''options''))" "v_cls (live p (pid_of this ''options'') ! k) = VArray refs"
    "dhcp_parse (bslice (pl_ptr pd) (pl_length pd) (m_pkt m)) = []"
  shows "DHCP_options_post D this m k refs pd p (pd', p)"
proof -
  let ?v = "live p (pid_of this ''options'') ! k"
  have "?v\<lparr>v_cls := VArray refs\<rparr> = ?v"
    using assms(5) by (cases ?v) simp
  then have "(live p (pid_of this ''options''))[k := ?v\<lparr>v_cls := VArray refs\<rparr>] = live p (pid_of this ''options'')"
    by (simp only: list_update_id)
  then show ?thesis
    using assms by (simp add: DHCP_options_post_def Let_def heap_grow_refl same_frame_def)
qed

lemma DHCP_options_returns:
  assumes ready: "dhcp_ready D this" and pd: "payload_inv (length (m_pkt m)) pd" and p: "property_ok D p"
    and k: "k < length (live p (pid_of this ''options''))" "v_cls (live p (pid_of this ''options'') ! k) = VArray refs"
  shows "returns (DHCP_options this m (Some (RVal (pid_of this ''options'') k)) pd p) (DHCP_options_post D this m k refs pd p)"
  using pd p k
proof (induction "pl_length pd" arbitrary: pd p refs rule: less_induct)
  case less
  note pd = less.prems(1) and p = less.prems(2) and k = less.prems(3,4)
  have inside: "pl_ptr pd + pl_length pd \<le> length (m_pkt m)"
    using pd by (simp add: payload_inv_def)
  note stop = DHCP_options_post_stop [OF _ _ p k dhcp_parse_stop [OF inside]]
  let ?arr = "Some (RVal (pid_of this ''options'') k)"
  let ?t = "m_pkt m ! pl_ptr pd" and ?l = "m_pkt m ! (pl_ptr pd + 1)"
  define pd1 where "pd1 = pd\<lparr>pl_length := pl_length pd - 2, pl_ptr := pl_ptr pd + 2\<rparr>"
  define pd2 where "pd2 = pd1\<lparr>pl_length := pl_length pd1 - unat ?l, pl_ptr := pl_ptr pd1 + unat ?l\<rparr>"
  consider (short) "pl_length pd < 2" | (finish) "2 \<le> pl_length pd" "?t = 0xFF"
    | (cut) "2 \<le> pl_length pd" "?t \<noteq> 0xFF" "pl_length pd < 2 + unat ?l"
    | (more) "2 + unat ?l \<le> pl_length pd" "?t \<noteq> 0xFF"
    by linarith
  then show ?case
  proof cases
    case short
    then show ?thesis
      by (subst DHCP_options.simps) (simp add: payload_retain_short [OF pd] returns_def stop pd)
  next
    case finish
    then have "payload_inv (length (m_pkt m)) pd1" "pl_ptr pd \<le> pl_ptr pd1"
      using pd by (auto simp: pd1_def payload_inv_def)
    moreover have "payload_retain 2 pd = Inr (Some (pl_ptr pd), pd1)"
      using payload_retain_ok [OF pd finish(1)] by (simp add: pd1_def)
    ultimately show ?thesis
      using finish inside by (subst DHCP_options.simps) (simp add: returns_def stop)
  next
    case cut
    then have pd1: "payload_inv (length (m_pkt m)) pd1" "pl_length pd1 < unat ?l" "pl_ptr pd \<le> pl_ptr pd1"
      using pd by (auto simp: pd1_def payload_inv_def)
    moreover have "payload_retain 2 pd = Inr (Some (pl_ptr pd), pd1)"
      using payload_retain_ok [OF pd cut(1)] by (simp add: pd1_def)
    ultimately show ?thesis
      using cut inside payload_retain_short [OF pd1(1,2)]
      by (subst DHCP_options.simps) (simp add: returns_def stop)
  next
    case more
    then have pd1: "payload_inv (length (m_pkt m)) pd1" "unat ?l \<le> pl_length pd1" "2 \<le> pl_length pd"
      using pd by (auto simp: pd1_def payload_inv_def)
    then have pd2: "payload_inv (length (m_pkt m)) pd2" "pl_length pd2 < pl_length pd"
      using pd more by (auto simp: pd1_def pd2_def payload_inv_def)
    have "payload_retain 2 pd = Inr (Some (pl_ptr pd), pd1)" "payload_retain (unat ?l) pd1 = Inr (Some (pl_ptr pd1), pd2)"
      using payload_retain_ok [OF pd pd1(3)] payload_retain_ok [OF pd1(1,2)] by (simp_all add: pd1_def pd2_def)
    then have eq: "DHCP_options this m ?arr pd p =
        bind_res (DHCP_option this (pl_ptr pd) (unat ?l) (pl_ptr pd1) ?arr p) (\<lambda>p1. DHCP_options this m ?arr pd2 p1)"
      using more inside by (subst DHCP_options.simps) simp
    let ?e = "(?t, bslice (pl_ptr pd + 2) (unat ?l) (m_pkt m))"
    have d: "pl_ptr pd1 = pl_ptr pd + 2" "pl_ptr pd + 2 + unat ?l \<le> length (m_pkt m)"
      using more inside by (simp_all add: pd1_def)
    obtain p1 where p1: "DHCP_option this (pl_ptr pd) (unat ?l) (pl_ptr pd1) ?arr p = Inr p1"
        "option_added D this m k refs ?e p p1"
      using DHCP_option_added [OF ready p k d(2)] by (auto simp: d(1) elim: returns_obtain)
    have "returns (DHCP_options this m ?arr pd2 p1)
        (DHCP_options_post D this m k (refs @ [RVal (pid_of this ''_option'') (length (live p (pid_of this ''_option'')))]) pd2 p1)"
      using less.hyps [OF pd2(2,1)] p1(2) k by (simp add: option_added_def)
    moreover have "dhcp_parse (bslice (pl_ptr pd) (pl_length pd) (m_pkt m))
        = ?e # dhcp_parse (bslice (pl_ptr pd2) (pl_length pd2) (m_pkt m))"
      using dhcp_parse_step [OF refl refl _ inside more(2), of "pl_length pd2"] more(1) by (simp add: pd1_def pd2_def)
    moreover have "pl_ptr pd \<le> pl_ptr pd2"
      by (simp add: pd1_def pd2_def)
    ultimately show ?thesis
      using DHCP_options_post_Cons [OF ready k(1) p1(2), of pd pd2] p1(1) by (simp add: eq) (blast intro: returns_mono)
  qed
qed

subsection \<open>The whole message\<close>

definition DHCP_writes :: "pmodule \<Rightarrow> mem \<Rightarrow> nat \<Rightarrow> put list" where
  "DHCP_writes this m hdr =
     DHCP_puts this hdr (m_pkt m ! (hdr + 2))
     @ DHCP_text this ''server_host_name'' (hdr + 44) 64 (m_pkt m ! (hdr + 44))
     @ DHCP_text this ''boot_file_name'' (hdr + 108) 128 (m_pkt m ! (hdr + 108))"

definition DHCP_post ::
  "(nat \<Rightarrow> string) \<Rightarrow> pmodule \<Rightarrow> mem \<Rightarrow> payload \<Rightarrow> 'b property \<Rightarrow> mod_id \<times> payload \<times> 'b property \<Rightarrow> bool" where
  "DHCP_post D this m pd p = (\<lambda>(nxt, pd', p'). nxt = Module_NONE
     \<and> (if pl_length pd < 240 then pd' = pd \<and> p' = p
        else \<exists>pd1 p1 v p2. moved (length (m_pkt m)) 240 pd pd1 \<and> adds D m (DHCP_writes this m (pl_ptr pd)) [] p p1
          \<and> heap_step D p1 ((live p1)(pid_of this ''options'' := live p1 (pid_of this ''options'') @ [v])) p2
          \<and> v_cls v = VArray []
          \<and> DHCP_options_post D this m (length (live p1 (pid_of this ''options''))) [] pd1 p2 (pd', p')))"

lemma dhcp_puts_typed:
  assumes "dhcp_ready D this"
  shows "list_all (put_typed D) (DHCP_puts this hdr hl)" "list_all (put_typed D) (DHCP_text this ''server_host_name'' off n b)"
    "list_all (put_typed D) (DHCP_text this ''boot_file_name'' off n b)"
  using dhcp_ready_param [OF assms] by (simp_all add: DHCP_puts_def DHCP_text_def)

lemma DHCP_returns:
  assumes ready: "dhcp_ready D this" and pd: "payload_inv (length (m_pkt m)) pd" and p: "property_ok D p"
  shows "returns (DHCP_decode this m pd p) (DHCP_post D this m pd p)"
  unfolding DHCP_decode_def
proof (rule returns_bind, rule returns_retain [OF pd], goal_cases)
  case 1
  then show ?case by (auto intro!: wp simp: DHCP_post_def)
next
  case (2 pd1)
  note pd1 = this
  let ?hdr = "pl_ptr pd" and ?pa = "pid_of this ''options''"
  have in_pkt: "?hdr + 240 \<le> length (m_pkt m)" "\<not> pl_length pd < 240"
    using pd1 by auto
  have arr: "0 \<le> df_id (mod_param this ''options'')" "def_typed D (mod_param this ''options'')"
    "df_cons (mod_param this ''options'') = VArray []" "nat (df_id (mod_param this ''options'')) = ?pa"
    using dhcp_ready_param [OF ready] ready by (simp_all add: dhcp_ready_def pid_of_def)
  then have D: "D ?pa = ''Array''"
    by (simp add: def_typed_def is_a_def)
  have fin: "returns (bind_res (retain_as ''Array'' (mod_param this ''options'') p1) (\<lambda>(opt_arr, prop).
      bind_res (DHCP_options this m opt_arr pd1 prop) (\<lambda>(pd, prop). Inr (Module_NONE, pd, prop)))) (DHCP_post D this m pd p)"
    if p1: "adds D m (DHCP_writes this m ?hdr) [] p p1" for p1
  proof (rule returns_bind, rule run_retain_as [OF heap_step_refl [OF adds_wf [OF p1]] arr(1,2,4) D], goal_cases)
    case (1 v p2)
    have v: "v_cls v = VArray []"
      by (rule fresh_array [OF 1(2) arr(3) 1(3)])
    have "returns (DHCP_options this m (Some (RVal ?pa (length (live p1 ?pa)))) pd1 p2)
        (DHCP_options_post D this m (length (live p1 ?pa)) [] pd1 p2)"
      using heap_stepD(1,3) [OF 1(1)] by (intro DHCP_options_returns [OF ready pd1(2)]) (simp_all add: v)
    then show ?case
      using pd1(1) p1 1(1) v in_pkt(2) unfolding DHCP_post_def by (auto intro!: wp elim!: returns_mono)
  qed
  show ?case
    unfolding prod.case option.case
    apply (rule returns_bind, rule returns_u8, use in_pkt in simp)
    apply (rule returns_bind, rule returns_adds [OF adds_refl [OF p] dhcp_puts_typed(1) [OF ready]])
    apply (rule returns_bind, rule returns_u8, use in_pkt in simp)
    apply (rule returns_bind, erule returns_adds [OF _ dhcp_puts_typed(2) [OF ready]])
    apply (rule returns_bind, rule returns_u8, use in_pkt in simp)
    apply (rule returns_bind, erule returns_adds [OF _ dhcp_puts_typed(3) [OF ready]])
    apply (rule fin, simp add: DHCP_writes_def)
    done
qed

lemma DHCP_post_advance:
  assumes "DHCP_post D this m pd p (nxt, pd', p')" "payload_inv (length (m_pkt m)) pd" "property_ok D p"
  shows "advance D m pd p pd' p'"
proof (cases "pl_length pd < 240")
  case True
  with assms show ?thesis by (simp add: DHCP_post_def advance_refl)
next
  case False
  let ?pa = "pid_of this ''options''"
  obtain pd1 p1 v p2 where h: "moved (length (m_pkt m)) 240 pd pd1" "adds D m (DHCP_writes this m (pl_ptr pd)) [] p p1"
      "heap_step D p1 ((live p1)(?pa := live p1 ?pa @ [v])) p2"
      "DHCP_options_post D this m (length (live p1 ?pa)) [] pd1 p2 (pd', p')"
    using assms(1) False by (auto simp: DHCP_post_def)
  have post: "payload_inv (length (m_pkt m)) pd'" "pl_ptr pd1 \<le> pl_ptr pd'" "property_ok D p'" "same_frame p2 p'"
      "options_grow this (live p2) (live p'')" if "p'' = p'" for p''
    using h(4) that by (simp_all add: DHCP_options_post_def Let_def)
  have pa: "view m p' ?pa = view m p2 ?pa"
    using h(4) heap_stepD(3) [OF h(3)] by (simp add: DHCP_options_post_def Let_def view_def view_prefix_upd)
  have "prefix (view m p2 pid) (view m p' pid)" for pid
    using post(5) [OF refl] pa by (cases "pid = ?pa") (auto simp: heap_grow_def view_def map_mono_prefix)
  moreover have "prefix (view m p1 pid) (view m p2 pid)" for pid
    using heap_stepD(3) [OF h(3)] by (simp add: view_def)
  moreover have "prefix (view m p pid) (view m p1 pid)" "events p1 = events p" for pid
    using h(2) by (simp_all add: adds_def)
  ultimately have "prefix (view m p pid) (view m p' pid)" for pid
    by (blast intro: prefix_order.trans)
  moreover have "events p' = events p"
    using same_frame_events [OF post(4) [OF refl]] same_frame_events [OF heap_stepD(2) [OF h(3)]] h(2) by (simp add: adds_def)
  ultimately show ?thesis
    using post(1-3) [OF refl] h(1) by (simp add: advance_def moved_def)
qed

interpretation dhcp: protocol DHCP_decode dhcp_ready "\<lambda>_. {}"
proof (unfold_locales, goal_cases)
  case (1 D this m pd p)
  show ?case
  proof (rule returns_mono [OF DHCP_returns [OF 1]])
    fix a assume "DHCP_post D this m pd p a"
    then show "case a of (nxt, pd', p') \<Rightarrow> (nxt = Module_NONE \<or> nxt \<in> {}) \<and> advance D m pd p pd' p'"
      using DHCP_post_advance [OF _ 1(2,3)] by (cases a) (auto simp: DHCP_post_def)
  qed
qed

subsection \<open>Reading the options\<close>

text \<open>What a reader finds: the three members of every map the array refers to.\<close>

definition option_shown ::
  "mem \<Rightarrow> (nat \<Rightarrow> pvalue list) \<Rightarrow> vref \<Rightarrow> (byte list \<times> endian) option \<times> (byte list \<times> endian) option \<times> (byte list \<times> endian) option" where
  "option_shown m H r =
     (Option.bind (member_at H r ''type'') (shown m), Option.bind (member_at H r ''length'') (shown m),
      Option.bind (member_at H r ''data'') (shown m))"

lemma option_built_shown:
  "option_built m this H i it il iv e \<Longrightarrow>
     option_shown m H (RVal (pid_of this ''_option'') i)
     = (Some ([fst e], BIG), Some ([word_of_nat (length (snd e))], BIG), Some (snd e, BIG))"
  by (simp add: option_built_def option_shown_def member_at_def obj_at_def option_refs_def)

lemma options_built_shown:
  "options_built m this H i it il iv es \<Longrightarrow>
     map (\<lambda>j. option_shown m H (RVal (pid_of this ''_option'') j)) [i..<i + length es]
     = map (\<lambda>e. (Some ([fst e], BIG), Some ([word_of_nat (length (snd e))], BIG), Some (snd e, BIG))) es"
proof (induction es arbitrary: i it il iv)
  case (Cons e es)
  have "[i..<i + length (e # es)] = i # [Suc i..<Suc i + length es]"
    by (simp add: upt_conv_Cons del: upt_Suc)
  then show ?case
    using Cons.prems Cons.IH [of "Suc i" "Suc it" "Suc il" "Suc iv"] option_built_shown [of m this H i it il iv e] by (simp del: upt_Suc)
qed simp

text \<open>The encoding of an option in a message, and what follows the options: nothing, or the end option and padding.\<close>

definition dhcp_wire :: "byte \<times> byte list \<Rightarrow> byte list" where
  "dhcp_wire e = fst e # word_of_nat (length (snd e)) # snd e"

lemma dhcp_parse_wire:
  assumes "\<forall>e \<in> set es. fst e \<noteq> 0xFF \<and> length (snd e) < 256" "rest = [] \<or> hd rest = 0xFF"
  shows "dhcp_parse (concat (map dhcp_wire es) @ rest) = es"
  using assms(1)
proof (induction es)
  case Nil
  show ?case
    using assms(2) by (cases rest rule: dhcp_parse.cases) auto
next
  case (Cons e es)
  then have "unat (word_of_nat (length (snd e)) :: byte) = length (snd e)"
    by (simp add: unat_of_nat)
  with Cons show ?case
    by (simp add: dhcp_wire_def)
qed

text \<open>The fields of the fixed header: name, offset, size and byte order of the value.\<close>

definition dhcp_fields :: "(string \<times> nat \<times> nat \<times> endian) list" where
  "dhcp_fields =
     [(''msg_type'', 0, 1, BIG), (''hw_type'', 1, 1, BIG), (''hw_addr_len'', 2, 1, BIG), (''hops'', 3, 1, BIG),
      (''trans_id'', 4, 4, BIG), (''flags'', 10, 2, BIG), (''client_addr'', 12, 4, BIG),
      (''your_client_addr'', 16, 4, BIG), (''next_server_addr'', 20, 4, BIG), (''relay_agent_addr'', 24, 4, BIG),
      (''magic_cookie'', 236, 4, BIG), (''seconds'', 8, 2, LITTLE)]"

text \<open>Writes given by the names of the parameters.\<close>

definition named_puts :: "'a pmodule_scheme \<Rightarrow> (string \<times> nat \<times> nat \<times> endian) list \<Rightarrow> put list" where
  "named_puts this L = map (\<lambda>(n, off, sz, e). PSet (mod_param this n) (PktPtr off) sz e) L"

lemma emitted_named:
  assumes "mod_ready D names this" "fst ` set L \<subseteq> set names" "n \<in> set names"
  shows "emitted m (named_puts this L) (pid_of this n)
    = map (\<lambda>(_, off, sz, e). map_option (\<lambda>bs. (bs, e)) (bslice_opt off sz (m_pkt m))) (filter (\<lambda>f. fst f = n) L)"
  using assms(2)
proof (induction L)
  case (Cons f L)
  obtain a off sz e where f: "f = (a, off, sz, e)" by (cases f)
  have "nat (df_id (mod_param this a)) = pid_of this n \<longleftrightarrow> a = n"
    using Cons.prems by (intro pid_of_eq_iff [OF assms(1) _ assms(3)]) (simp add: f)
  then show ?case
    using Cons by (simp add: f named_puts_def emitted_def)
qed (simp add: named_puts_def emitted_def)

definition dhcp_writes :: "mem \<Rightarrow> nat \<Rightarrow> (string \<times> nat \<times> nat \<times> endian) list" where
  "dhcp_writes m hdr =
     map (\<lambda>(n, off, sz, e). (n, hdr + off, sz, e)) dhcp_fields
     @ [(''client_hw_addr'', hdr + 28, unat (m_pkt m ! (hdr + 2)), BIG)]
     @ (if m_pkt m ! (hdr + 44) \<noteq> 0 then [(''server_host_name'', hdr + 44, 64, BIG)] else [])
     @ (if m_pkt m ! (hdr + 108) \<noteq> 0 then [(''boot_file_name'', hdr + 108, 128, BIG)] else [])"

lemma emitted_DHCP_writes:
  assumes "dhcp_ready D this" "n \<in> set dhcp_params"
  shows "emitted m (DHCP_writes this m hdr) (pid_of this n) =
    map (\<lambda>(_, off, sz, e). map_option (\<lambda>bs. (bs, e)) (bslice_opt off sz (m_pkt m))) (filter (\<lambda>f. fst f = n) (dhcp_writes m hdr))"
proof -
  have ready: "mod_ready D dhcp_params this"
    using assms(1) by (simp only: dhcp_ready_def)
  have "DHCP_writes this m hdr = named_puts this (dhcp_writes m hdr)"
    by (simp add: DHCP_writes_def DHCP_puts_def DHCP_text_def dhcp_writes_def dhcp_fields_def named_puts_def)
  moreover have "fst ` set (dhcp_writes m hdr) \<subseteq> set dhcp_params"
    by (cases "m_pkt m ! (hdr + 44) = 0"; cases "m_pkt m ! (hdr + 108) = 0"; simp add: dhcp_writes_def dhcp_fields_def)
  ultimately show ?thesis
    by (simp only: emitted_named [OF ready _ assms(2)])
qed

definition dhcp_text_fields :: "(string \<times> nat \<times> nat) list" where
  "dhcp_text_fields = [(''server_host_name'', 44, 64), (''boot_file_name'', 108, 128)]"

text \<open>The parameters that the options do not touch.\<close>

definition dhcp_header_params :: "string list" where
  "dhcp_header_params = map fst dhcp_fields @ [''client_hw_addr'', ''server_host_name'', ''boot_file_name'']"

lemma dhcp_header_params:
  "set dhcp_header_params \<subseteq> set dhcp_params"
  "set dhcp_header_params \<inter> {''options'', ''_option'', ''_opt_type'', ''_opt_length'', ''_opt_data''} = {}"
  by (simp_all add: dhcp_header_params_def dhcp_fields_def)

lemma dhcp_fields_params: "f \<in> set dhcp_fields \<Longrightarrow> fst f \<in> set dhcp_header_params"
  by (simp only: dhcp_header_params_def set_append set_map Un_iff image_eqI simp_thms)

lemma DHCP_field_view:
  assumes "hdr + 240 \<le> length (m_pkt m)" "(n, off, sz, e) \<in> set dhcp_fields"
  shows "map (\<lambda>(_, off, sz, e). map_option (\<lambda>bs. (bs, e)) (bslice_opt off sz (m_pkt m))) (filter (\<lambda>f. fst f = n) (dhcp_writes m hdr))
    = [Some (bslice (hdr + off) sz (m_pkt m), e)]"
  using assms(2) unfolding dhcp_fields_def
  by (simp only: list.set insert_iff empty_iff prod.inject, elim disjE conjE FalseE)
    (simp_all add: dhcp_writes_def dhcp_fields_def bslice_opt_def order_trans [OF _ assms(1)])

lemma DHCP_text_view:
  assumes "hdr + 240 \<le> length (m_pkt m)" "(n, off, sz) \<in> set dhcp_text_fields"
  shows "map (\<lambda>(_, off, sz, e). map_option (\<lambda>bs. (bs, e)) (bslice_opt off sz (m_pkt m))) (filter (\<lambda>f. fst f = n) (dhcp_writes m hdr))
    = (if m_pkt m ! (hdr + off) = 0 then [] else [Some (bslice (hdr + off) sz (m_pkt m), BIG)])"
    and "n \<in> set dhcp_header_params"
proof -
  consider "n = ''server_host_name''" "off = 44" "sz = 64" | "n = ''boot_file_name''" "off = 108" "sz = 128"
    using assms(2) unfolding dhcp_text_fields_def by (simp only: list.set insert_iff empty_iff prod.inject) blast
  note cases = this
  show "n \<in> set dhcp_header_params"
    using cases by cases (simp_all only: dhcp_header_params_def set_append list.set Un_iff insert_iff simp_thms)
  show "map (\<lambda>(_, off, sz, e). map_option (\<lambda>bs. (bs, e)) (bslice_opt off sz (m_pkt m))) (filter (\<lambda>f. fst f = n) (dhcp_writes m hdr))
    = (if m_pkt m ! (hdr + off) = 0 then [] else [Some (bslice (hdr + off) sz (m_pkt m), BIG)])"
    using cases by cases (simp_all add: dhcp_writes_def dhcp_fields_def bslice_opt_def order_trans [OF _ assms(1)])
qed

text \<open>The last object of \<^verbatim>\<open>options\<close> is an array of references to the objects of the options.\<close>

lemma DHCP_post_built:
  assumes "240 \<le> pl_length pd" "DHCP_post D this m pd p (nxt, pd', p')"
    and "os = dhcp_parse (bslice (pl_ptr pd + 240) (pl_length pd - 240) (m_pkt m))"
  obtains vs v i it il iv where "live p' (pid_of this ''options'') = vs @ [v\<lparr>v_cls := VArray (map (RVal (pid_of this ''_option'')) [i..<i + length os])\<rparr>]"
    "options_built m this (live p') i it il iv os"
proof -
  let ?pa = "pid_of this ''options''"
  obtain pd1 p1 v p2 where h: "moved (length (m_pkt m)) 240 pd pd1" "heap_step D p1 ((live p1)(?pa := live p1 ?pa @ [v])) p2"
      "DHCP_options_post D this m (length (live p1 ?pa)) [] pd1 p2 (pd', p')"
    using assms(1,2) by (auto simp: DHCP_post_def)
  have os: "os = dhcp_parse (bslice (pl_ptr pd1) (pl_length pd1) (m_pkt m))"
    using h(1) assms(3) by (simp add: moved_def)
  note h3 = h(3) [unfolded DHCP_options_post_def prod.case Let_def, folded os]
  show thesis
    by (rule that [where vs = "live p1 ?pa" and v = v and i = "length (live p2 (pid_of this ''_option''))"]) (use h3 in \<open>simp add: heap_stepD(3) [OF h(2)]\<close>, use h3 in blast)
qed

text \<open>What the values of the header and of the options are after a complete header.\<close>

lemma DHCP_post_reads:
  assumes ready: "dhcp_ready D this" and len: "240 \<le> pl_length pd" and post: "DHCP_post D this m pd p (nxt, pd', p')"
  shows "n \<in> set dhcp_header_params \<Longrightarrow>
      view m p' (pid_of this n) = view m p (pid_of this n) @ emitted m (DHCP_writes this m (pl_ptr pd)) (pid_of this n)"
    "\<exists>r. live p' (pid_of this ''options'') \<noteq> [] \<and> r = RVal (pid_of this ''options'') (length (live p' (pid_of this ''options'')) - 1)
      \<and> map (option_shown m (live p')) (elements_at (live p') r)
        = map (\<lambda>e. (Some ([fst e], BIG), Some ([word_of_nat (length (snd e))], BIG), Some (snd e, BIG)))
            (dhcp_parse (bslice (pl_ptr pd + 240) (pl_length pd - 240) (m_pkt m)))"
proof -
  let ?pa = "pid_of this ''options''" and ?po = "pid_of this ''_option''"
  obtain pd1 p1 v p2 where h: "moved (length (m_pkt m)) 240 pd pd1" "adds D m (DHCP_writes this m (pl_ptr pd)) [] p p1"
      "heap_step D p1 ((live p1)(?pa := live p1 ?pa @ [v])) p2"
      "DHCP_options_post D this m (length (live p1 ?pa)) [] pd1 p2 (pd', p')"
    using post len by (auto simp: DHCP_post_def)
  note p2 = heap_stepD(3) [OF h(3)] and h4 = h(4) [unfolded DHCP_options_post_def prod.case Let_def]
  show "view m p' (pid_of this n) = view m p (pid_of this n) @ emitted m (DHCP_writes this m (pl_ptr pd)) (pid_of this n)"
    if n: "n \<in> set dhcp_header_params"
  proof -
    have "pid_of this n \<noteq> pid_of this k" if "k \<in> {''options'', ''_option'', ''_opt_type'', ''_opt_length'', ''_opt_data''}" for k
    proof -
      have "n \<noteq> k"
        using n that dhcp_header_params(2) by blast
      moreover have "k \<in> set dhcp_params"
        using that by (elim insertE emptyE) simp_all
      ultimately show ?thesis
        by (simp only: dhcp_ready_neq [OF ready subsetD [OF dhcp_header_params(1) n]] not_False_eq_True)
    qed
    then have "pid_of this n \<notin> pid_of this ` {''options'', ''_option'', ''_opt_type'', ''_opt_length'', ''_opt_data''}"
      by blast
    then have "live p' (pid_of this n) = live p1 (pid_of this n)"
      using h4 p2 by (simp add: heap_grow_def)
    then show ?thesis
      using h(2) by (simp add: adds_def view_def)
  qed
  let ?os = "dhcp_parse (bslice (pl_ptr pd + 240) (pl_length pd - 240) (m_pkt m))"
  obtain vs w i it il iv where H: "live p' ?pa = vs @ [w\<lparr>v_cls := VArray (map (RVal ?po) [i..<i + length ?os])\<rparr>]"
      "options_built m this (live p') i it il iv ?os"
    using DHCP_post_built [OF len post refl] .
  from options_built_shown [OF H(2)] show "\<exists>r. live p' ?pa \<noteq> [] \<and> r = RVal ?pa (length (live p' ?pa) - 1)
      \<and> map (option_shown m (live p')) (elements_at (live p') r)
        = map (\<lambda>e. (Some ([fst e], BIG), Some ([word_of_nat (length (snd e))], BIG), Some (snd e, BIG))) ?os"
    by (simp add: H(1) elements_at_def obj_at_def comp_def)
qed


definition demo_dhcp :: pmodule where "demo_dhcp = solo DHCP_new"

definition demo_dhcp_packet :: "byte list" where
  "demo_dhcp_packet = [1, 1, 6, 0] @ replicate 236 0 @ concat (map dhcp_wire [(53, [1]), (12, [0x61, 0x62])]) @ [0xFF, 0]"

lemma demo_dhcp_ready: "dhcp_ready (demo_D demo_dhcp) demo_dhcp"
proof -
  have "map fst (mo_param_map DHCP_new) = [''_opt_data'', ''_opt_length'', ''_opt_type'', ''_option'', ''boot_file_name'',
      ''client_addr'', ''client_hw_addr'', ''flags'', ''hops'', ''hw_addr_len'', ''hw_type'', ''magic_cookie'', ''msg_type'',
      ''next_server_addr'', ''options'', ''relay_agent_addr'', ''seconds'', ''server_host_name'', ''trans_id'', ''your_client_addr'']"
    "list_all (\<lambda>e. cls_wf (df_cons (snd e))) (mo_param_map DHCP_new)"
    by code_simp+
  then have "mod_ready (demo_D (solo DHCP_new)) dhcp_params (solo DHCP_new)"
    by (intro solo_ready) (simp_all flip: list.set_map)
  moreover have "demo_D demo_dhcp (pid_of demo_dhcp ''_option'') = ''DhcpOption''" "df_cons (mod_param demo_dhcp ''options'') = VArray []"
    by code_simp+
  ultimately show ?thesis
    by (simp only: dhcp_ready_def demo_dhcp_def simp_thms)
qed


end
