(* ===== verification/PM_Label.thy ===== *)
theory PM_Label
  imports PM_Object
begin

text \<open>
  \<^verbatim>\<open>NameService::parse_label\<close> of \<^verbatim>\<open>src/modules/utils.cc\<close>: the reader of domain names, with compression pointers. Pointers are offsets
  into the packet; \<open>sp\<close> is the start of the message, \<open>total\<close> the number of bytes after its header, \<open>rp\<close> where the reader goes on after a
  jump, and \<open>s\<close> the text, absent when the caller passes \<^verbatim>\<open>NULL\<close>. Every turn of the loop reads a label of at least one byte and the
  loop stops when the labels have 256 bytes, which bounds it for every packet, cyclic pointers included.
\<close>

unbundle bit_operations_syntax

declare bind_res_cong [fundef_cong]

definition label_jump ::
  "mem \<Rightarrow> nat \<Rightarrow> nat \<Rightarrow> nat \<Rightarrow> nat \<Rightarrow> nat option \<Rightarrow> ((nat \<times> nat \<times> nat option) option) res" where
  "label_jump m sp total_len p remain rp =
     bind_res (u8_at m p) (\<lambda>b.
       if b AND 0xC0 = 0xC0 then
         if remain < 2 then Inr None
         else
           bind_res (u16_at m p) (\<lambda>h.
             let jmp = unat (ntohs h AND 0x3FFF)
             in if total_len \<le> jmp then Inr None
                else Inr (Some (sp + jmp, total_len - jmp, case rp of None \<Rightarrow> Some (p + 2) | Some q \<Rightarrow> Some q)))
       else Inr (Some (p, remain, rp)))"

text \<open>\<^verbatim>\<open>s->append(...); s->append(".", 1)\<close>.\<close>

definition label_append :: "mem \<Rightarrow> nat \<Rightarrow> nat \<Rightarrow> string option \<Rightarrow> (string option) res" where
  "label_append m p n s =
     (case s of
        None \<Rightarrow> Inr None
      | Some t \<Rightarrow> bind_res (pkt_bytes m p n) (\<lambda>bs. Inr (Some (t @ map char_of_byte bs @ ''.''))))"

function label_loop ::
  "mem \<Rightarrow> nat \<Rightarrow> nat \<Rightarrow> nat \<Rightarrow> nat \<Rightarrow> nat option \<Rightarrow> nat \<Rightarrow> string option \<Rightarrow> (nat option \<times> string option) res" where
  "label_loop m sp total_len p remain rp len s =
     (if \<not> len < 256 then Inr (None, s)
      else if remain < 1 then Inr (None, s)
      else
        bind_res (label_jump m sp total_len p remain rp) (\<lambda>j.
          case j of
            None \<Rightarrow> Inr (None, s)
          | Some (p, remain, rp) \<Rightarrow>
              bind_res (u8_at m p) (\<lambda>b.
                let data_len = unat b
                in if data_len = 0 then Inr (Some (case rp of None \<Rightarrow> p + 1 | Some q \<Rightarrow> q), s)
                   else if remain \<le> data_len + 1 then Inr (None, s)
                   else
                     bind_res (label_append m (p + 1) data_len s) (\<lambda>s.
                       label_loop m sp total_len (p + data_len + 1) (remain - (data_len + 1)) rp (len + data_len) s))))"
  by pat_completeness auto
termination
  by (relation "measure (\<lambda>(m, sp, total_len, p, remain, rp, len, s). 256 - len)") auto

declare label_loop.simps [simp del]

definition parse_label :: "mem \<Rightarrow> nat \<Rightarrow> nat \<Rightarrow> nat \<Rightarrow> nat \<Rightarrow> string option \<Rightarrow> (nat option \<times> string option) res" where
  "parse_label m p remain sp total_len s = label_loop m sp total_len p remain None 0 (map_option (\<lambda>_. []) s)"

subsection \<open>Safety\<close>

text \<open>Where the reader goes on, when the name began in a region that ends at \<open>E\<close>.\<close>

definition label_end :: "nat \<Rightarrow> nat \<Rightarrow> nat \<Rightarrow> nat option \<Rightarrow> bool" where
  "label_end E p remain rp \<longleftrightarrow> (case rp of None \<Rightarrow> p + remain \<le> E | Some q \<Rightarrow> q \<le> E)"

lemma label_jump_cases:
  assumes "sp + total_len \<le> length (m_pkt m)" "p + remain \<le> length (m_pkt m)" "label_end E p remain rp" "1 \<le> remain"
  obtains "label_jump m sp total_len p remain rp = Inr None"
  | p' remain' rp' where "label_jump m sp total_len p remain rp = Inr (Some (p', remain', rp'))"
      "p' + remain' \<le> length (m_pkt m)" "label_end E p' remain' rp'" "1 \<le> remain'"
proof -
  let ?j = "unat (ntohs (load_le (bslice p 2 (m_pkt m))) AND 0x3FFF)"
  have p: "p < length (m_pkt m)"
    using assms by simp
  consider "m_pkt m ! p AND 0xC0 \<noteq> 0xC0" | "m_pkt m ! p AND 0xC0 = 0xC0" "remain < 2 \<or> total_len \<le> ?j"
    | "m_pkt m ! p AND 0xC0 = 0xC0" "2 \<le> remain" "?j < total_len"
    by linarith
  then show thesis
  proof cases
    case 1
    then show thesis
      using assms p that(2) by (simp add: label_jump_def)
  next
    case 2
    then show thesis
      using assms p by (intro that(1)) (auto simp: label_jump_def Let_def)
  next
    case 3
    then show thesis
      using assms p
      by (intro that(2) [of "sp + ?j" "total_len - ?j" "case rp of None \<Rightarrow> Some (p + 2) | Some q \<Rightarrow> Some q"])
        (auto simp: label_jump_def Let_def label_end_def split: option.splits)
  qed
qed

text \<open>The loop always returns, reads nothing outside the packet, and finds the same place with and without the text.\<close>

lemma label_loop_total:
  assumes sp: "sp + total_len \<le> length (m_pkt m)"
  shows "p + remain \<le> length (m_pkt m) \<Longrightarrow> label_end E p remain rp \<Longrightarrow>
    \<exists>r t. (\<forall>s. label_loop m sp total_len p remain rp len s = Inr (r, map_option (\<lambda>s. s @ t) s))
      \<and> (\<forall>q. r = Some q \<longrightarrow> q \<le> E)"
proof (induction "256 - len" arbitrary: p remain rp len rule: less_induct)
  case less
  show ?case
  proof (cases "len < 256 \<and> 1 \<le> remain")
    case False
    then have "\<forall>s. label_loop m sp total_len p remain rp len s = Inr (None, map_option (\<lambda>s. s @ []) s)"
      by (auto simp: label_loop.simps [of m sp total_len p] option.map_ident)
    then show ?thesis by blast
  next
    case True
    then have len: "len < 256" and one: "1 \<le> remain" by simp_all
    show ?thesis
    proof (rule label_jump_cases [OF sp less.prems one])
      assume "label_jump m sp total_len p remain rp = Inr None"
      then have "\<forall>s. label_loop m sp total_len p remain rp len s = Inr (None, map_option (\<lambda>s. s @ []) s)"
        using True by (simp add: label_loop.simps [of m sp total_len p] option.map_ident)
      then show ?thesis by blast
    next
      fix p' remain' rp'
      assume j: "label_jump m sp total_len p remain rp = Inr (Some (p', remain', rp'))" "p' + remain' \<le> length (m_pkt m)"
        "label_end E p' remain' rp'" "1 \<le> remain'"
      let ?n = "unat (m_pkt m ! p')"
      consider "?n = 0" | "?n \<noteq> 0" "remain' \<le> ?n + 1" | "?n \<noteq> 0" "?n + 1 < remain'" by linarith
      then show ?thesis
      proof cases
        case 1
        let ?r = "case rp' of None \<Rightarrow> p' + 1 | Some q \<Rightarrow> q"
        have "\<forall>s. label_loop m sp total_len p remain rp len s = Inr (Some ?r, map_option (\<lambda>s. s @ []) s)"
          using 1 True j by (simp add: label_loop.simps [of m sp total_len p] option.map_ident)
        moreover have "?r \<le> E"
          using j by (auto simp: label_end_def split: option.splits)
        ultimately show ?thesis by blast
      next
        case 2
        then have "\<forall>s. label_loop m sp total_len p remain rp len s = Inr (None, map_option (\<lambda>s. s @ []) s)"
          using True j by (simp add: label_loop.simps [of m sp total_len p] option.map_ident)
        then show ?thesis by blast
      next
        case 3
        have less': "256 - (len + ?n) < 256 - len"
          using 3 len by simp
        have "p' + ?n + 1 + (remain' - (?n + 1)) \<le> length (m_pkt m)" "label_end E (p' + ?n + 1) (remain' - (?n + 1)) rp'"
          using 3 j by (auto simp: label_end_def split: option.splits)
        from less.hyps [OF less' this]
        obtain r t where r: "\<forall>s. label_loop m sp total_len (p' + ?n + 1) (remain' - (?n + 1)) rp' (len + ?n) s
            = Inr (r, map_option (\<lambda>s. s @ t) s)" "\<forall>q. r = Some q \<longrightarrow> q \<le> E"
          by blast
        let ?l = "map char_of_byte (bslice (p' + 1) ?n (m_pkt m)) @ ''.''"
        have "label_append m (p' + 1) ?n s = Inr (map_option (\<lambda>s. s @ ?l) s)" for s
          using 3 j by (cases s) (simp_all add: label_append_def)
        then have "label_loop m sp total_len p remain rp len s = Inr (r, map_option (\<lambda>s. s @ ?l @ t) s)" for s
          using 3 True j r(1)
          by (simp add: label_loop.simps [of m sp total_len p] Let_def option.map_comp comp_def)
        with r(2) show ?thesis by blast
      qed
    qed
  qed
qed

lemma parse_label_total:
  assumes "sp + total_len \<le> length (m_pkt m)" "p + remain \<le> length (m_pkt m)"
  obtains r t where "\<And>s. parse_label m p remain sp total_len s = Inr (r, map_option (\<lambda>_. t) s)"
    "\<And>q. r = Some q \<Longrightarrow> q \<le> p + remain"
proof -
  obtain r t where "\<forall>s. label_loop m sp total_len p remain None 0 s = Inr (r, map_option (\<lambda>s. s @ t) s)"
      "\<forall>q. r = Some q \<longrightarrow> q \<le> p + remain"
    using label_loop_total [OF assms, of "p + remain" None 0] by (auto simp: label_end_def)
  then show thesis
    by (intro that [of r t]) (simp_all add: parse_label_def option.map_comp comp_def)
qed

subsection \<open>Encoded names\<close>

text \<open>The encoding of RFC 1035: labels with their length in front; the printed form has a dot after every label.\<close>

definition label_wire :: "byte list \<Rightarrow> byte list" where
  "label_wire l = word_of_nat (length l) # l"

definition name_text :: "byte list list \<Rightarrow> string" where
  "name_text ls = concat (map (\<lambda>l. map char_of_byte l @ ''.'') ls)"

definition label_ok :: "byte list \<Rightarrow> bool" where
  "label_ok l \<longleftrightarrow> l \<noteq> [] \<and> length l < 64"

definition pointer_wire :: "nat \<Rightarrow> byte list" where
  "pointer_wire j = [word_of_nat (192 + j div 256), word_of_nat (j mod 256)]"

lemma byte_not_pointer: "unat (b :: byte) < 192 \<Longrightarrow> b AND 0xC0 \<noteq> 0xC0"
proof
  assume "unat b < 192" "b AND 0xC0 = 0xC0"
  have "unat (b AND 0xC0) \<le> unat b"
    using word_and_le2 [of b "0xC0"] by (simp only: word_le_nat_alt)
  with \<open>b AND 0xC0 = 0xC0\<close> have "unat (0xC0 :: byte) \<le> unat b" by simp
  with \<open>unat b < 192\<close> show False by simp
qed

lemma bslice_append_iff:
  "off + (length xs + length ys) \<le> length zs \<Longrightarrow>
     bslice off (length xs + length ys) zs = xs @ ys \<longleftrightarrow> bslice off (length xs) zs = xs \<and> bslice (off + length xs) (length ys) zs = ys"
  by (auto simp: bslice_def take_add append_eq_append_conv add.commute)

text \<open>One label, and a sequence of labels.\<close>

lemma label_loop_label:
  assumes "label_ok l" "bslice p (length (label_wire l)) (m_pkt m) = label_wire l" "p + remain \<le> length (m_pkt m)"
    "length (label_wire l) < remain" "len < 256"
  shows "label_loop m sp total_len p remain rp len s
    = label_loop m sp total_len (p + length (label_wire l)) (remain - length (label_wire l)) rp (len + length l)
        (map_option (\<lambda>s. s @ map char_of_byte l @ ''.'') s)"
proof -
  have n: "unat (word_of_nat (length l) :: byte) = length l" "0 < length l"
    using assms(1) by (simp_all add: label_ok_def unat_of_nat)
  have "bslice p (length (label_wire l)) (m_pkt m) ! 0 = m_pkt m ! p"
    using assms(3,4) by (intro trans [OF nth_bslice]) (simp_all add: label_wire_def)
  then have b: "m_pkt m ! p = word_of_nat (length l)"
    unfolding assms(2) by (simp add: label_wire_def)
  have "bslice (p + 1) (length l) (m_pkt m) = drop 1 (bslice p (length (label_wire l)) (m_pkt m))"
    by (simp add: bslice_def label_wire_def drop_take)
  then have l: "bslice (p + 1) (length l) (m_pkt m) = l"
    unfolding assms(2) by (simp add: label_wire_def)
  have "m_pkt m ! p AND 0xC0 \<noteq> 0xC0"
    using assms(1) n by (intro byte_not_pointer) (simp add: b label_ok_def)
  then have "label_jump m sp total_len p remain rp = Inr (Some (p, remain, rp))"
    using assms(3,4) by (simp add: label_jump_def)
  moreover have "label_append m (p + 1) (length l) s = Inr (map_option (\<lambda>s. s @ map char_of_byte l @ ''.'') s)"
    using assms(3,4) l by (cases s) (simp_all add: label_append_def label_wire_def)
  ultimately show ?thesis
    using assms(3-5) n by (subst label_loop.simps) (simp add: b label_wire_def Let_def add.commute)
qed

lemma label_loop_labels:
  "list_all label_ok ls \<Longrightarrow> bslice p (length (concat (map label_wire ls))) (m_pkt m) = concat (map label_wire ls) \<Longrightarrow>
   p + remain \<le> length (m_pkt m) \<Longrightarrow> length (concat (map label_wire ls)) < remain \<Longrightarrow> len + length (concat ls) < 256 \<Longrightarrow>
   label_loop m sp total_len p remain rp len s
   = label_loop m sp total_len (p + length (concat (map label_wire ls))) (remain - length (concat (map label_wire ls))) rp
       (len + length (concat ls)) (map_option (\<lambda>s. s @ name_text ls) s)"
proof (induction ls arbitrary: p remain len s)
  case Nil
  then show ?case by (simp add: name_text_def option.map_ident)
next
  case (Cons l ls)
  let ?w = "label_wire l" and ?ws = "concat (map label_wire ls)"
  have bs: "bslice p (length ?w) (m_pkt m) = ?w" "bslice (p + length ?w) (length ?ws) (m_pkt m) = ?ws"
    using Cons.prems(2-4) bslice_append_iff [of p ?w ?ws "m_pkt m"] by simp_all
  show ?case
    using Cons.prems bs Cons.IH [of "p + length ?w" "remain - length ?w" "len + length l" "map_option (\<lambda>s. s @ map char_of_byte l @ ''.'') s"]
      label_loop_label [of l p m remain len sp total_len rp s]
    by (simp add: name_text_def option.map_comp comp_def add.assoc)
qed

lemma label_loop_end:
  assumes "m_pkt m ! p = 0" "p + remain \<le> length (m_pkt m)" "1 \<le> remain" "len < 256"
  shows "label_loop m sp total_len p remain rp len s = Inr (Some (case rp of None \<Rightarrow> p + 1 | Some q \<Rightarrow> q), s)"
  using assms by (subst label_loop.simps) (simp add: label_jump_def)

lemma pointer_value:
  assumes "j < 2 ^ 14" "p + 2 \<le> length (m_pkt m)" "bslice p 2 (m_pkt m) = pointer_wire j"
  shows "m_pkt m ! p AND 0xC0 = 0xC0" "unat (ntohs (load_le (bslice p 2 (m_pkt m))) AND 0x3FFF) = j"
proof -
  have small: "192 + j div 256 < 256"
    using assms(1) by simp
  have "m_pkt m ! p = word_of_nat (192 + j div 256)"
    using nth_bslice [of 0 2 p "m_pkt m"] assms(2,3) by (simp add: pointer_wire_def)
  moreover have "(word_of_nat (192 + k) :: byte) AND 0xC0 = 0xC0" if "k < 64" for k
  proof -
    have "k \<in> set [0..<64]" using that by simp
    then show ?thesis by (simp add: upt_conv_Cons) (elim disjE; simp)
  qed
  ultimately show "m_pkt m ! p AND 0xC0 = 0xC0"
    using assms(1) by simp
  have "unat (ntohs (load_le (bslice p 2 (m_pkt m)))) = 256 * (192 + j div 256) + j mod 256"
    using small by (simp add: assms(3) pointer_wire_def ntohs_load_le unat_load_le unat_of_nat del: of_nat_add)
  then have "unat (ntohs (load_le (bslice p 2 (m_pkt m)))) mod 2 ^ 14 = j"
    using assms(1) mod_mult_self1 [of j 3 "2 ^ 14"] by (simp add: algebra_simps)
  moreover have "unat (w AND mask 14) = unat w mod 2 ^ 14" for w :: "16 word"
    by (simp only: unsigned_take_bit_eq flip: take_bit_eq_mask take_bit_eq_mod)
  ultimately show "unat (ntohs (load_le (bslice p 2 (m_pkt m))) AND 0x3FFF) = j"
    by (simp add: mask_eq_exp_minus_1)
qed

text \<open>A jump goes on at its target as if the name had started there; the target is not a pointer.\<close>

lemma label_loop_jump:
  assumes "bslice p 2 (m_pkt m) = pointer_wire j" "j < 2 ^ 14" "p + remain \<le> length (m_pkt m)" "2 \<le> remain"
    "j < total_len" "sp + total_len \<le> length (m_pkt m)" "m_pkt m ! (sp + j) AND 0xC0 \<noteq> 0xC0"
  shows "label_loop m sp total_len p remain rp len s
    = label_loop m sp total_len (sp + j) (total_len - j) (case rp of None \<Rightarrow> Some (p + 2) | Some q \<Rightarrow> Some q) len s"
proof -
  have "p + 2 \<le> length (m_pkt m)"
    using assms(3,4) by simp
  then have "label_jump m sp total_len p remain rp
      = Inr (Some (sp + j, total_len - j, case rp of None \<Rightarrow> Some (p + 2) | Some q \<Rightarrow> Some q))"
    using assms pointer_value [OF assms(2) _ assms(1)] by (simp add: label_jump_def Let_def)
  moreover have "label_jump m sp total_len (sp + j) (total_len - j) q = Inr (Some (sp + j, total_len - j, q))" for q
    using assms(5-7) by (simp add: label_jump_def)
  ultimately show ?thesis
    using assms(4,5) by (subst (1 2) label_loop.simps) simp
qed

lemma label_loop_name:
  assumes "list_all label_ok ls" "bslice p (length (concat (map label_wire ls) @ [0])) (m_pkt m) = concat (map label_wire ls) @ [0]"
    "p + remain \<le> length (m_pkt m)" "length (concat (map label_wire ls)) < remain" "len + length (concat ls) < 256"
  shows "label_loop m sp total_len p remain rp len s
    = Inr (Some (case rp of None \<Rightarrow> p + length (concat (map label_wire ls) @ [0]) | Some q \<Rightarrow> q), map_option (\<lambda>s. s @ name_text ls) s)"
proof -
  let ?ws = "concat (map label_wire ls)"
  have bs: "bslice p (length ?ws) (m_pkt m) = ?ws" "bslice (p + length ?ws) 1 (m_pkt m) = [0]"
    using assms(2-4) bslice_append_iff [of p ?ws "[0]" "m_pkt m"] by simp_all
  then have "m_pkt m ! (p + length ?ws) = 0"
    using assms(3,4) bslice_1 [of "p + length ?ws" "m_pkt m"] by simp
  then show ?thesis
    using label_loop_labels [OF assms(1) bs(1) assms(3-5), of sp total_len rp s] assms(3-5)
      label_loop_end [of m "p + length ?ws" "remain - length ?ws" "len + length (concat ls)"]
    by (simp split: option.split)
qed

lemma name_start:
  assumes "list_all label_ok ls" "bslice p (length (concat (map label_wire ls) @ [0])) (m_pkt m) = concat (map label_wire ls) @ [0]"
    "p + length (concat (map label_wire ls)) < length (m_pkt m)"
  shows "m_pkt m ! p AND 0xC0 \<noteq> 0xC0"
proof -
  have "(concat (map label_wire ls) @ [0]) ! 0 = bslice p (length (concat (map label_wire ls) @ [0])) (m_pkt m) ! 0"
    by (simp only: assms(2))
  also have "\<dots> = m_pkt m ! (p + 0)"
    using assms(3) by (intro nth_bslice) simp_all
  finally have "m_pkt m ! p = (concat (map label_wire ls) @ [0]) ! 0"
    by simp
  moreover have "unat ((concat (map label_wire ls) @ [0]) ! 0) < 192"
    using assms(1) by (cases ls) (simp_all add: label_wire_def label_ok_def unat_of_nat)
  ultimately show ?thesis
    by (intro byte_not_pointer) simp
qed

text \<open>
  C18: Round trip of domain names. A name of labels of one to 63 bytes, 255 bytes at most, that is encoded in the message in full, or up
  to some label followed by a compression pointer to the rest of the name earlier in the message, is read back as its labels with a
  dot after each, and reading goes on right behind the name or behind the pointer. The pointer may be to any place in the first
  \<open>total_len\<close> bytes of the message.
\<close>

theorem label_roundtrip:
  assumes "list_all label_ok (ls @ ls')" "length (concat (ls @ ls')) < 256" "p + remain \<le> length (m_pkt m)"
    "sp + total_len \<le> length (m_pkt m)" "length wire \<le> remain" "bslice p (length wire) (m_pkt m) = wire"
    and "wire = concat (map label_wire ls) @ [0] \<and> ls' = []
      \<or> wire = concat (map label_wire ls) @ pointer_wire j \<and> j < 2 ^ 14
        \<and> j + length (concat (map label_wire ls')) < total_len
        \<and> bslice (sp + j) (length (concat (map label_wire ls') @ [0])) (m_pkt m) = concat (map label_wire ls') @ [0]"
  shows "parse_label m p remain sp total_len (Some t) = Inr (Some (p + length wire), Some (name_text (ls @ ls')))"
  using assms(7)
proof (elim disjE conjE)
  assume "wire = concat (map label_wire ls) @ [0]" "ls' = []"
  then show ?thesis
    using assms label_loop_name [of ls p m remain 0 sp total_len None "Some []"] by (simp add: parse_label_def)
next
  let ?ws = "concat (map label_wire ls)"
  assume h: "wire = ?ws @ pointer_wire j" "j < 2 ^ 14" "j + length (concat (map label_wire ls')) < total_len"
    "bslice (sp + j) (length (concat (map label_wire ls') @ [0])) (m_pkt m) = concat (map label_wire ls') @ [0]"
  have l: "length (pointer_wire j) = 2"
    by (simp add: pointer_wire_def)
  have ok: "list_all label_ok ls" "list_all label_ok ls'"
    using assms(1) by simp_all
  have bs: "bslice p (length ?ws) (m_pkt m) = ?ws" "bslice (p + length ?ws) 2 (m_pkt m) = pointer_wire j"
    using assms(3,5,6) h(1) l bslice_append_iff [of p ?ws "pointer_wire j" "m_pkt m"] by simp_all
  have "label_loop m sp total_len p remain None 0 (Some [])
      = label_loop m sp total_len (p + length ?ws) (remain - length ?ws) None (length (concat ls)) (Some (name_text ls))"
    using label_loop_labels [OF ok(1) bs(1) assms(3), of 0 sp total_len None "Some []"] assms(2,5) h(1) l by simp
  also have "\<dots> = label_loop m sp total_len (sp + j) (total_len - j) (Some (p + length ?ws + 2)) (length (concat ls)) (Some (name_text ls))"
    using label_loop_jump [OF bs(2) h(2), of "remain - length ?ws" total_len sp None] assms(3-5) h l name_start [OF ok(2) h(4)]
    by simp
  also have "\<dots> = Inr (Some (p + length wire), Some (name_text (ls @ ls')))"
    using label_loop_name [OF ok(2) h(4), of "total_len - j" "length (concat ls)"] assms(2,4) h l by (simp add: name_text_def)
  finally show ?thesis
    by (simp add: parse_label_def)
qed

text \<open>The name \<^verbatim>\<open>a.bc.\<close>, encoded as the label \<^verbatim>\<open>a\<close> and a pointer to the label \<^verbatim>\<open>bc\<close> at offset 12 of the message.\<close>

definition demo_name_packet :: "byte list" where
  "demo_name_packet = replicate 12 0 @ [2, 0x62, 0x63, 0, 1, 0x61, 0xC0, 12]"

theorem label_roundtrip_witness:
  "parse_label (demo_mem demo_name_packet) 16 4 0 20 (Some []) = Inr (Some 20, Some ''a.bc.'')"
proof -
  have "list_all label_ok ([[0x61]] @ [[0x62, 0x63]])" "length demo_name_packet = 20"
    "bslice 16 4 demo_name_packet = concat (map label_wire [[0x61]]) @ pointer_wire 12"
    "bslice 12 4 demo_name_packet = concat (map label_wire [[0x62, 0x63]]) @ [0]"
    "length (concat (map label_wire [[0x61]]) @ pointer_wire 12) = 4" "length (concat (map label_wire [[0x62, 0x63]])) = 3"
    "name_text ([[0x61]] @ [[0x62, 0x63]]) = ''a.bc.''"
    by code_simp+
  then show ?thesis
    using label_roundtrip [of "[[0x61]]" "[[0x62, 0x63]]" 16 4 "demo_mem demo_name_packet" 0 20
        "concat (map label_wire [[0x61]]) @ pointer_wire 12" 12 "[]"] by simp
qed

text \<open>A pointer to a pointer is not followed: the second one is taken for the length of a label of 192 bytes or more, and the name is
  refused when the message has no room for such a label.\<close>

lemma label_pointer_pair:
  assumes "bslice p 2 (m_pkt m) = pointer_wire j" "j < 2 ^ 14" "p + remain \<le> length (m_pkt m)" "2 \<le> remain"
    "j < total_len" "sp + total_len \<le> length (m_pkt m)" "192 \<le> unat (m_pkt m ! (sp + j))" "total_len - j \<le> 193"
  shows "parse_label m p remain sp total_len s = Inr (None, map_option (\<lambda>_. []) s)"
proof -
  have "p + 2 \<le> length (m_pkt m)"
    using assms(3,4) by simp
  then have "label_jump m sp total_len p remain None = Inr (Some (sp + j, total_len - j, Some (p + 2)))"
    using assms pointer_value [OF assms(2) _ assms(1)] by (simp add: label_jump_def Let_def)
  then show ?thesis
    unfolding parse_label_def using assms(4-8) by (subst label_loop.simps) (simp add: Let_def)
qed

end
