(* ===== verification/PM_NameService.thy ===== *)
theory PM_NameService
  imports PM_Label PM_Registry
begin

text \<open>
  \<^verbatim>\<open>src/modules/utils.cc\<close>, \<^verbatim>\<open>utils.hpp\<close>, \<^verbatim>\<open>dns.cc\<close> and \<^verbatim>\<open>mdns.cc\<close>: the decoder of DNS and multicast DNS messages. Every resource record
  becomes a map value with the members \<^verbatim>\<open>name\<close>, \<^verbatim>\<open>type\<close> and \<^verbatim>\<open>data\<close>, and the array of its section (\<^verbatim>\<open>question\<close>, \<^verbatim>\<open>answer\<close>, \<^verbatim>\<open>authority\<close>,
  \<^verbatim>\<open>additional\<close>) refers to it. The member \<^verbatim>\<open>base_name_\<close> and the array \<^verbatim>\<open>rr_delim\<close> are written and never read. The proofs compare the
  loop with a walk over the message, \<open>ns_walk\<close>, that knows nothing of values.
\<close>

unbundle bit_operations_syntax

declare bind_res_cong [fundef_cong]

subsection \<open>The classes of values\<close>

definition NSRecord_new :: vclass where
  "NSRecord_new = VNSRecord (smap_assign ''data'' (Some RNone)
     (smap_insert ''type'' None (smap_insert ''data'' None (smap_insert ''name'' None []))))"

definition NSRecord_set :: "string \<Rightarrow> vref option \<Rightarrow> pvalue \<Rightarrow> pvalue" where
  "NSRecord_set key r v = (case v_cls v of VNSRecord kvs \<Rightarrow> v\<lparr>v_cls := VNSRecord (smap_assign key r kvs)\<rparr> | _ \<Rightarrow> v)"

definition NSName_set_param :: "ptr \<Rightarrow> nat \<Rightarrow> nat \<Rightarrow> nat \<Rightarrow> pvalue \<Rightarrow> pvalue" where
  "NSName_set_param p len base_ptr total_len v =
     (value_set p len BIG v)\<lparr>v_cls := VNSName (Some (PktPtr base_ptr, total_len))\<rparr>"

definition NSData_set_param :: "ptr \<Rightarrow> nat \<Rightarrow> 16 word \<Rightarrow> nat \<Rightarrow> nat \<Rightarrow> pvalue \<Rightarrow> pvalue" where
  "NSData_set_param p len type base_ptr total_len v =
     (value_set p len BIG v)\<lparr>v_cls := VNSData (Some (type, PktPtr base_ptr, total_len))\<rparr>"

subsection \<open>Decoding\<close>

definition ns_sections :: "string list" where
  "ns_sections = [''question'', ''answer'', ''authority'', ''additional'']"

definition NameService_new :: "string \<Rightarrow> pmodule res" where
  "NameService_new base_name =
     (let m = fold (\<lambda>(name, cons). define_param name cons)
                ([(''tx_id'', VPlain), (''is_query'', VPlain), (''records'', NSRecord_new), (''name'', VNSName None),
                  (''data'', VNSData None), (''type'', VNSType)] @ map (\<lambda>t. (t, VArray [])) ns_sections) Module_new
      in bind_res (define_event ''query'' m) (define_event ''reply''))"

definition DNS_new :: "pmodule res" where "DNS_new = NameService_new ''DNS''"

definition MDNS_new :: "pmodule res" where "MDNS_new = NameService_new ''MDNS''"

definition NS_FLAG_MASK_QUERY :: "16 word" where "NS_FLAG_MASK_QUERY = 0x0080"

text \<open>The inner loop: on to the section that record \<open>rr_c\<close> belongs to.\<close>

function ns_target :: "nat list \<Rightarrow> nat \<Rightarrow> nat \<Rightarrow> vref option \<Rightarrow> (nat \<times> nat \<times> vref option) res" where
  "ns_target rr_count target rr_c arr =
     (if target < length rr_count then
        if rr_count ! target \<le> rr_c then
          if Suc target < 4 then ns_target rr_count (Suc target) 0 None else Inl AssertFailed
        else Inr (target, rr_c, arr)
      else Inl UndefinedBehaviour)"
  by pat_completeness auto
termination
  by (relation "measure (\<lambda>(rr_count, target, rr_c, arr). length rr_count - target)") auto

declare ns_target.simps [simp del]

text \<open>The array of the section, and the values of a record up to \<^verbatim>\<open>v_name->set_param\<close>.\<close>

definition ns_array :: "pmodule \<Rightarrow> nat \<Rightarrow> vref option \<Rightarrow> 'b property \<Rightarrow> (vref option \<times> 'b property) res" where
  "ns_array this target arr prop =
     (case arr of
        None \<Rightarrow> retain_as ''Array'' (mod_param this (ns_sections ! target)) prop
      | Some r \<Rightarrow> Inr (Some r, prop))"

definition ns_open ::
  "pmodule \<Rightarrow> nat \<Rightarrow> nat \<Rightarrow> nat \<Rightarrow> nat \<Rightarrow> vref option \<Rightarrow> nat \<Rightarrow> 'b property
     \<Rightarrow> (vref option \<times> vref option \<times> vref \<times> 'b property) res" where
  "ns_open this base_ptr total_len ep target arr ptr prop =
     bind_res (ns_array this target arr prop) (\<lambda>(arr, prop).
     bind_res (retain_as ''NameServiceRecord'' (mod_param this ''records'') prop) (\<lambda>(rec, prop).
     bind_res (retain_as ''NameServiceName'' (mod_param this ''name'') prop) (\<lambda>(v_name, prop).
     bind_res (retain_value (mod_param this ''type'') prop) (\<lambda>(v_type, prop).
     bind_res (call rec (NSRecord_set ''name'' v_name) prop) (\<lambda>prop.
     bind_res (call rec (NSRecord_set ''type'' (Some v_type)) prop) (\<lambda>prop.
     bind_res (if arr = None then Inl AssertFailed else push_ref arr rec prop) (\<lambda>prop.
     bind_res (call v_name (NSName_set_param (PktPtr ptr) (ep - ptr) base_ptr total_len) prop) (\<lambda>prop.
       Inr (arr, rec, v_type, prop)))))))))"

text \<open>The turn of the loop goes on at a pointer, breaks out of it, or returns \<^verbatim>\<open>false\<close>.\<close>

datatype ns_exit = NsNext nat | NsBreak | NsFalse

definition ns_resource ::
  "pmodule \<Rightarrow> mem \<Rightarrow> nat \<Rightarrow> nat \<Rightarrow> nat \<Rightarrow> vref option \<Rightarrow> 16 word \<Rightarrow> nat \<Rightarrow> 'b property \<Rightarrow> (ns_exit \<times> 'b property) res" where
  "ns_resource this m base_ptr total_len ep rec type ptr prop =
     (if ep - ptr < 6 then Inr (NsBreak, prop)
      else
        bind_res (u16_at m (ptr + 4)) (\<lambda>w.
          let rd_len = unat (ntohs w)
          in if ep - (ptr + 6) < rd_len then Inr (NsBreak, prop)
             else
               bind_res (retain_as ''NameServiceData'' (mod_param this ''data'') prop) (\<lambda>(v_data, prop).
               bind_res (call rec (NSRecord_set ''data'' v_data) prop) (\<lambda>prop.
               bind_res (call v_data (NSData_set_param (PktPtr (ptr + 6)) rd_len (ntohs type) base_ptr total_len) prop) (\<lambda>prop.
                 Inr (NsNext (ptr + 6 + rd_len), prop))))))"

definition ns_record ::
  "pmodule \<Rightarrow> mem \<Rightarrow> nat \<Rightarrow> nat \<Rightarrow> nat \<Rightarrow> bool \<Rightarrow> nat \<Rightarrow> vref option \<Rightarrow> nat \<Rightarrow> 'b property
     \<Rightarrow> (ns_exit \<times> vref option \<times> 'b property) res" where
  "ns_record this m base_ptr total_len ep has_data target arr ptr prop =
     (if ep \<le> ptr then Inr (NsFalse, arr, prop)
      else
        bind_res (ns_open this base_ptr total_len ep target arr ptr prop) (\<lambda>(arr, rec, v_type, prop).
        bind_res (parse_label m ptr (ep - ptr) base_ptr total_len None) (\<lambda>(r, _).
          case r of
            None \<Rightarrow> Inr (NsBreak, arr, prop)
          | Some ptr \<Rightarrow>
              if ep \<le> ptr then Inr (NsFalse, arr, prop)
              else if ep - ptr < 4 then Inr (NsBreak, arr, prop)
              else
                bind_res (u16_at m ptr) (\<lambda>type.
                bind_res (call (Some v_type) (value_set (PktPtr ptr) 2 BIG) prop) (\<lambda>prop.
                  if has_data then
                    bind_res (ns_resource this m base_ptr total_len ep rec type (ptr + 4) prop) (\<lambda>(e, prop).
                      Inr (e, arr, prop))
                  else Inr (NsNext (ptr + 4), arr, prop))))))"

function ns_loop ::
  "pmodule \<Rightarrow> mem \<Rightarrow> nat \<Rightarrow> nat \<Rightarrow> nat \<Rightarrow> nat list \<Rightarrow> nat \<Rightarrow> nat \<Rightarrow> nat \<Rightarrow> vref option \<Rightarrow> nat \<Rightarrow> 'b property \<Rightarrow> (bool \<times> 'b property) res" where
  "ns_loop this m base_ptr total_len ep rr_count c target rr_c arr ptr prop =
     (if c < sum_list rr_count then
        bind_res (ns_target rr_count target rr_c arr) (\<lambda>(target, rr_c, arr).
        bind_res (ns_record this m base_ptr total_len ep (rr_count ! 0 \<le> c) target arr ptr prop) (\<lambda>(e, arr, prop).
          case e of
            NsNext ptr \<Rightarrow> ns_loop this m base_ptr total_len ep rr_count (c + 1) target (rr_c + 1) arr ptr prop
          | NsBreak \<Rightarrow> Inr (True, prop)
          | NsFalse \<Rightarrow> Inr (False, prop)))
      else Inr (True, prop))"
  by pat_completeness auto
termination
  by (relation "measure (\<lambda>(this, m, base_ptr, total_len, ep, rr_count, c, target, rr_c, arr, ptr, prop). sum_list rr_count - c)") auto

declare ns_loop.simps [simp del]

definition ns_is_query :: "16 word \<Rightarrow> bool" where
  "ns_is_query flags = (ntohs flags AND NS_FLAG_MASK_QUERY = 0)"

definition ns_decode :: "pmodule \<Rightarrow> mem \<Rightarrow> payload \<Rightarrow> 'b property \<Rightarrow> (bool \<times> payload \<times> 'b property) res" where
  "ns_decode this m pd prop =
     bind_res (payload_retain 12 pd) (\<lambda>(r, pd).
       case r of
         None \<Rightarrow> Inr (False, pd, prop)
       | Some base_ptr \<Rightarrow>
           bind_res (u16_at m (base_ptr + 4)) (\<lambda>qd.
           bind_res (u16_at m (base_ptr + 6)) (\<lambda>an.
           bind_res (u16_at m (base_ptr + 8)) (\<lambda>ns.
           bind_res (u16_at m (base_ptr + 10)) (\<lambda>ar.
           let rr_count = map (unat \<circ> ntohs) [qd, an, ns, ar]; total_len = pl_length pd in
           bind_res (payload_retain total_len pd) (\<lambda>(r, pd).
             case r of
               None \<Rightarrow> Inl AssertFailed
             | Some ptr \<Rightarrow>
                 bind_res (property_puts [PSet (mod_param this ''tx_id'') (PktPtr base_ptr) 2 BIG] prop) (\<lambda>prop.
                 bind_res (u16_at m (base_ptr + 2)) (\<lambda>flags.
                 let is_q = ns_is_query flags;
                     prop = push_event (mod_ev this (if is_q then ''query'' else ''reply'')) prop in
                 bind_res (property_puts [PCpy (mod_param this ''is_query'') (store_le 4 (if is_q then 1 else 0)) LITTLE] prop) (\<lambda>prop.
                 bind_res (ns_loop this m base_ptr total_len (base_ptr + 12 + total_len) rr_count 0 0 0 None ptr prop) (\<lambda>(b, prop).
                   Inr (b, pd, prop)))))))))))"

definition NameService_decode ::
  "pmodule \<Rightarrow> mem \<Rightarrow> payload \<Rightarrow> 'b property \<Rightarrow> (mod_id \<times> payload \<times> 'b property) res" where
  "NameService_decode this m pd prop =
     bind_res (ns_decode this m pd prop) (\<lambda>(_, pd, prop). Inr (Module_NONE, pd, prop))"

subsection \<open>The module after finalisation\<close>

abbreviation ns_params :: "string list" where
  "ns_params \<equiv> [''tx_id'', ''is_query'', ''records'', ''name'', ''data'', ''type'', ''question'', ''answer'', ''authority'', ''additional'']"

definition ns_ready :: "(nat \<Rightarrow> string) \<Rightarrow> pmodule \<Rightarrow> bool" where
  "ns_ready D this \<longleftrightarrow> mod_ready D ns_params this
     \<and> (\<forall>s \<in> set ns_sections. df_cons (mod_param this s) = VArray []) \<and> df_cons (mod_param this ''records'') = NSRecord_new
     \<and> df_cons (mod_param this ''name'') = VNSName None \<and> df_cons (mod_param this ''data'') = VNSData None
     \<and> df_cons (mod_param this ''type'') = VNSType"

definition ns_sect :: "pmodule \<Rightarrow> nat \<Rightarrow> nat" where
  "ns_sect this s = pid_of this (ns_sections ! s)"

lemma ns_ready_param:
  assumes "ns_ready D this" "n \<in> set ns_params"
  shows "0 \<le> df_id (mod_param this n)" "def_typed D (mod_param this n)" "nat (df_id (mod_param this n)) = pid_of this n"
    "D (pid_of this n) = class_name (df_cons (mod_param this n))"
proof -
  have "\<forall>n \<in> set ns_params. 0 \<le> df_id (mod_param this n) \<and> def_typed D (mod_param this n)"
    using assms(1) unfolding ns_ready_def mod_ready_def by (elim conjE)
  from bspec [OF this assms(2)] show "0 \<le> df_id (mod_param this n)" "def_typed D (mod_param this n)"
      "nat (df_id (mod_param this n)) = pid_of this n" "D (pid_of this n) = class_name (df_cons (mod_param this n))"
    by (simp_all only: pid_of_def def_typed_def is_a_def)
qed

lemma ns_ready_neq:
  assumes "ns_ready D this" "a \<in> set ns_params" "b \<in> set ns_params"
  shows "pid_of this a = pid_of this b \<longleftrightarrow> a = b"
proof -
  have "mod_ready D ns_params this"
    using assms(1) unfolding ns_ready_def by (elim conjE)
  from pid_of_eq_iff [OF this assms(2,3)] show ?thesis
    by (simp only: pid_of_def)
qed

lemma ns_sections_param: "s < 4 \<Longrightarrow> ns_sections ! s \<in> set ns_params" "s < 4 \<Longrightarrow> ns_sections ! s \<in> set ns_sections"
  "s < 4 \<Longrightarrow> ns_sections ! s \<notin> {''tx_id'', ''is_query'', ''records'', ''name'', ''data'', ''type''}"
  by (auto simp: ns_sections_def less_Suc_eq numeral_eq_Suc)

lemma ns_sect_inj: "ns_ready D this \<Longrightarrow> s < 4 \<Longrightarrow> t < 4 \<Longrightarrow> ns_sect this s = ns_sect this t \<longleftrightarrow> s = t"
proof -
  assume h: "ns_ready D this" "s < 4" "t < 4"
  have "distinct ns_sections" "length ns_sections = 4"
    by (simp_all add: ns_sections_def)
  then show ?thesis
    using h(2,3) ns_ready_neq [OF h(1) ns_sections_param(1) [OF h(2)] ns_sections_param(1) [OF h(3)]]
    by (simp only: ns_sect_def nth_eq_iff_index_eq)
qed

lemma ns_sect_neq:
  assumes "ns_ready D this" "s < 4" "n \<in> {''tx_id'', ''is_query'', ''records'', ''name'', ''data'', ''type''}"
  shows "ns_sect this s \<noteq> pid_of this n" "pid_of this n \<noteq> ns_sect this s"
proof -
  have "n \<in> set ns_params" "ns_sections ! s \<noteq> n"
    using assms(3) ns_sections_param(3) [OF assms(2)] by auto
  then show "ns_sect this s \<noteq> pid_of this n"
    using ns_ready_neq [OF assms(1) ns_sections_param(1) [OF assms(2)]] by (simp only: ns_sect_def not_False_eq_True)
  then show "pid_of this n \<noteq> ns_sect this s" by simp
qed

lemma ns_value_neq:
  assumes "ns_ready D this"
  shows "pid_of this ''records'' \<noteq> pid_of this ''name''" "pid_of this ''records'' \<noteq> pid_of this ''type''"
    "pid_of this ''records'' \<noteq> pid_of this ''data''" "pid_of this ''name'' \<noteq> pid_of this ''type''"
    "pid_of this ''name'' \<noteq> pid_of this ''data''" "pid_of this ''type'' \<noteq> pid_of this ''data''"
  using ns_ready_neq [OF assms] by simp_all

subsection \<open>Sections\<close>

fun ns_section :: "nat list \<Rightarrow> nat \<Rightarrow> nat" where
  "ns_section [] c = 0"
| "ns_section (n # ns) c = (if c < n then 0 else Suc (ns_section ns (c - n)))"

lemma ns_section_drop: "t \<le> length ns \<Longrightarrow> ns_section ns (sum_list (take t ns) + r) = t + ns_section (drop t ns) r"
  by (induction ns arbitrary: t) (auto simp: take_Cons' drop_Cons' split: if_splits)

lemma ns_target_section:
  assumes "length rr_count = 4"
  shows "target < 4 \<Longrightarrow> rr_c \<le> rr_count ! target \<Longrightarrow> rr_c < sum_list (drop target rr_count) \<Longrightarrow>
    \<exists>s r. ns_target rr_count target rr_c arr = Inr (s, r, if s = target then arr else None)
    \<and> s = target + ns_section (drop target rr_count) rr_c \<and> target \<le> s \<and> s < 4 \<and> r < rr_count ! s
    \<and> sum_list (take target rr_count) + rr_c = sum_list (take s rr_count) + r"
proof (induction "4 - target" arbitrary: target rr_c arr)
  case (Suc n)
  let ?c = "rr_count ! target"
  have drop: "drop target rr_count = ?c # drop (Suc target) rr_count"
    using Suc.prems(1) assms by (simp add: Cons_nth_drop_Suc)
  show ?case
  proof (cases "rr_c < ?c")
    case True
    then show ?thesis
      using Suc.prems assms drop by (intro exI [of _ target] exI [of _ rr_c]) (simp add: ns_target.simps)
  next
    case False
    then have c: "rr_c = ?c"
      using Suc.prems(2) by simp
    then have pos: "0 < sum_list (drop (Suc target) rr_count)"
      using Suc.prems(3) drop by simp
    then have t: "Suc target < 4"
      using assms by (cases "Suc target < 4") simp_all
    have n: "n = 4 - Suc target"
      using Suc.hyps(2) by simp
    obtain s r where s: "ns_target rr_count (Suc target) 0 None = Inr (s, r, if s = Suc target then None else None)"
        "s = Suc target + ns_section (drop (Suc target) rr_count) 0" "Suc target \<le> s" "s < 4" "r < rr_count ! s"
        "sum_list (take (Suc target) rr_count) + 0 = sum_list (take s rr_count) + r"
      using Suc.hyps(1) [OF n t _ pos, of None] by blast
    have "sum_list (take (Suc target) rr_count) = sum_list (take target rr_count) + ?c"
      using Suc.prems(1) assms by (simp add: take_Suc_conv_app_nth)
    moreover have "ns_target rr_count target rr_c arr = Inr (s, r, None)"
      using s(1) c t Suc.prems(1) assms by (subst ns_target.simps) simp
    ultimately show ?thesis
      using s(2-6) c drop by (intro exI [of _ s] exI [of _ r]) simp
  qed
qed simp

subsection \<open>The values of one record\<close>

text \<open>The references of a section's array that have been stored since the property had the heap \<open>H0\<close>.\<close>

definition sect_refs :: "(nat \<Rightarrow> pvalue list) \<Rightarrow> (nat \<Rightarrow> pvalue list) \<Rightarrow> nat \<Rightarrow> vref list" where
  "sect_refs H0 H pid = (if length (H pid) = length (H0 pid) then [] else elements_at H (RVal pid (length (H0 pid))))"

text \<open>Every section up to \<open>target\<close> has at most one new array, and \<open>arr\<close> points to the one of \<open>target\<close>.\<close>

definition sect_ok :: "(nat \<Rightarrow> pvalue list) \<Rightarrow> (nat \<Rightarrow> pvalue list) \<Rightarrow> nat \<Rightarrow> bool" where
  "sect_ok H0 H pid \<longleftrightarrow> length (H pid) = length (H0 pid)
     \<or> length (H pid) = Suc (length (H0 pid)) \<and> (\<exists>refs. v_cls (H pid ! length (H0 pid)) = VArray refs)"

definition ns_inv :: "pmodule \<Rightarrow> (nat \<Rightarrow> pvalue list) \<Rightarrow> (nat \<Rightarrow> pvalue list) \<Rightarrow> nat \<Rightarrow> vref option \<Rightarrow> bool" where
  "ns_inv this H0 H target arr \<longleftrightarrow>
     (\<forall>s < 4. sect_ok H0 H (ns_sect this s)) \<and> (\<forall>s < 4. target < s \<longrightarrow> length (H (ns_sect this s)) = length (H0 (ns_sect this s)))
     \<and> arr = (if length (H (ns_sect this target)) = length (H0 (ns_sect this target)) then None
              else Some (RVal (ns_sect this target) (length (H0 (ns_sect this target)))))"

lemma ns_array_returns:
  assumes ready: "ns_ready D this" and p: "property_ok D p" and t: "target < 4" and inv: "ns_inv this H0 (live p) target arr"
    and pa: "pa = ns_sect this target" "k = length (H0 pa)"
  shows "returns (ns_array this target arr p) (\<lambda>(arr', p'). arr' = Some (RVal pa k)
    \<and> (\<exists>vs. heap_step D p ((live p)(pa := vs)) p' \<and> prefix (live p pa) vs \<and> length vs = Suc k
         \<and> v_cls (vs ! k) = VArray (sect_refs H0 (live p) pa)))"
proof (cases arr)
  case None
  let ?d = "mod_param this (ns_sections ! target)"
  have d: "0 \<le> df_id ?d" "def_typed D ?d" "nat (df_id ?d) = pa" "df_cons ?d = VArray []" "D pa = ''Array''"
    using ns_ready_param [OF ready ns_sections_param(1) [OF t]] ns_sections_param(2) [OF t] ready
    by (auto simp: pa ns_sect_def ns_ready_def)
  have len: "length (live p pa) = k"
    using inv None by (auto simp: ns_inv_def pa split: if_splits)
  show ?thesis
    unfolding ns_array_def None option.case
  proof (rule run_retain_as [OF heap_step_refl [OF p] d(1-3,5)], unfold prod.case, intro conjI, goal_cases)
    case (2 v p')
    then show ?case
      using fresh_array [OF 2(2) d(4) 2(3)] len
      by (intro exI [of _ "live p pa @ [v]"]) (simp add: sect_refs_def nth_append pa(2))
  qed (simp add: len)
next
  case (Some r)
  then have len: "length (live p pa) = Suc k" and r: "r = RVal pa k" and refs: "\<exists>refs. v_cls (live p pa ! k) = VArray refs"
    using inv t by (auto simp: ns_inv_def sect_ok_def pa split: if_splits)
  then show ?thesis
    using Some heap_step_refl [OF p]
    by (auto simp: ns_array_def returns_def sect_refs_def elements_at_def obj_at_def pa(2) intro!: exI [of _ "live p pa"])
qed

definition rr_refs :: "vclass \<Rightarrow> vref \<Rightarrow> vref \<Rightarrow> vref \<Rightarrow> bool" where
  "rr_refs c rn rt rd \<longleftrightarrow> map_find c ''name'' = Inr rn \<and> map_find c ''type'' = Inr rt \<and> map_find c ''data'' = Inr rd"

lemma NSRecord_set_sel [simp]:
  "is_a n (v_cls (NSRecord_set key r v)) = is_a n (v_cls v)" "shown m (NSRecord_set key r v) = shown m v"
  by (cases "v_cls v"; simp add: NSRecord_set_def is_a_def)+

lemma NSName_set_sel [simp]:
  "shown m (NSName_set_param p n b t v) = shown m (value_set p n BIG v)" "v_cls (NSName_set_param p n b t v) = VNSName (Some (PktPtr b, t))"
  "v_active (NSName_set_param p n b t v)" "v_ptr (NSName_set_param p n b t v) = p" "v_len (NSName_set_param p n b t v) = n"
  by (simp_all add: NSName_set_param_def)

lemma NSData_set_sel [simp]:
  "shown m (NSData_set_param p n w b t v) = shown m (value_set p n BIG v)"
  "v_cls (NSData_set_param p n w b t v) = VNSData (Some (w, PktPtr b, t))"
  "v_active (NSData_set_param p n w b t v)" "v_ptr (NSData_set_param p n w b t v) = p" "v_len (NSData_set_param p n w b t v) = n"
  by (simp_all add: NSData_set_param_def)

lemma is_a_simps [simp]: "is_a n (VNSName x) \<longleftrightarrow> n = ''NameServiceName''" "is_a n (VNSData y) \<longleftrightarrow> n = ''NameServiceData''"
  by (auto simp: is_a_def)

lemma is_a_record: "is_a ''NameServiceRecord'' c \<Longrightarrow> \<exists>kvs. c = VNSRecord kvs \<and> {''name'', ''data'', ''type''} \<subseteq> fst ` set kvs"
proof (cases c)
  case (VNSRecord kvs)
  moreover assume "is_a ''NameServiceRecord'' c"
  ultimately have "map fst kvs = [''data'', ''name'', ''type'']"
    by (simp add: is_a_def)
  then have "fst ` set kvs = {''data'', ''name'', ''type''}"
    by (metis list.set_map list.simps(15) list.set(1))
  then show ?thesis
    using VNSRecord by simp
qed (simp_all add: is_a_def)

lemma smap_find_key: "k \<in> fst ` set kvs \<Longrightarrow> smap_find kvs k \<noteq> None"
  by (simp add: smap_find_def map_of_eq_None_iff)

text \<open>A record as \<^verbatim>\<open>retain_value\<close> hands it out has no data; \<^verbatim>\<open>set_name\<close>, \<^verbatim>\<open>set_type\<close> and \<^verbatim>\<open>set_data\<close> give it its members.\<close>

lemma fresh_record:
  assumes "fresh_value d v" "df_cons d = NSRecord_new" "is_a ''NameServiceRecord'' (v_cls v)"
  shows "rr_refs (v_cls (NSRecord_set ''type'' (Some rt) (NSRecord_set ''name'' (Some rn) v))) rn rt RNone"
proof -
  obtain kvs where kvs: "v_cls v = VNSRecord kvs" "{''name'', ''data'', ''type''} \<subseteq> fst ` set kvs"
    using is_a_record [OF assms(3)] by blast
  have "smap_find kvs ''data'' = Some (Some RNone)"
  proof (cases "v = new_object (df_cons d)")
    case True
    then have "VNSRecord kvs = NSRecord_new"
      using kvs(1) assms(2) by (simp add: new_object_def bvalue.defs)
    moreover have "case NSRecord_new of VNSRecord kvs \<Rightarrow> smap_find kvs ''data'' = Some (Some RNone) | _ \<Rightarrow> False"
      by code_simp
    ultimately show ?thesis
      by (simp flip: \<open>VNSRecord kvs = NSRecord_new\<close>)
  next
    case False
    then obtain w where w: "v = value_clear w"
      using assms(1) by (auto simp: fresh_value_def)
    then obtain kvs0 where "v_cls w = VNSRecord kvs0" "kvs = smap_assign ''data'' (Some RNone) kvs0"
      using kvs(1) by (cases "v_cls w") (simp_all add: value_clear.simps)
    then show ?thesis
      using kvs(2) smap_find_key [of "''data''" kvs0] by (simp add: smap_find_assign)
  qed
  then show ?thesis
    using kvs smap_find_key [of "''name''" kvs] smap_find_key [of "''type''" kvs]
    by (simp add: rr_refs_def NSRecord_set_def map_find_def smap_find_assign)
qed

lemma record_set_data:
  assumes "rr_refs (v_cls v) rn rt rd" "is_a ''NameServiceRecord'' (v_cls v)"
  shows "rr_refs (v_cls (NSRecord_set ''data'' (Some r) v)) rn rt r"
proof -
  obtain kvs where kvs: "v_cls v = VNSRecord kvs" "{''name'', ''data'', ''type''} \<subseteq> fst ` set kvs"
    using is_a_record [OF assms(2)] by blast
  then show ?thesis
    using assms(1) smap_find_key [of "''data''" kvs]
    by (simp add: rr_refs_def NSRecord_set_def map_find_def smap_find_assign)
qed

lemma fresh_type: "fresh_value d v \<Longrightarrow> df_cons d = VNSType \<Longrightarrow> is_a ''NameServiceType'' (v_cls v) \<Longrightarrow> \<not> v_active v"
  by (elim disjE exE fresh_value_def [THEN iffD1, elim_format], simp add: new_object_def bvalue.defs Value_new_def,
      rename_tac w, case_tac "v_cls w", auto simp: is_a_def value_clear.simps)

text \<open>After \<open>ns_open\<close>: a new record with name and type and without data, and a reference to it in the array.\<close>

lemma ns_open_returns:
  assumes ready: "ns_ready D this" and p: "property_ok D p" and t: "target < 4" and inv: "ns_inv this H0 (live p) target arr"
    and ids: "pa = ns_sect this target" "k = length (H0 pa)" "pr = pid_of this ''records''" "pn = pid_of this ''name''"
      "pt = pid_of this ''type''"
  shows "returns (ns_open this base tot ep target arr ptr p) (\<lambda>(arr', rec, v_type, p').
    arr' = Some (RVal pa k) \<and> rec = Some (RVal pr (length (live p pr))) \<and> v_type = RVal pt (length (live p pt))
    \<and> (\<exists>vs vr vn vt. heap_step D p ((live p)(pt := live p pt @ [vt], pr := live p pr @ [vr],
           pa := vs[k := (vs ! k)\<lparr>v_cls := VArray (sect_refs H0 (live p) pa @ [RVal pr (length (live p pr))])\<rparr>],
           pn := live p pn @ [NSName_set_param (PktPtr ptr) (ep - ptr) base tot vn])) p'
         \<and> prefix (live p pa) vs \<and> length vs = Suc k
         \<and> rr_refs (v_cls vr) (RVal pn (length (live p pn))) (RVal pt (length (live p pt))) RNone \<and> \<not> v_active vt))"
proof -
  have ne: "pr \<noteq> pn" "pr \<noteq> pt" "pn \<noteq> pt" "pa \<noteq> pr" "pa \<noteq> pn" "pa \<noteq> pt"
    using ns_value_neq [OF ready] ns_sect_neq [OF ready t] by (simp_all add: ids)
  note ne = ne ne [symmetric]
  note d = ns_ready_param [OF ready] and nat_ids = ids(3-5) [unfolded pid_of_def, symmetric]
  have c: "df_cons (mod_param this ''records'') = NSRecord_new" "df_cons (mod_param this ''name'') = VNSName None"
      "df_cons (mod_param this ''type'') = VNSType"
    using ready by (simp_all add: ns_ready_def)
  have D: "D pr = ''NameServiceRecord''" "D pn = ''NameServiceName''" "D pt = ''NameServiceType''"
    using d(4) by (simp_all add: ids c NSRecord_new_def)
  show ?thesis
    unfolding ns_open_def
    apply (rule returns_bind, rule returns_mono [OF ns_array_returns [OF ready p t inv ids(1,2)]], clarsimp)
    apply (rule returns_bind, erule run_retain_as [where pid = pr], simp_all add: d(1,2) nat_ids D ne)
    apply (rule returns_bind, erule run_retain_as [where pid = pn], simp_all add: d(1,2) nat_ids D ne)
    apply (rule returns_bind, erule run_retain_value [where pid = pt], simp_all add: d(1,2) nat_ids D ne)
    apply (rule returns_bind, erule run_call, simp_all add: ne)+
    apply (rule returns_bind, erule run_push_ref, simp_all add: ne)
    apply (rule returns_bind, erule run_call, simp_all add: ne D)
    apply (simp add: returns_def)
    apply (intro exI conjI, assumption+)
     apply (erule fresh_record [OF _ c(1)], assumption)
    apply (erule fresh_type [OF _ c(3)], assumption)
    done
qed

subsection \<open>The reference walk\<close>

text \<open>Where a record has its name, its type and, for a resource record, its data.\<close>

datatype ns_rr = NsRR (rr_name: nat) (rr_type: "nat option") (rr_data: "(nat \<times> nat) option")

definition ns_parse1 :: "mem \<Rightarrow> nat \<Rightarrow> nat \<Rightarrow> nat \<Rightarrow> bool \<Rightarrow> nat \<Rightarrow> ns_exit \<times> ns_rr" where
  "ns_parse1 m base tot ep has_data ptr =
     (case parse_label m ptr (ep - ptr) base tot None of
        Inr (Some q, _) \<Rightarrow>
          if ep \<le> q then (NsFalse, NsRR ptr None None)
          else if ep - q < 4 then (NsBreak, NsRR ptr None None)
          else if \<not> has_data then (NsNext (q + 4), NsRR ptr (Some q) None)
          else if ep - (q + 4) < 6 then (NsBreak, NsRR ptr (Some q) None)
          else let n = pkt_num m (q + 8) 2
               in if ep - (q + 10) < n then (NsBreak, NsRR ptr (Some q) None)
                  else (NsNext (q + 10 + n), NsRR ptr (Some q) (Some (q + 10, n)))
      | _ \<Rightarrow> (NsBreak, NsRR ptr None None))"

text \<open>The values that stand for a record.\<close>

definition rr_built ::
  "mem \<Rightarrow> pmodule \<Rightarrow> nat \<Rightarrow> nat \<Rightarrow> nat \<Rightarrow> (nat \<Rightarrow> pvalue list) \<Rightarrow> nat \<Rightarrow> nat \<Rightarrow> nat \<Rightarrow> nat \<Rightarrow> ns_rr \<Rightarrow> bool" where
  "rr_built m this base tot ep H i iname itype idata e \<longleftrightarrow>
     i < length (H (pid_of this ''records''))
     \<and> rr_refs (v_cls (H (pid_of this ''records'') ! i)) (RVal (pid_of this ''name'') iname) (RVal (pid_of this ''type'') itype)
          (case rr_data e of None \<Rightarrow> RNone | Some _ \<Rightarrow> RVal (pid_of this ''data'') idata)
     \<and> iname < length (H (pid_of this ''name''))
     \<and> (let v = H (pid_of this ''name'') ! iname
        in v_active v \<and> v_ptr v = PktPtr (rr_name e) \<and> v_len v = ep - rr_name e \<and> v_cls v = VNSName (Some (PktPtr base, tot)))
     \<and> itype < length (H (pid_of this ''type''))
     \<and> shown m (H (pid_of this ''type'') ! itype) = map_option (\<lambda>q. (bslice q 2 (m_pkt m), BIG)) (rr_type e)
     \<and> (case rr_data e of None \<Rightarrow> True
        | Some (q, n) \<Rightarrow> idata < length (H (pid_of this ''data''))
            \<and> shown m (H (pid_of this ''data'') ! idata) = Some (bslice q n (m_pkt m), BIG)
            \<and> (\<exists>w. unat w = pkt_num m (the (rr_type e)) 2
                 \<and> v_cls (H (pid_of this ''data'') ! idata) = VNSData (Some (w, PktPtr base, tot))))"

text \<open>How a turn of the loop may change the heap.\<close>

definition ns_grow :: "pmodule \<Rightarrow> (nat \<Rightarrow> pvalue list) \<Rightarrow> (nat \<Rightarrow> pvalue list) \<Rightarrow> bool" where
  "ns_grow this H H' \<longleftrightarrow>
     (\<forall>pid. pid \<notin> ns_sect this ` {..<4} \<longrightarrow> prefix (H pid) (H' pid))
     \<and> (\<forall>pid. pid \<notin> ns_sect this ` {..<4} \<and> pid \<notin> pid_of this ` {''records'', ''name'', ''type'', ''data''} \<longrightarrow> H' pid = H pid)
     \<and> (\<forall>m. \<forall>s < 4. prefix (map (shown m) (H (ns_sect this s))) (map (shown m) (H' (ns_sect this s))))"

definition ns_added ::
  "(nat \<Rightarrow> string) \<Rightarrow> pmodule \<Rightarrow> mem \<Rightarrow> nat \<Rightarrow> nat \<Rightarrow> nat \<Rightarrow> (nat \<Rightarrow> pvalue list) \<Rightarrow> nat \<Rightarrow> ns_rr \<Rightarrow> 'b property \<Rightarrow> 'b property \<Rightarrow> bool" where
  "ns_added D this m base tot ep H0 target e p p' \<longleftrightarrow>
     property_ok D p' \<and> same_frame p p' \<and> ns_grow this (live p) (live p')
     \<and> (\<forall>s < 4. s \<noteq> target \<longrightarrow> live p' (ns_sect this s) = live p (ns_sect this s))
     \<and> length (live p' (ns_sect this target)) = Suc (length (H0 (ns_sect this target)))
     \<and> v_cls (live p' (ns_sect this target) ! length (H0 (ns_sect this target)))
       = VArray (sect_refs H0 (live p) (ns_sect this target) @ [RVal (pid_of this ''records'') (length (live p (pid_of this ''records'')))])
     \<and> length (live p' (pid_of this ''records'')) = Suc (length (live p (pid_of this ''records'')))
     \<and> length (live p' (pid_of this ''name'')) = Suc (length (live p (pid_of this ''name'')))
     \<and> length (live p' (pid_of this ''type'')) = Suc (length (live p (pid_of this ''type'')))
     \<and> length (live p' (pid_of this ''data'')) = length (live p (pid_of this ''data'')) + (if rr_data e = None then 0 else 1)
     \<and> rr_built m this base tot ep (live p') (length (live p (pid_of this ''records''))) (length (live p (pid_of this ''name'')))
          (length (live p (pid_of this ''type''))) (length (live p (pid_of this ''data''))) e"

lemma ns_open_added:
  assumes ready: "ns_ready D this" and p: "property_ok D p" and t: "target < 4" and inv: "ns_inv this H0 (live p) target arr"
  shows "returns (ns_open this base tot ep target arr ptr p) (\<lambda>(arr', rec, v_type, p').
    arr' = Some (RVal (ns_sect this target) (length (H0 (ns_sect this target))))
    \<and> rec = Some (RVal (pid_of this ''records'') (length (live p (pid_of this ''records''))))
    \<and> v_type = RVal (pid_of this ''type'') (length (live p (pid_of this ''type'')))
    \<and> ns_added D this m base tot ep H0 target (NsRR ptr None None) p p')"
proof -
  let ?pa = "ns_sect this target" and ?pr = "pid_of this ''records''" and ?pn = "pid_of this ''name''" and ?pt = "pid_of this ''type''"
    and ?pd = "pid_of this ''data''"
  have ne: "?pr \<noteq> ?pn" "?pr \<noteq> ?pt" "?pn \<noteq> ?pt" "?pa \<noteq> ?pr" "?pa \<noteq> ?pn" "?pa \<noteq> ?pt" "?pd \<noteq> ?pr" "?pd \<noteq> ?pn" "?pd \<noteq> ?pt" "?pd \<noteq> ?pa"
    using ns_value_neq [OF ready] ns_sect_neq [OF ready t] by simp_all
  note ne = ne ne [symmetric]
  have sect: "ns_sect this s \<noteq> ?pr" "ns_sect this s \<noteq> ?pn" "ns_sect this s \<noteq> ?pt" "ns_sect this s \<noteq> ?pd" if "s < 4" for s
    using ns_sect_neq [OF ready that] by simp_all
  have in_sect: "?pa \<in> ns_sect this ` {..<4}"
    using t by simp
  show ?thesis
  proof (rule returns_mono [OF ns_open_returns [OF ready p t inv refl refl refl refl refl, where base = base and tot = tot and ep = ep and ptr = ptr]],
      clarsimp, goal_cases)
    case (1 p' vs vr vn vt)
    note st = heap_stepD [OF 1(1)]
    have "prefix (map (shown m) (live p ?pa)) (map (shown m) (live p' ?pa))" for m
      using 1(2,3) map_mono_prefix [OF 1(2), of "shown m"] by (simp add: st(3) ne view_prefix_upd)
    then have "ns_grow this (live p) (live p')"
      using in_sect sect ns_sect_inj [OF ready t]
      by (auto simp: ns_grow_def st(3) ne)
    moreover have "shown m vt = None"
      using 1(5) by (simp add: shown_def)
    moreover have "live p' (ns_sect this s) = live p (ns_sect this s)" if "s < 4" "s \<noteq> target" for s
      using that sect [OF that(1)] ns_sect_inj [OF ready that(1) t] by (simp add: st(3))
    ultimately show ?case
      using 1(3,4)
      by (simp add: ns_added_def st(1,2) rr_built_def) (simp add: st(3) ne)
  qed
qed

lemma prefix_update: "prefix xs ys \<Longrightarrow> length ys = Suc (length xs) \<Longrightarrow> prefix xs (ys[length xs := y])"
  by (auto simp: prefix_def list_update_append)

lemma ns_sect_value:
  assumes "ns_ready D this" "s < 4"
  shows "ns_sect this s \<notin> pid_of this ` {''records'', ''name'', ''type'', ''data''}"
  using ns_sect_neq(1) [OF assms] by simp

lemma ns_grow_change:
  assumes "ns_ready D this" "ns_grow this H H1" "S \<subseteq> pid_of this ` {''records'', ''name'', ''type'', ''data''}"
    "\<And>pid. pid \<notin> S \<Longrightarrow> H2 pid = H1 pid" "\<And>pid. pid \<in> S \<Longrightarrow> prefix (H pid) (H2 pid)"
  shows "ns_grow this H H2"
  unfolding ns_grow_def
proof (intro conjI allI impI)
  fix pid
  assume "pid \<notin> ns_sect this ` {..<4}"
  then show "prefix (H pid) (H2 pid)"
    using assms(2,4,5) by (cases "pid \<in> S") (simp_all add: ns_grow_def)
next
  fix pid
  assume h: "pid \<notin> ns_sect this ` {..<4} \<and> pid \<notin> pid_of this ` {''records'', ''name'', ''type'', ''data''}"
  then have "pid \<notin> S"
    using assms(3) by blast
  then show "H2 pid = H pid"
    using h assms(2,4) by (simp add: ns_grow_def)
next
  fix m s
  assume s: "s < (4 :: nat)"
  then have "ns_sect this s \<notin> S"
    using assms(3) ns_sect_value [OF assms(1)] by blast
  then show "prefix (map (shown m) (H (ns_sect this s))) (map (shown m) (H2 (ns_sect this s)))"
    using s assms(2,4) by (simp add: ns_grow_def)
qed

text \<open>The type and the data of the record that was added last.\<close>

lemma ns_added_type:
  assumes ready: "ns_ready D this" and t: "target < 4" and add: "ns_added D this m base tot ep H0 target (NsRR ptr None None) p p1"
    and st: "heap_step D p1 ((live p1)(pid_of this ''type'' := (live p1 (pid_of this ''type''))[length (live p (pid_of this ''type''))
      := value_set (PktPtr q) 2 BIG (live p1 (pid_of this ''type'') ! length (live p (pid_of this ''type'')))])) p2"
    and q: "q + 2 \<le> length (m_pkt m)"
  shows "ns_added D this m base tot ep H0 target (NsRR ptr (Some q) None) p p2"
proof -
  let ?pt = "pid_of this ''type''"
  note st = heap_stepD [OF st] and add = add [unfolded ns_added_def]
  have other: "live p2 pid = live p1 pid" if "pid \<noteq> ?pt" for pid
    using that by (simp add: st(3))
  have sect: "live p2 (ns_sect this s) = live p1 (ns_sect this s)" if "s < 4" for s
    using ns_sect_neq [OF ready that] by (intro other) simp
  have not_sect: "?pt \<notin> ns_sect this ` {..<4}"
    using ns_sect_neq(2) [OF ready] by blast
  have "prefix (live p ?pt) (live p2 ?pt)"
    using add not_sect by (simp add: st(3) ns_grow_def prefix_update)
  then have "ns_grow this (live p) (live p2)"
    using add other by - (rule ns_grow_change [OF ready, of "live p" "live p1" "{?pt}"], simp_all)
  moreover have "shown m (live p2 ?pt ! length (live p ?pt)) = Some (bslice q 2 (m_pkt m), BIG)"
    using add q by (simp add: st(3) bslice_opt_def)
  moreover have "length (live p2 ?pt) = Suc (length (live p ?pt))"
    using add by (simp add: st(3))
  moreover have "live p2 (pid_of this n) = live p1 (pid_of this n)" if "n \<in> {''records'', ''name'', ''data''}" for n
    using ns_value_neq [OF ready] that by (intro other) auto
  moreover have "same_frame p p2"
    using add st(2) by (simp add: same_frame_def)
  ultimately show ?thesis
    using add t by (simp add: ns_added_def st(1) sect rr_built_def)
qed

lemma ns_class:
  assumes "ns_ready D this"
  shows "D (pid_of this ''records'') = ''NameServiceRecord''" "D (pid_of this ''data'') = ''NameServiceData''"
  using ns_ready_param(4) [OF assms] assms by (simp_all add: ns_ready_def NSRecord_new_def)

lemma ns_added_data:
  assumes ready: "ns_ready D this" and t: "target < 4" and add: "ns_added D this m base tot ep H0 target (NsRR ptr (Some q) None) p p1"
    and pr: "pr = pid_of this ''records''" and pd: "pd = pid_of this ''data''"
    and st: "heap_step D p1 ((live p1)
      (pr := (live p1 pr)[length (live p pr) := NSRecord_set ''data'' (Some (RVal pd (length (live p1 pd)))) (live p1 pr ! length (live p pr))],
       pd := live p1 pd @ [NSData_set_param (PktPtr off) n w base tot v])) p2"
    and q: "off + n \<le> length (m_pkt m)" "unat w = pkt_num m q 2"
  shows "ns_added D this m base tot ep H0 target (NsRR ptr (Some q) (Some (off, n))) p p2"
proof -
  note st = heap_stepD [OF st] and add = add [unfolded ns_added_def, folded pr pd]
  have ne: "pr \<noteq> pd" "pd \<noteq> pr"
    using ns_value_neq [OF ready] by (simp_all add: pr pd)
  have other: "live p2 pid = live p1 pid" if "pid \<noteq> pr" "pid \<noteq> pd" for pid
    using that by (simp add: st(3))
  have sect: "live p2 (ns_sect this s) = live p1 (ns_sect this s)" if "s < 4" for s
    using ns_sect_neq [OF ready that] by (intro other) (simp_all add: pr pd)
  have nt: "live p2 (pid_of this n) = live p1 (pid_of this n)" if "n \<in> {''name'', ''type''}" for n
    using ns_value_neq [OF ready] that by (intro other) (auto simp: pr pd)
  have not_sect: "pr \<notin> ns_sect this ` {..<4}" "pd \<notin> ns_sect this ` {..<4}"
    using ns_sect_neq(2) [OF ready] by (auto simp: pr pd)
  have len: "length (live p1 pr) = Suc (length (live p pr))" "live p1 pd = live p pd" "prefix (live p pr) (live p1 pr)"
  proof -
    have "prefix (live p pd) (live p1 pd)" "length (live p1 pd) = length (live p pd)"
      using add not_sect by (simp_all add: ns_grow_def)
    then show "live p1 pd = live p pd"
      by (auto simp: prefix_def)
  qed (use add not_sect in \<open>simp_all add: ns_grow_def\<close>)
  have "prefix (live p pr) (live p2 pr)" "prefix (live p pd) (live p2 pd)"
    using len by (simp_all add: st(3) ne prefix_update)
  then have "ns_grow this (live p) (live p2)"
    using add other by - (rule ns_grow_change [OF ready, of "live p" "live p1" "{pr, pd}"], auto simp: pr pd)
  moreover have "rr_refs (v_cls (live p2 pr ! length (live p pr))) (RVal (pid_of this ''name'') (length (live p (pid_of this ''name''))))
      (RVal (pid_of this ''type'') (length (live p (pid_of this ''type'')))) (RVal pd (length (live p pd)))"
  proof -
    have "is_a ''NameServiceRecord'' (v_cls (live p1 pr ! length (live p pr)))"
      using typed_live_is [of D p1 "length (live p pr)" pr] add len(1) ns_class(1) [OF ready] by (simp add: property_ok_def pr)
    moreover have "rr_refs (v_cls (live p1 pr ! length (live p pr))) (RVal (pid_of this ''name'') (length (live p (pid_of this ''name''))))
        (RVal (pid_of this ''type'') (length (live p (pid_of this ''type'')))) RNone"
      using add by (simp add: rr_built_def flip: pr)
    ultimately show ?thesis
      using record_set_data [of "live p1 pr ! length (live p pr)"] len by (simp add: st(3) ne)
  qed
  moreover have "same_frame p p2"
    using add st(2) by (simp add: same_frame_def)
  moreover have "length (live p2 pd) = Suc (length (live p pd))" "length (live p2 pr) = Suc (length (live p pr))"
      "shown m (live p2 pd ! length (live p pd)) = Some (bslice off n (m_pkt m), BIG)"
      "v_cls (live p2 pd ! length (live p pd)) = VNSData (Some (w, PktPtr base, tot))"
    using len q(1) by (simp_all add: st(3) ne nth_append bslice_opt_def)
  ultimately show ?thesis
    using add t q(2) by (simp add: ns_added_def st(1) sect nt rr_built_def flip: pr pd)
qed

lemma ns_resource_returns:
  assumes ready: "ns_ready D this" and t: "target < 4" and add: "ns_added D this m base tot ep H0 target (NsRR ptr (Some q) None) p p1"
    and q: "ep \<le> length (m_pkt m)" "q + 4 \<le> ep" "type = load_le (bslice q 2 (m_pkt m))"
  shows "returns (ns_resource this m base tot ep (Some (RVal (pid_of this ''records'') (length (live p (pid_of this ''records'')))))
      type (q + 4) p1) (\<lambda>(x, p2). \<exists>e. ns_added D this m base tot ep H0 target e p p2
    \<and> (x, e) = (if ep - (q + 4) < 6 then (NsBreak, NsRR ptr (Some q) None)
          else let n = pkt_num m (q + 8) 2
               in if ep - (q + 10) < n then (NsBreak, NsRR ptr (Some q) None)
                  else (NsNext (q + 10 + n), NsRR ptr (Some q) (Some (q + 10, n)))))"
proof (cases "ep - (q + 4) < 6 \<or> ep - (q + 10) < pkt_num m (q + 8) 2")
  case True
  then show ?thesis
    using add q by (auto simp: ns_resource_def returns_def unat_ntohs_at Let_def add.commute)
next
  case False
  let ?pr = "pid_of this ''records''" and ?pd = "pid_of this ''data''" and ?n = "pkt_num m (q + 8) 2"
  have ne: "?pr \<noteq> ?pd" "?pd \<noteq> ?pr"
    using ns_value_neq [OF ready] by simp_all
  have d: "0 \<le> df_id (mod_param this ''data'')" "def_typed D (mod_param this ''data'')" "nat (df_id (mod_param this ''data'')) = ?pd"
    using ns_ready_param [OF ready, of "''data''"] by simp_all
  have p1: "property_ok D p1" "length (live p1 ?pr) = Suc (length (live p ?pr))"
    using add by (simp_all add: ns_added_def)
  have w: "unat (ntohs type) = pkt_num m q 2"
    using q by (simp add: unat_ntohs_at)
  have in_pkt: "q + 10 + ?n \<le> length (m_pkt m)" "q + 8 + 2 \<le> length (m_pkt m)"
    using False q by linarith+
  have r: "u16_at m (q + 8) = Inr (load_le (bslice (q + 8) 2 (m_pkt m)))" "unat (ntohs (load_le (bslice (q + 8) 2 (m_pkt m)))) = ?n"
    using u16_at_ok [OF in_pkt(2)] unat_ntohs_at [OF in_pkt(2)] by simp_all
  have eq: "ns_resource this m base tot ep r type (q + 4) p1 =
      bind_res (retain_as ''NameServiceData'' (mod_param this ''data'') p1) (\<lambda>(v_data, prop).
      bind_res (call r (NSRecord_set ''data'' v_data) prop) (\<lambda>prop.
      bind_res (call v_data (NSData_set_param (PktPtr (q + 10)) ?n (ntohs type) base tot) prop) (\<lambda>prop.
        Inr (NsNext (q + 10 + ?n), prop))))" for r
    using False q r by (simp add: ns_resource_def Let_def add.assoc)
  have "returns (ns_resource this m base tot ep (Some (RVal ?pr (length (live p ?pr)))) type (q + 4) p1)
      (\<lambda>(x, p2). x = NsNext (q + 10 + ?n) \<and> ns_added D this m base tot ep H0 target (NsRR ptr (Some q) (Some (q + 10, ?n))) p p2)"
    unfolding eq
    apply (rule returns_bind, rule run_retain_as [OF heap_step_refl [OF p1(1)] d ns_class(2) [OF ready]], simp)
    apply (rule returns_bind, erule run_call, simp add: p1 ne, simp, simp add: ne)
    apply (rule returns_bind, erule run_call, simp add: p1 ne, simp add: ns_class [OF ready], simp add: ne)
    apply (rule returns_Inr, simp)
    apply (erule ns_added_data [OF ready t add refl refl _ in_pkt(1) w])
    done
  then show ?thesis
    by (rule returns_mono) (use False in \<open>auto simp: Let_def\<close>)
qed

text \<open>A turn of the loop stores the record that the walk finds and takes the same exit.\<close>

lemma ns_record_returns:
  assumes ready: "ns_ready D this" and p: "property_ok D p" and t: "target < 4" and inv: "ns_inv this H0 (live p) target arr"
    and ep: "ep \<le> length (m_pkt m)" "base + tot \<le> length (m_pkt m)" "ptr < ep"
  shows "returns (ns_record this m base tot ep has_data target arr ptr p) (\<lambda>(x, arr', p').
    \<exists>e. ns_parse1 m base tot ep has_data ptr = (x, e) \<and> ns_added D this m base tot ep H0 target e p p'
      \<and> arr' = Some (RVal (ns_sect this target) (length (H0 (ns_sect this target)))))"
proof -
  let ?arr = "Some (RVal (ns_sect this target) (length (H0 (ns_sect this target))))"
  obtain r s where r: "parse_label m ptr (ep - ptr) base tot None = Inr (r, s)" "\<And>q. r = Some q \<Longrightarrow> q \<le> ep"
    using parse_label_total [OF ep(2), of ptr "ep - ptr"] ep(1,3) by (metis le_add_diff_inverse less_imp_le_nat)
  let ?rec = "Some (RVal (pid_of this ''records'') (length (live p (pid_of this ''records''))))"
    and ?pt = "pid_of this ''type''"
  have nle: "\<not> ep \<le> ptr"
    using ep(3) by simp
  obtain p1 where p1: "ns_open this base tot ep target arr ptr p = Inr (?arr, ?rec, RVal ?pt (length (live p ?pt)), p1)"
      "ns_added D this m base tot ep H0 target (NsRR ptr None None) p p1"
    using ns_open_added [OF ready p t inv, where m = m and base = base and tot = tot and ep = ep and ptr = ptr]
    by (auto simp: returns_def)
  show ?thesis
  proof (cases "\<exists>q. r = Some q \<and> \<not> ep \<le> q \<and> \<not> ep - q < 4")
    case False
    then show ?thesis
      using p1 nle r(1) by (cases r) (auto simp: ns_record_def ns_parse1_def returns_def)
  next
    case True
    then obtain q where q: "r = Some q" "\<not> ep \<le> q" "\<not> ep - q < 4" by blast
    then have q4: "q + 4 \<le> ep" "q + 2 \<le> length (m_pkt m)"
      using ep(1) by linarith+
    have "returns (call (Some (RVal ?pt (length (live p ?pt)))) (value_set (PktPtr q) 2 BIG) p1)
        (ns_added D this m base tot ep H0 target (NsRR ptr (Some q) None) p)"
      using p1(2) by (intro returns_call [OF _ _ _ ns_added_type [OF ready t p1(2) _ q4(2)]]) (simp_all add: ns_added_def)
    then obtain p2 where p2: "call (Some (RVal ?pt (length (live p ?pt)))) (value_set (PktPtr q) 2 BIG) p1 = Inr p2"
        "ns_added D this m base tot ep H0 target (NsRR ptr (Some q) None) p p2"
      by (rule returns_obtain)
    show ?thesis
    proof (cases has_data)
      case False
      then show ?thesis
        using p1(1) p2 nle r(1) q q4 by (simp add: ns_record_def ns_parse1_def returns_def)
    next
      case True
      obtain x p3 e where p3: "ns_resource this m base tot ep ?rec (load_le (bslice q 2 (m_pkt m))) (q + 4) p2 = Inr (x, p3)"
          "ns_added D this m base tot ep H0 target e p p3"
          "(x, e) = (if ep - (q + 4) < 6 then (NsBreak, NsRR ptr (Some q) None)
            else let n = pkt_num m (q + 8) 2
               in if ep - (q + 10) < n then (NsBreak, NsRR ptr (Some q) None)
                  else (NsNext (q + 10 + n), NsRR ptr (Some q) (Some (q + 10, n))))"
        using ns_resource_returns [OF ready t p2(2) ep(1) q4(1) refl] by (auto simp: returns_def)
      have "ns_parse1 m base tot ep has_data ptr = (x, e)"
        using r(1) q True unfolding p3(3) by (simp add: ns_parse1_def)
      moreover have "ns_record this m base tot ep has_data target arr ptr p = Inr (x, ?arr, p3)"
        using p1(1) p2(1) p3(1) nle r(1) q q4(2) True by (simp add: ns_record_def)
      ultimately show ?thesis
        using p3(2) by (simp add: returns_def)
    qed
  qed
qed

subsection \<open>The loop over the records\<close>

function ns_walk :: "mem \<Rightarrow> nat \<Rightarrow> nat \<Rightarrow> nat \<Rightarrow> nat list \<Rightarrow> nat \<Rightarrow> nat \<Rightarrow> ns_rr list" where
  "ns_walk m base tot ep rr_count c ptr =
     (if c < sum_list rr_count \<and> ptr < ep then
        (case ns_parse1 m base tot ep (rr_count ! 0 \<le> c) ptr of
           (NsNext q, e) \<Rightarrow> e # ns_walk m base tot ep rr_count (c + 1) q
         | (_, e) \<Rightarrow> [e])
      else [])"
  by pat_completeness auto
termination
  by (relation "measure (\<lambda>(m, base, tot, ep, rr_count, c, ptr). sum_list rr_count - c)") auto

declare ns_walk.simps [simp del]

fun rrs_built ::
  "mem \<Rightarrow> pmodule \<Rightarrow> nat \<Rightarrow> nat \<Rightarrow> nat \<Rightarrow> (nat \<Rightarrow> pvalue list) \<Rightarrow> nat \<Rightarrow> nat \<Rightarrow> nat \<Rightarrow> nat \<Rightarrow> ns_rr list \<Rightarrow> bool" where
  "rrs_built m this base tot ep H i iname itype idata [] = True"
| "rrs_built m this base tot ep H i iname itype idata (e # es) =
     (rr_built m this base tot ep H i iname itype idata e
      \<and> rrs_built m this base tot ep H (Suc i) (Suc iname) (Suc itype) (idata + (if rr_data e = None then 0 else 1)) es)"

text \<open>The elements of a list whose numbers, counted from \<open>c\<close>, belong to section \<open>s\<close>.\<close>

fun of_section :: "nat list \<Rightarrow> nat \<Rightarrow> nat \<Rightarrow> 'a list \<Rightarrow> 'a list" where
  "of_section rr_count s c [] = []"
| "of_section rr_count s c (e # es) = (if ns_section rr_count c = s then [e] else []) @ of_section rr_count s (Suc c) es"

definition ns_post ::
  "(nat \<Rightarrow> string) \<Rightarrow> pmodule \<Rightarrow> mem \<Rightarrow> nat \<Rightarrow> nat \<Rightarrow> nat \<Rightarrow> nat list \<Rightarrow> (nat \<Rightarrow> pvalue list) \<Rightarrow> nat \<Rightarrow> ns_rr list \<Rightarrow> 'b property \<Rightarrow> 'b property \<Rightarrow> bool" where
  "ns_post D this m base tot ep rr_count H0 c ws p p' \<longleftrightarrow>
     property_ok D p' \<and> same_frame p p' \<and> ns_grow this (live p) (live p')
     \<and> rrs_built m this base tot ep (live p') (length (live p (pid_of this ''records''))) (length (live p (pid_of this ''name'')))
          (length (live p (pid_of this ''type''))) (length (live p (pid_of this ''data''))) ws
     \<and> (\<forall>s < 4. sect_ok H0 (live p') (ns_sect this s)
          \<and> sect_refs H0 (live p') (ns_sect this s) = sect_refs H0 (live p) (ns_sect this s)
            @ of_section rr_count s c (map (RVal (pid_of this ''records''))
                [length (live p (pid_of this ''records''))..<length (live p (pid_of this ''records'')) + length ws]))"

lemma ns_grow_refl: "ns_grow this H H"
  by (simp add: ns_grow_def)

lemma ns_grow_trans:
  assumes "ns_grow this H H1" "ns_grow this H1 H2"
  shows "ns_grow this H H2"
  unfolding ns_grow_def
proof (intro conjI allI impI)
  fix pid
  assume "pid \<notin> ns_sect this ` {..<4}"
  then show "prefix (H pid) (H2 pid)"
    using assms prefix_order.trans [of "H pid" "H1 pid" "H2 pid"] by (simp add: ns_grow_def)
next
  fix pid
  assume "pid \<notin> ns_sect this ` {..<4} \<and> pid \<notin> pid_of this ` {''records'', ''name'', ''type'', ''data''}"
  then show "H2 pid = H pid"
    using assms by (simp add: ns_grow_def)
next
  fix m s
  assume "s < (4 :: nat)"
  then show "prefix (map (shown m) (H (ns_sect this s))) (map (shown m) (H2 (ns_sect this s)))"
    using assms prefix_order.trans [of "map (shown m) (H (ns_sect this s))" "map (shown m) (H1 (ns_sect this s))"]
    by (simp add: ns_grow_def)
qed

lemma rr_built_grow:
  assumes "ns_ready D this" "ns_grow this H H'" "rr_built m this base tot ep H i iname itype idata e"
  shows "rr_built m this base tot ep H' i iname itype idata e"
proof -
  have "i < length (H (pid_of this n)) \<Longrightarrow> i < length (H' (pid_of this n)) \<and> H' (pid_of this n) ! i = H (pid_of this n) ! i"
    if "n \<in> {''records'', ''name'', ''type'', ''data''}" for n i
  proof (rule prefix_nth)
    have "n \<in> {''tx_id'', ''is_query'', ''records'', ''name'', ''data'', ''type''}"
      using that by (elim insertE emptyE) simp_all
    from ns_sect_neq(2) [OF assms(1) _ this] have "pid_of this n \<notin> ns_sect this ` {..<4}"
      by (simp only: image_iff lessThan_iff bex_simps) blast
    then show "prefix (H (pid_of this n)) (H' (pid_of this n))"
      using assms(2) by (simp add: ns_grow_def)
  qed
  from this [of "''records''"] this [of "''name''"] this [of "''type''"] this [of "''data''"] assms(3)
  show ?thesis
    by (auto simp: rr_built_def split: option.splits)
qed

lemma ns_added_sect:
  assumes "ns_added D this m base tot ep H0 target e p p1" "target < 4" "s < 4"
  shows "sect_refs H0 (live p1) (ns_sect this s) = sect_refs H0 (live p) (ns_sect this s)
      @ (if s = target then [RVal (pid_of this ''records'') (length (live p (pid_of this ''records'')))] else [])"
  using assms by (auto simp: ns_added_def sect_refs_def elements_at_def obj_at_def)

lemma ns_added_inv:
  assumes "ns_added D this m base tot ep H0 target e p p1" "target < 4" "ns_inv this H0 (live p) target arr"
  shows "ns_inv this H0 (live p1) target (Some (RVal (ns_sect this target) (length (H0 (ns_sect this target)))))"
proof -
  have "sect_ok H0 (live p1) (ns_sect this s)" if "s < 4" for s
    using assms that by (cases "s = target") (simp_all add: ns_added_def ns_inv_def sect_ok_def)
  then show ?thesis
    using assms by (simp add: ns_added_def ns_inv_def)
qed

lemma ns_inv_move:
  assumes "ns_inv this H0 H target arr" "target \<le> s" "s < 4"
  shows "ns_inv this H0 H s (if s = target then arr else None)"
  using assms by (auto simp: ns_inv_def)

lemma ns_post_Nil:
  assumes "property_ok D p" "ns_inv this H0 (live p) target arr"
  shows "ns_post D this m base tot ep rr_count H0 c [] p p"
  using assms by (simp add: ns_post_def ns_grow_refl same_frame_def ns_inv_def)

lemma ns_post_Cons:
  assumes ready: "ns_ready D this" and add: "ns_added D this m base tot ep H0 s e p p1" and s: "s = ns_section rr_count c" "s < 4"
    and post: "ns_post D this m base tot ep rr_count H0 (c + 1) es p1 p'"
  shows "ns_post D this m base tot ep rr_count H0 c (e # es) p p'"
proof -
  note post = post [unfolded ns_post_def] and add' = add [unfolded ns_added_def]
  have "[i..<i + length (e # es)] = i # [Suc i..<Suc i + length es]" for i
    by (simp add: upt_conv_Cons del: upt_Suc)
  moreover have "ns_grow this (live p) (live p')"
    using ns_grow_trans [of this "live p" "live p1" "live p'"] post add' by blast
  moreover have "rr_built m this base tot ep (live p') (length (live p (pid_of this ''records''))) (length (live p (pid_of this ''name'')))
          (length (live p (pid_of this ''type''))) (length (live p (pid_of this ''data''))) e"
    using rr_built_grow [OF ready] post add' by blast
  moreover have "same_frame p p'"
    using post add' by (simp add: same_frame_def)
  ultimately show ?thesis
    using post add' ns_added_sect [OF add s(2)] s by (simp add: ns_post_def del: upt_Suc)
qed

lemma ns_loop_returns:
  assumes ready: "ns_ready D this" and len: "length rr_count = 4" and ep: "ep \<le> length (m_pkt m)" "base + tot \<le> length (m_pkt m)"
  shows "property_ok D p \<Longrightarrow> ns_inv this H0 (live p) target arr \<Longrightarrow> target < 4 \<Longrightarrow> rr_c \<le> rr_count ! target \<Longrightarrow>
    c = sum_list (take target rr_count) + rr_c \<Longrightarrow>
    returns (ns_loop this m base tot ep rr_count c target rr_c arr ptr p)
      (\<lambda>(b, p'). ns_post D this m base tot ep rr_count H0 c (ns_walk m base tot ep rr_count c ptr) p p')"
proof (induction "sum_list rr_count - c" arbitrary: c target rr_c arr ptr p rule: less_induct)
  case less
  note p = less.prems(1) and inv = less.prems(2) and t = less.prems(3,4) and c = less.prems(5)
  have sum: "sum_list rr_count = sum_list (take target rr_count) + sum_list (drop target rr_count)"
    by (metis append_take_drop_id sum_list_append)
  show ?case
  proof (cases "c < sum_list rr_count")
    case False
    then show ?thesis
      using ns_post_Nil [OF p inv] by (simp add: ns_loop.simps [of this m base] ns_walk.simps [of m base] returns_def)
  next
    case True
    then have "rr_c < sum_list (drop target rr_count)"
      using sum c by simp
    then obtain s r where s: "ns_target rr_count target rr_c arr = Inr (s, r, if s = target then arr else None)"
        "s = target + ns_section (drop target rr_count) rr_c" "target \<le> s" "s < 4" "r < rr_count ! s"
        "c = sum_list (take s rr_count) + r"
      using ns_target_section [OF len t, of arr] c by metis
    have sec: "s = ns_section rr_count c"
      using s(2) ns_section_drop [of target rr_count rr_c] t(1) len c by simp
    note inv_s = ns_inv_move [OF inv s(3,4)]
    show ?thesis
    proof (cases "ptr < ep")
      case False
      then show ?thesis
        using ns_post_Nil [OF p inv] True s(1)
        by (simp add: ns_loop.simps [of this m base] ns_walk.simps [of m base] returns_def ns_record_def)
    next
      case ptr: True
      obtain x e p1 where r1: "ns_record this m base tot ep (rr_count ! 0 \<le> c) s (if s = target then arr else None) ptr p
            = Inr (x, Some (RVal (ns_sect this s) (length (H0 (ns_sect this s)))), p1)"
          "ns_parse1 m base tot ep (rr_count ! 0 \<le> c) ptr = (x, e)" "ns_added D this m base tot ep H0 s e p p1"
        using ns_record_returns [OF ready p s(4) inv_s ep ptr, of "rr_count ! 0 \<le> c"] by (auto simp: returns_def)
      have p1: "property_ok D p1"
        using r1(3) by (simp add: ns_added_def)
      note inv1 = ns_added_inv [OF r1(3) s(4) inv_s]
      show ?thesis
      proof (cases x)
        case (NsNext q)
        have "sum_list rr_count - (c + 1) < sum_list rr_count - c" "r + 1 \<le> rr_count ! s" "c + 1 = sum_list (take s rr_count) + (r + 1)"
          using True s(5,6) by simp_all
        from less.hyps [OF this(1) p1 inv1 s(4) this(2,3), of q]
        show ?thesis
          using True ptr s(1) r1(1,2) ns_post_Cons [OF ready r1(3) sec s(4)]
          by (simp add: ns_loop.simps [of this m base tot ep rr_count c] ns_walk.simps [of m base tot ep rr_count c] NsNext)
            (auto simp: returns_def)
      qed (use True ptr s(1) r1(1,2) ns_post_Cons [OF ready r1(3) sec s(4) ns_post_Nil [OF p1 inv1]] in
          \<open>simp_all add: ns_loop.simps [of this m base tot ep rr_count c] ns_walk.simps [of m base tot ep rr_count c] returns_def\<close>)
    qed
  qed
qed

subsection \<open>The whole message\<close>

definition ns_counts :: "mem \<Rightarrow> nat \<Rightarrow> nat list" where
  "ns_counts m base = map (\<lambda>off. pkt_num m (base + off) 2) [4, 6, 8, 10]"

text \<open>The flag that is tested is the one of bit 7, \<^verbatim>\<open>RA\<close>; a response has bit 15, \<^verbatim>\<open>QR\<close>.\<close>

definition ns_flag_RA :: "mem \<Rightarrow> nat \<Rightarrow> bool" where
  "ns_flag_RA m base = bit (m_pkt m ! (base + 3)) 7"

lemma ns_is_query_RA:
  assumes "base + 12 \<le> length (m_pkt m)"
  shows "ns_is_query (load_le (bslice (base + 2) 2 (m_pkt m))) \<longleftrightarrow> \<not> ns_flag_RA m base"
proof -
  have "w AND 0x80 = 0 \<longleftrightarrow> \<not> bit w 7" for w :: "16 word"
    using and_exp_eq_0_iff_not_bit [of w 7] by simp
  moreover have "bslice (base + 2) 2 (m_pkt m) = [m_pkt m ! (base + 2), m_pkt m ! (base + 3)]"
    using assms bslice_2 [of "base + 2" "m_pkt m"] by (simp add: numeral_3_eq_3)
  ultimately show ?thesis
    by (simp add: ns_is_query_def NS_FLAG_MASK_QUERY_def ntohs_load_le bit_load_le ns_flag_RA_def)
qed

definition ns_puts :: "pmodule \<Rightarrow> mem \<Rightarrow> nat \<Rightarrow> put list" where
  "ns_puts this m base =
     [PSet (mod_param this ''tx_id'') (PktPtr base) 2 BIG,
      PCpy (mod_param this ''is_query'') (store_le 4 (if ns_flag_RA m base then 0 else 1)) LITTLE]"

definition ns_event :: "pmodule \<Rightarrow> mem \<Rightarrow> nat \<Rightarrow> event_id" where
  "ns_event this m base = mod_ev this (if ns_flag_RA m base then ''reply'' else ''query'')"

definition ns_decode_post ::
  "(nat \<Rightarrow> string) \<Rightarrow> pmodule \<Rightarrow> mem \<Rightarrow> payload \<Rightarrow> 'b property \<Rightarrow> payload \<times> 'b property \<Rightarrow> bool" where
  "ns_decode_post D this m pd p = (\<lambda>(pd', p').
     if pl_length pd < 12 then pd' = pd \<and> p' = p
     else moved (length (m_pkt m)) (pl_length pd) pd pd'
       \<and> (\<exists>p1. adds D m (ns_puts this m (pl_ptr pd)) [ns_event this m (pl_ptr pd)] p p1
            \<and> (let base = pl_ptr pd; tot = pl_length pd - 12; ep = pl_ptr pd + pl_length pd
               in ns_post D this m base tot ep (ns_counts m base) (live p1) 0 (ns_walk m base tot ep (ns_counts m base) 0 (base + 12)) p1 p')))"

lemma ns_inv_start: "ns_inv this H H 0 None"
  by (simp add: ns_inv_def sect_ok_def)

lemma ns_decode_returns:
  assumes ready: "ns_ready D this" and pd: "payload_inv (length (m_pkt m)) pd" and p: "property_ok D p"
  shows "returns (ns_decode this m pd p) (\<lambda>(b, pd', p'). ns_decode_post D this m pd p (pd', p'))"
proof (cases "pl_length pd < 12")
  case True
  then show ?thesis
    using payload_retain_short [OF pd] by (simp add: ns_decode_def ns_decode_post_def returns_def)
next
  case False
  let ?base = "pl_ptr pd" and ?tot = "pl_length pd - 12" and ?ep = "pl_ptr pd + pl_length pd"
  have in_pkt: "?ep \<le> length (m_pkt m)" "?base + ?tot \<le> length (m_pkt m)" "?base + 12 \<le> length (m_pkt m)"
    using pd False by (auto simp: payload_inv_def)
  define pd1 where "pd1 = pd\<lparr>pl_length := ?tot, pl_ptr := ?base + 12\<rparr>"
  define pd2 where "pd2 = pd1\<lparr>pl_length := 0, pl_ptr := ?base + 12 + ?tot\<rparr>"
  have pd1: "payload_inv (length (m_pkt m)) pd1" and pd2: "moved (length (m_pkt m)) (pl_length pd) pd pd2"
    using pd False by (auto simp: pd1_def pd2_def payload_inv_def moved_def)
  have r: "payload_retain 12 pd = Inr (Some ?base, pd1)" "payload_retain ?tot pd1 = Inr (Some (?base + 12), pd2)"
    using payload_retain_ok [OF pd, of 12] payload_retain_ok [OF pd1, of ?tot] False by (simp_all add: pd1_def pd2_def)
  have defs: "list_all (put_typed D) [PSet (mod_param this ''tx_id'') (PktPtr ?base) 2 BIG]"
      "list_all (put_typed D) [PCpy (mod_param this ''is_query'') bs LITTLE]" for bs
    using ns_ready_param [OF ready] by simp_all
  have loop: "returns (ns_loop this m ?base ?tot ?ep (ns_counts m ?base) 0 0 0 None (?base + 12) p1)
      (\<lambda>(b, p'). ns_post D this m ?base ?tot ?ep (ns_counts m ?base) (live p1) 0 (ns_walk m ?base ?tot ?ep (ns_counts m ?base) 0 (?base + 12)) p1 p')"
    if "property_ok D p1" for p1
    by (rule ns_loop_returns [OF ready _ in_pkt(1,2) that ns_inv_start]) (simp_all add: ns_counts_def)
  have counts: "map (unat \<circ> ntohs) (map (\<lambda>off. load_le (bslice (?base + off) 2 (m_pkt m))) [4, 6, 8, 10]) = ns_counts m ?base"
    using in_pkt(3) by (simp add: ns_counts_def unat_ntohs_at)
  obtain q1 where q1: "property_puts [PSet (mod_param this ''tx_id'') (PktPtr ?base) 2 BIG] p = Inr q1"
      "adds D m [PSet (mod_param this ''tx_id'') (PktPtr ?base) 2 BIG] [] p q1"
    using returns_puts [OF p defs(1), of m "adds D m [PSet (mod_param this ''tx_id'') (PktPtr ?base) 2 BIG] [] p"]
    by (auto simp: returns_def)
  note q2 = adds_event [OF q1(2), of "ns_event this m ?base"]
  let ?b = "store_le 4 (if ns_flag_RA m ?base then 0 else 1)"
  obtain q3 where q3: "property_puts [PCpy (mod_param this ''is_query'') ?b LITTLE] (push_event (ns_event this m ?base) q1) = Inr q3"
      "adds D m (ns_puts this m ?base) [ns_event this m ?base] p q3"
    using returns_puts [OF adds_wf [OF q2] defs(2), of m ?b "adds D m (ns_puts this m ?base) [ns_event this m ?base] p"] adds_puts [OF q2]
    by (auto simp: ns_puts_def returns_def)
  have "ns_decode this m pd p =
      bind_res (ns_loop this m ?base ?tot ?ep (ns_counts m ?base) 0 0 0 None (?base + 12) q3) (\<lambda>(b, prop). Inr (b, pd2, prop))"
    using in_pkt r q1(1) q3(1) False unfolding ns_event_def
    by (cases "ns_flag_RA m ?base")
      (simp_all add: ns_decode_def Let_def ns_is_query_RA [OF in_pkt(3), simplified] counts [simplified]
        pd1_def [THEN arg_cong [where f = pl_length], simplified])
  then show ?thesis
    using loop [OF adds_wf [OF q3(2)]] pd2 q3(2) False by (auto simp: ns_decode_post_def returns_def Let_def)
qed

lemma ns_post_advance:
  assumes "ns_decode_post D this m pd p (pd', p')" "payload_inv (length (m_pkt m)) pd" "property_ok D p"
  shows "advance D m pd p pd' p'"
proof (cases "pl_length pd < 12")
  case True
  with assms show ?thesis by (simp add: ns_decode_post_def advance_refl)
next
  case False
  then obtain p1 es where h: "moved (length (m_pkt m)) (pl_length pd) pd pd'" "adds D m (ns_puts this m (pl_ptr pd)) es p p1"
      "property_ok D p'" "same_frame p1 p'" "ns_grow this (live p1) (live p')"
    using assms(1) by (auto simp: ns_decode_post_def Let_def ns_post_def)
  have "prefix (view m p1 pid) (view m p' pid)" for pid
    using h(5) by (cases "pid \<in> ns_sect this ` {..<4}") (auto simp: ns_grow_def view_def map_mono_prefix)
  moreover have "prefix (view m p pid) (view m p1 pid)" for pid
    using h(2) by (simp add: adds_def)
  ultimately have "prefix (view m p pid) (view m p' pid)" for pid
    by (blast intro: prefix_order.trans)
  then show ?thesis
    using h(1-3) same_frame_events [OF h(4)] by (simp add: advance_def moved_def adds_def)
qed

interpretation ns: protocol NameService_decode ns_ready "\<lambda>_. {}"
proof (unfold_locales, goal_cases)
  case (1 D this m pd p)
  obtain b pd' p' where r: "ns_decode this m pd p = Inr (b, pd', p')" "ns_decode_post D this m pd p (pd', p')"
    using ns_decode_returns [OF 1] by (auto simp: returns_def)
  then show ?case
    using ns_post_advance [OF r(2) 1(2,3)] by (simp add: NameService_decode_def returns_def)
qed

end
