(* ===== verification/PM_Message.thy ===== *)
theory PM_Message
  imports PM_NameService
begin

text \<open>
  What a reader sees of a decoded DNS message: the \<^verbatim>\<open>repr\<close> functions of \<^verbatim>\<open>NSName\<close>, \<^verbatim>\<open>NSData\<close> and \<^verbatim>\<open>NSType\<close> in \<^verbatim>\<open>src/modules/utils.cc\<close>, the
  records of a section read through its array, and the round trip of an encoded message.
\<close>

subsection \<open>Printing\<close>

text \<open>A value that was never set has no pointer, and its length is not initialised.\<close>

definition NSName_repr :: "mem \<Rightarrow> pvalue \<Rightarrow> ostream \<Rightarrow> ostream res" where
  "NSName_repr m v os =
     (case (value_raw v, v_cls v) of
        (Some (PktPtr p, len), VNSName (Some (PktPtr base_ptr, total_len))) \<Rightarrow>
          bind_res (parse_label m p len base_ptr total_len (Some [])) (\<lambda>(rp, s).
            Inr (os_puts (case (rp, s) of (Some _, Some s) \<Rightarrow> s | _ \<Rightarrow> ''?'') os))
      | _ \<Rightarrow> Inl UndefinedBehaviour)"

function ns_txt :: "mem \<Rightarrow> nat \<Rightarrow> nat \<Rightarrow> nat \<Rightarrow> ostream \<Rightarrow> ostream res" where
  "ns_txt m start len off os =
     (if off < len then
        let os = (if 0 < off then os_puts '','' os else os) in
        bind_res (u8_at m (start + off)) (\<lambda>b.
          let d_len = unat b in
          if len < off + 1 + d_len then Inr os
          else
            bind_res (pkt_bytes m (start + off + 1) d_len) (\<lambda>bs.
              ns_txt m start len (off + 1 + d_len) (os_puts (map char_of_byte bs) os)))
      else Inr os)"
  by pat_completeness auto
termination
  by (relation "measure (\<lambda>(m, start, len, off, os). len - off)") auto

declare ns_txt.simps [simp del]

definition NSData_repr :: "(byte list \<Rightarrow> string) \<Rightarrow> mem \<Rightarrow> pvalue \<Rightarrow> ostream \<Rightarrow> ostream res" where
  "NSData_repr inet_ntop m v os =
     (case v_cls v of
        VNSData (Some (type, PktPtr base_ptr, total_len)) \<Rightarrow>
          if type = 1 then bind_res (value_ip4 m v os_new) (\<lambda>(ss, _). Inr (os_puts (os_text ss) os))
          else if type = 28 then bind_res (value_ip6 inet_ntop m v os_new) (\<lambda>(ss, _). Inr (os_puts (os_text ss) os))
          else
            (case value_raw v of
               Some (PktPtr p, len) \<Rightarrow>
                 if type \<in> set [2, 5, 6, 12, 15, 33] then
                   bind_res (parse_label m p len base_ptr total_len (Some [])) (\<lambda>(rp, s).
                     Inr (os_puts (case (rp, s) of (Some _, Some s) \<Rightarrow> s | _ \<Rightarrow> []) os))
                 else if type = 16 then ns_txt m p len 0 os
                 else bind_res (pkt_bytes m p len) (\<lambda>bs. Inr (os_puts (repr_bytes bs) os))
             | _ \<Rightarrow> Inl UndefinedBehaviour)
      | _ \<Rightarrow> Inl UndefinedBehaviour)"

definition ns_types :: "(nat \<times> string) list" where
  "ns_types = [(1, ''A''), (2, ''NS''), (5, ''CNAME''), (6, ''SOA''), (12, ''PTR''), (15, ''MX''), (16, ''TXT''), (28, ''AAAA''), (33, ''SRV'')]"

definition NSType_repr :: "mem \<Rightarrow> pvalue \<Rightarrow> ostream \<Rightarrow> ostream res" where
  "NSType_repr m v os =
     bind_res (value_uint_or_0 m v) (\<lambda>type.
       Inr (case map_of ns_types (unat type) of Some s \<Rightarrow> os_puts s os | None \<Rightarrow> os_putnum 0 (unat type) os))"

text \<open>The data of a record inside the packet prints, whatever it holds.\<close>

lemma ns_txt_returns:
  assumes "start + len \<le> length (m_pkt m)"
  shows "\<exists>os'. ns_txt m start len off os = Inr os'"
proof (induction "len - off" arbitrary: off os rule: less_induct)
  case less
  let ?d = "unat (m_pkt m ! (start + off))" and ?os = "if 0 < off then os_puts '','' os else os"
  consider "len \<le> off" | "off < len" "len < off + 1 + ?d" | "off < len" "off + 1 + ?d \<le> len" by linarith
  then show ?case
  proof cases
    case 3
    then have "len - (off + 1 + ?d) < len - off" by simp
    from less.hyps [OF this] show ?thesis
      using 3 assms by (cases "off = 0"; subst ns_txt.simps) (simp_all add: Let_def)
  qed (use assms in \<open>subst ns_txt.simps, simp\<close>)+
qed

lemma NSData_repr_returns:
  assumes "v_active v" "v_ptr v = PktPtr p" "v_cls v = VNSData (Some (w, PktPtr base, tot))" "p + v_len v \<le> length (m_pkt m)"
    "base + tot \<le> length (m_pkt m)"
  shows "\<exists>os'. NSData_repr ntop m v os = Inr os'"
proof -
  have raw: "value_raw v = Some (PktPtr p, v_len v)" "v_bytes m v = Some (bslice p (v_len v) (m_pkt m))"
    using assms by (simp_all add: value_raw_def v_bytes_def)
  obtain r t where "parse_label m p (v_len v) base tot (Some []) = Inr (r, Some t)"
    using parse_label_total [OF assms(5,4)] by (metis option.simps(9))
  then show ?thesis
    using raw assms(3,4) ns_txt_returns [OF assms(4)]
    by (auto simp: NSData_repr_def value_ip4_def value_ip6_def)
qed

text \<open>The data of an MX or SRV record starts with a preference or priority of two bytes, which is read as a name: for a number below 256
  the first byte is the end of that name, and nothing is printed.\<close>

lemma mx_prints_nothing:
  assumes "v_active v" "v_ptr v = PktPtr p" "v_cls v = VNSData (Some (w, PktPtr base, tot))" "w = 15 \<or> w = 33"
    "1 \<le> v_len v" "p + v_len v \<le> length (m_pkt m)" "m_pkt m ! p = 0"
  shows "NSData_repr ntop m v os = Inr (os_puts [] os)"
  using assms label_loop_end [OF assms(7,6,5), of 0]
  by (auto simp: NSData_repr_def value_raw_def parse_label_def)

text \<open>Character strings are printed with commas between them.\<close>

definition txt_wire :: "byte list \<Rightarrow> byte list" where
  "txt_wire s = word_of_nat (length s) # s"

lemma length_txt_wire [simp]: "length (txt_wire s) = Suc (length s)"
  by (simp add: txt_wire_def)

lemma ns_txt_more:
  "list_all (\<lambda>s. length s < 256) ss \<Longrightarrow> start + len \<le> length (m_pkt m) \<Longrightarrow> off \<le> len \<Longrightarrow>
   bslice (start + off) (len - off) (m_pkt m) = concat (map txt_wire ss) \<Longrightarrow>
   ns_txt m start len off os = Inr (os_puts (case ss of [] \<Rightarrow> [] | s # ss' \<Rightarrow>
     (if off = 0 then [] else '','') @ map char_of_byte s @ concat (map (\<lambda>s. '','' @ map char_of_byte s) ss')) os)"
proof (induction ss arbitrary: off os)
  case Nil
  then have "len - off = 0"
    using length_bslice [of "start + off" "len - off" "m_pkt m"] by simp
  then show ?case
    using Nil.prems(3) by (subst ns_txt.simps) (simp add: os_puts_def)
next
  case (Cons s ss)
  let ?ws = "concat (map txt_wire ss)" and ?n = "length s"
  have n: "unat (word_of_nat ?n :: byte) = ?n"
    using Cons.prems(1) by (simp add: unat_of_nat)
  have len: "len - off = 1 + ?n + length ?ws"
    using Cons.prems(2-4) length_bslice [of "start + off" "len - off" "m_pkt m"] by simp
  have l2: "len - (off + 1 + ?n) = length ?ws" and "start + off + (length (txt_wire s) + length ?ws) \<le> length (m_pkt m)"
    using len Cons.prems(2,3) by simp_all
  from bslice_append_iff [OF this(2)]
  have bs: "bslice (start + off) (1 + ?n) (m_pkt m) = txt_wire s" "bslice (start + (off + 1 + ?n)) (len - (off + 1 + ?n)) (m_pkt m) = ?ws"
    using Cons.prems(4) unfolding l2 len by (simp_all add: add.assoc)
  have in_pkt: "start + off + (1 + ?n) \<le> length (m_pkt m)"
    using len Cons.prems(2,3) by simp
  have "m_pkt m ! (start + off) = bslice (start + off) (1 + ?n) (m_pkt m) ! 0"
    using in_pkt by (subst nth_bslice) simp_all
  then have b: "unat (m_pkt m ! (start + off)) = ?n"
    unfolding bs(1) by (simp add: txt_wire_def n)
  have "bslice (start + off + 1) ?n (m_pkt m) = drop 1 (bslice (start + off) (1 + ?n) (m_pkt m))"
    by (simp add: bslice_def drop_take)
  then have t: "bslice (start + off + 1) ?n (m_pkt m) = s"
    unfolding bs(1) by (simp add: txt_wire_def)
  let ?os = "os_puts (map char_of_byte s) (if 0 < off then os_puts '','' os else os)"
  have fits: "off < len" "\<not> len < off + 1 + ?n"
    using len by simp_all
  have "ns_txt m start len off os = ns_txt m start len (off + 1 + ?n) ?os"
    using fits in_pkt b t by (subst ns_txt.simps) (simp add: Let_def)
  also have "\<dots> = Inr (os_puts (case ss of [] \<Rightarrow> [] | s # ss' \<Rightarrow> '','' @ map char_of_byte s @ concat (map (\<lambda>s. '','' @ map char_of_byte s) ss')) ?os)"
    using Cons.IH [of "off + 1 + ?n" ?os] Cons.prems(1,2) len bs(2) by (auto split: list.split)
  finally show ?case
    by (auto simp: os_puts_def split: list.split)
qed

text \<open>
  The text of a TXT record prints as its character strings, joined by commas; and it always prints when it lies in the packet.
\<close>

theorem txt_roundtrip:
  assumes "list_all (\<lambda>s. length s < 256) ss" "start + len \<le> length (m_pkt m)"
    "bslice start len (m_pkt m) = concat (map txt_wire ss)"
  shows "ns_txt m start len 0 os = Inr (os_puts (join '','' (map (map char_of_byte) ss)) os)"
proof -
  have "join sep (x # xs) = x @ concat (map (\<lambda>y. sep @ y) xs)" for sep x xs
    by (induction sep xs arbitrary: x rule: join.induct) simp_all
  then show ?thesis
    using ns_txt_more [OF assms(1,2), of 0 os] assms(3) by (cases ss) (simp_all add: comp_def)
qed

theorem txt_roundtrip_witness:
  "ns_txt (demo_mem [0, 1, 0x61, 2, 0x62, 0x63]) 1 5 0 os_new = Inr (os_puts ''a,bc'' os_new)"
proof -
  have "bslice 1 5 ([0, 1, 0x61, 2, 0x62, 0x63] :: byte list) = concat (map txt_wire [[0x61], [0x62, 0x63]])"
    "join '','' (map (map char_of_byte) [[0x61], [0x62, 0x63]]) = ''a,bc''"
    by code_simp+
  then show ?thesis
    using txt_roundtrip [of "[[0x61], [0x62, 0x63]]" 1 5 "demo_mem [0, 1, 0x61, 2, 0x62, 0x63]" os_new] by simp
qed

subsection \<open>Reading the records of a section\<close>

text \<open>Name, type and data of a record, read through its map; and what the walk over the message says of them.\<close>

type_synonym rr_view = "string option \<times> (byte list \<times> endian) option \<times> (byte list \<times> endian) option"

definition rr_read :: "mem \<Rightarrow> (nat \<Rightarrow> pvalue list) \<Rightarrow> vref \<Rightarrow> rr_view" where
  "rr_read m H r =
     (Option.bind (member_at H r ''name'') (\<lambda>v. case NSName_repr m v os_new of Inl _ \<Rightarrow> None | Inr os \<Rightarrow> Some (os_text os)),
      Option.bind (member_at H r ''type'') (shown m), Option.bind (member_at H r ''data'') (shown m))"

definition rr_spec :: "mem \<Rightarrow> nat \<Rightarrow> nat \<Rightarrow> nat \<Rightarrow> ns_rr \<Rightarrow> rr_view" where
  "rr_spec m base tot ep e =
     (Some (case parse_label m (rr_name e) (ep - rr_name e) base tot (Some []) of Inr (Some _, Some s) \<Rightarrow> s | _ \<Rightarrow> ''?''),
      map_option (\<lambda>q. (bslice q 2 (m_pkt m), BIG)) (rr_type e), map_option (\<lambda>(q, n). (bslice q n (m_pkt m), BIG)) (rr_data e))"

lemma rr_built_read:
  assumes "rr_built m this base tot ep H i iname itype idata e" "rr_name e < ep" "ep \<le> length (m_pkt m)" "base + tot \<le> length (m_pkt m)"
  shows "rr_read m H (RVal (pid_of this ''records'') i) = rr_spec m base tot ep e"
proof -
  let ?v = "H (pid_of this ''name'') ! iname"
  obtain r t where rt: "parse_label m (rr_name e) (ep - rr_name e) base tot (Some []) = Inr (r, Some t)"
    using parse_label_total [OF assms(4), of "rr_name e" "ep - rr_name e"] assms(2,3)
    by (metis le_add_diff_inverse less_imp_le_nat option.simps(9))
  have "NSName_repr m ?v os_new = Inr (os_puts (case r of Some _ \<Rightarrow> t | None \<Rightarrow> ''?'') os_new)"
    using assms(1) rt by (auto simp: rr_built_def Let_def NSName_repr_def value_raw_def split: option.split)
  then show ?thesis
    using assms(1) rt
    by (auto simp: rr_built_def rr_read_def rr_spec_def member_at_def obj_at_def rr_refs_def os_puts_def os_new_def split: option.splits)
qed

lemma of_section_map: "of_section rc s c (map f es) = map f (of_section rc s c es)"
  by (induction es arbitrary: c) simp_all

lemma rrs_built_read:
  assumes "ep \<le> length (m_pkt m)" "base + tot \<le> length (m_pkt m)"
  shows "rrs_built m this base tot ep H i iname itype idata es \<Longrightarrow> \<forall>e \<in> set es. rr_name e < ep \<Longrightarrow>
    map (rr_read m H) (of_section rc s c (map (RVal (pid_of this ''records'')) [i..<i + length es])) = map (rr_spec m base tot ep) (of_section rc s c es)"
proof (induction es arbitrary: i iname itype idata c)
  case (Cons e es)
  have upt: "[i..<i + length (e # es)] = i # [Suc i..<Suc i + length es]"
    by (simp add: upt_conv_Cons del: upt_Suc)
  have "map (rr_read m H) (of_section rc s (Suc c) (map (RVal (pid_of this ''records'')) [Suc i..<Suc i + length es]))
      = map (rr_spec m base tot ep) (of_section rc s (Suc c) es)"
    using Cons.prems Cons.IH [of "Suc i" "Suc iname" "Suc itype" "idata + (if rr_data e = None then 0 else 1)" "Suc c"] by simp
  moreover have "rr_read m H (RVal (pid_of this ''records'') i) = rr_spec m base tot ep e"
    using Cons.prems rr_built_read [OF _ _ assms, of this H i iname itype idata e] by simp
  ultimately show ?case
    unfolding upt by (simp del: upt_Suc)
qed simp

lemma ns_walk_names: "\<forall>e \<in> set (ns_walk m base tot ep rc c ptr). rr_name e < ep"
proof (induction "sum_list rc - c" arbitrary: c ptr rule: less_induct)
  case less
  obtain x e where x: "ns_parse1 m base tot ep (rc ! 0 \<le> c) ptr = (x, e)" by fastforce
  have "rr_name (snd (ns_parse1 m base tot ep d ptr)) = ptr" for d
    by (simp add: ns_parse1_def Let_def split: sum.split option.split)
  from this [of "rc ! 0 \<le> c"] have "rr_name e = ptr"
    by (simp add: x)
  moreover have "\<forall>e \<in> set (ns_walk m base tot ep rc (c + 1) q). rr_name e < ep" if "c < sum_list rc" for q
    using less [of "c + 1" q] that by simp
  ultimately show ?case
    unfolding ns_walk.simps [of m base tot ep rc c ptr] x prod.case by (simp split: ns_exit.split) blast
qed

lemma sect_refs_length: "length (H0 pid) = length (H1 pid) \<Longrightarrow> sect_refs H0 H pid = sect_refs H1 H pid"
  by (simp add: sect_refs_def)

lemma ns_decode_reads:
  assumes "ns_ready D this" "payload_inv (length (m_pkt m)) pd" "property_ok D p" "12 \<le> pl_length pd"
    and "base = pl_ptr pd" "tot = pl_length pd - 12" "ep = pl_ptr pd + pl_length pd"
  shows "\<exists>pd' p'. NameService_decode this m pd p = Inr (Module_NONE, pd', p') \<and> property_ok D p' \<and> pl_length pd' = 0
    \<and> events p' = events p @ [mod_ev this (if bit (m_pkt m ! (base + 3)) 7 then ''reply'' else ''query'')]
    \<and> view m p' (pid_of this ''tx_id'') = view m p (pid_of this ''tx_id'') @ [Some (bslice base 2 (m_pkt m), BIG)]
    \<and> (\<forall>s < 4. map (rr_read m (live p')) (sect_refs (live p) (live p') (ns_sect this s))
         = map (rr_spec m base tot ep) (of_section (ns_counts m base) s 0 (ns_walk m base tot ep (ns_counts m base) 0 (base + 12))))"
proof -
  let ?ws = "ns_walk m base tot ep (ns_counts m base) 0 (base + 12)"
  obtain b pd' p' where r: "ns_decode this m pd p = Inr (b, pd', p')" "ns_decode_post D this m pd p (pd', p')"
    using ns_decode_returns [OF assms(1-3)] by (auto simp: returns_def)
  then obtain p1 where p1: "moved (length (m_pkt m)) (pl_length pd) pd pd'" "adds D m (ns_puts this m base) [ns_event this m base] p p1"
      "ns_post D this m base tot ep (ns_counts m base) (live p1) 0 ?ws p1 p'"
    using assms(4-7) by (auto simp: ns_decode_post_def Let_def)
  have in_pkt: "ep \<le> length (m_pkt m)" "base + tot \<le> length (m_pkt m)" "base + 2 \<le> length (m_pkt m)"
    using assms(2,4-7) by (auto simp: payload_inv_def)
  have ids: "emitted m (ns_puts this m base) (ns_sect this s) = []" if "s < 4" for s
    using ns_sect_neq [OF assms(1) that] ns_ready_param(3) [OF assms(1)] by (simp add: emitted_def ns_puts_def)
  have tx: "emitted m (ns_puts this m base) (pid_of this ''tx_id'') = [Some (bslice base 2 (m_pkt m), BIG)]"
    using ns_ready_neq [OF assms(1)] ns_ready_param(3) [OF assms(1)] in_pkt(3)
    by (simp add: emitted_def ns_puts_def bslice_opt_def)
  have len: "length (live p (ns_sect this s)) = length (live p1 (ns_sect this s))" if "s < 4" for s
    using p1(2) ids [OF that] by (metis adds_def append.right_neutral length_map view_def)
  have "map (rr_read m (live p')) (sect_refs (live p) (live p') (ns_sect this s)) = map (rr_spec m base tot ep) (of_section (ns_counts m base) s 0 ?ws)"
    if "s < 4" for s
  proof -
    have "sect_refs (live p) (live p') (ns_sect this s) = of_section (ns_counts m base) s 0 (map (RVal (pid_of this ''records''))
        [length (live p1 (pid_of this ''records''))..<length (live p1 (pid_of this ''records'')) + length ?ws])"
      using p1(3) that sect_refs_length [of "live p" "ns_sect this s" "live p1" "live p'"] len [OF that]
      by (simp add: ns_post_def) (simp add: sect_refs_def)
    moreover have "rrs_built m this base tot ep (live p') (length (live p1 (pid_of this ''records''))) (length (live p1 (pid_of this ''name'')))
          (length (live p1 (pid_of this ''type''))) (length (live p1 (pid_of this ''data''))) ?ws"
      using p1(3) by (simp add: ns_post_def)
    ultimately show ?thesis
      using rrs_built_read [OF in_pkt(1,2) _ ns_walk_names] by simp
  qed
  moreover have "view m p' (pid_of this ''tx_id'') = view m p1 (pid_of this ''tx_id'')"
  proof -
    have "pid_of this ''tx_id'' \<notin> ns_sect this ` {..<4}"
      using ns_sect_neq(2) [OF assms(1)] by blast
    moreover have "pid_of this ''tx_id'' \<notin> pid_of this ` {''records'', ''name'', ''type'', ''data''}"
      using ns_ready_neq [OF assms(1)] by simp
    ultimately show ?thesis
      using p1(3) by (simp add: ns_post_def ns_grow_def view_def)
  qed
  moreover have "events p' = events p @ [ns_event this m base]"
    using p1(2,3) same_frame_events [of p1 p'] by (simp add: ns_post_def adds_def)
  ultimately show ?thesis
    using r(1) p1 tx by (simp add: NameService_decode_def ns_post_def adds_def moved_def ns_event_def ns_flag_RA_def)
qed

text \<open>
  C15: For every packet, decoding a DNS message returns, and the property shows what a walk over the bytes of the message finds: the
  transaction id, the query or reply event, and for each of the four sections the records of that section in the order of the message,
  with the text of the name, the type, and for a resource record the data; a record that is cut off shows what there is of it.
\<close>

theorem ns_decodes:
  assumes "ns_ready D this" "payload_inv (length (m_pkt m)) pd" "property_ok D p" "12 \<le> pl_length pd"
    and "base = pl_ptr pd" "tot = pl_length pd - 12" "ep = pl_ptr pd + pl_length pd"
  shows "\<exists>pd' p'. NameService_decode this m pd p = Inr (Module_NONE, pd', p') \<and> property_ok D p' \<and> pl_length pd' = 0
    \<and> events p' = events p @ [mod_ev this (if bit (m_pkt m ! (base + 3)) 7 then ''reply'' else ''query'')]
    \<and> view m p' (pid_of this ''tx_id'') = view m p (pid_of this ''tx_id'') @ [Some (bslice base 2 (m_pkt m), BIG)]
    \<and> (\<forall>s < 4. map (rr_read m (live p')) (sect_refs (live p) (live p') (ns_sect this s))
         = map (rr_spec m base tot ep) (of_section (ns_counts m base) s 0 (ns_walk m base tot ep (ns_counts m base) 0 (base + 12))))"
  by (rule ns_decode_reads [OF assms])

subsection \<open>Encoded messages\<close>

text \<open>A record to encode: the labels of the name, type and class, and for a resource record the time to live and the data.\<close>

type_synonym rr_src = "byte list list \<times> byte list \<times> byte list \<times> (byte list \<times> byte list) option"

definition be16 :: "nat \<Rightarrow> byte list" where
  "be16 n = [word_of_nat (n div 256), word_of_nat (n mod 256)]"

fun rr_wire :: "rr_src \<Rightarrow> byte list" where
  "rr_wire (ls, ty, cl, x) = (concat (map label_wire ls) @ [0]) @ (ty @ cl)
     @ (case x of None \<Rightarrow> [] | Some (ttl, d) \<Rightarrow> ttl @ be16 (length d) @ d)"

fun rr_ok :: "rr_src \<Rightarrow> bool" where
  "rr_ok (ls, ty, cl, x) \<longleftrightarrow> list_all label_ok ls \<and> length (concat ls) < 256 \<and> length ty = 2 \<and> length cl = 2
     \<and> (case x of None \<Rightarrow> True | Some (ttl, d) \<Rightarrow> length ttl = 4 \<and> length d < 65536)"

fun rr_src_view :: "rr_src \<Rightarrow> rr_view" where
  "rr_src_view (ls, ty, cl, x) = (Some (name_text ls), Some (ty, BIG), map_option (\<lambda>(ttl, d). (d, BIG)) x)"

fun rr_is_resource :: "rr_src \<Rightarrow> bool" where
  "rr_is_resource (ls, ty, cl, x) = (x \<noteq> None)"

lemma parse_label_name:
  assumes "list_all label_ok ls" "length (concat ls) < 256" "bslice p (length (concat (map label_wire ls) @ [0])) (m_pkt m) = concat (map label_wire ls) @ [0]"
    "p + remain \<le> length (m_pkt m)" "length (concat (map label_wire ls)) < remain"
  shows "parse_label m p remain base tot s
    = Inr (Some (p + length (concat (map label_wire ls) @ [0])), map_option (\<lambda>_. name_text ls) s)"
  using label_loop_name [OF assms(1,3-5), of 0] assms(2) by (simp add: parse_label_def option.map_comp comp_def)

lemma be16_num: "n < 65536 \<Longrightarrow> off + 2 \<le> length (m_pkt m) \<Longrightarrow> bslice off 2 (m_pkt m) = be16 n \<Longrightarrow> pkt_num m off 2 = n"
  by (simp add: pkt_num_def be16_def be_nat_def unat_of_nat)

text \<open>The walk over one encoded record, and over a sequence of them.\<close>

lemma bslice_parts:
  assumes "bslice off (length (xs @ ys)) zs = xs @ ys" "off + length (xs @ ys) \<le> length zs" "length xs = n"
  shows "bslice off n zs = xs" "bslice (off + n) (length ys) zs = ys" "off + n + length ys \<le> length zs"
  using assms bslice_append_iff [of off xs ys zs] by simp_all

lemma ns_parse1_wire:
  assumes "rr_ok r" "bslice ptr (length (rr_wire r)) (m_pkt m) = rr_wire r" "ptr + length (rr_wire r) \<le> ep" "ep \<le> length (m_pkt m)"
  shows "\<exists>e. ns_parse1 m base tot ep (rr_is_resource r) ptr = (NsNext (ptr + length (rr_wire r)), e)
    \<and> rr_spec m base tot ep e = rr_src_view r"
proof -
  obtain ls ty cl x where r: "r = (ls, ty, cl, x)" by (cases r)
  define nm where "nm = concat (map label_wire ls) @ [0]"
  define xs where "xs = (case x of None \<Rightarrow> [] | Some (ttl, d) \<Rightarrow> ttl @ be16 (length d) @ d)"
  define q where "q = ptr + length nm"
  have ok: "list_all label_ok ls" "length (concat ls) < 256" "length ty = 2" "length cl = 2"
    using assms(1) by (simp_all add: r)
  have wire: "rr_wire r = nm @ ty @ cl @ xs"
    by (simp add: r nm_def xs_def)
  have l: "ptr + length (rr_wire r) = q + 4 + length xs"
    using ok by (simp add: wire q_def)
  note w1 = bslice_parts [OF assms(2) [unfolded wire] order.trans [OF assms(3,4), unfolded wire] refl, folded q_def]
  note w2 = bslice_parts [OF w1(2,3) ok(3)]
  note w3 = bslice_parts [OF w2(2,3) ok(4)]
  have name: "parse_label m ptr (ep - ptr) base tot s = Inr (Some q, map_option (\<lambda>_. name_text ls) s)" for s
    unfolding q_def nm_def
    by (rule parse_label_name [OF ok(1,2) w1(1) [unfolded nm_def]]) (use assms(3,4) l in \<open>simp_all add: q_def nm_def\<close>)
  have fits: "\<not> ep \<le> q" "\<not> ep - q < 4"
    using assms(3) l by simp_all
  have start: "ptr < ep"
    using fits by (simp add: q_def)
  show ?thesis
  proof (cases x)
    case None
    then show ?thesis
      using name fits w2(1) l by (simp add: r ns_parse1_def rr_spec_def xs_def)
  next
    case (Some y)
    then obtain ttl d where x: "x = Some (ttl, d)" by (cases y) simp
    then have ok2: "length ttl = 4" "length d < 65536" and xs: "xs = ttl @ be16 (length d) @ d"
      using assms(1) by (simp_all add: r xs_def)
    have b16: "length (be16 n) = 2" for n
      by (simp add: be16_def)
    note w4 = bslice_parts [OF w3(2,3) [unfolded xs] ok2(1)]
    note w5 = bslice_parts [OF w4(2,3) b16]
    have n: "pkt_num m (q + 8) 2 = length d"
      using be16_num [OF ok2(2) _ w5(1)] w5(3) by (simp add: add.commute)
    have l2: "ptr + length (rr_wire r) = q + 10 + length d"
      using l ok2 b16 by (simp add: xs)
    have "q + 10 + length d \<le> ep"
      using assms(3) unfolding l2 .
    then have "\<not> ep - (q + 4) < 6" "\<not> ep - (q + 10) < length d"
      by simp_all
    then have "ns_parse1 m base tot ep (rr_is_resource r) ptr = (NsNext (q + 10 + length d), NsRR ptr (Some q) (Some (q + 10, length d)))"
      using name fits n by (simp add: ns_parse1_def Let_def r x)
    moreover have "rr_spec m base tot ep (NsRR ptr (Some q) (Some (q + 10, length d))) = rr_src_view r"
      using name w2(1) w5(2) by (simp add: rr_spec_def r x add.commute)
    ultimately show ?thesis
      unfolding l2 by blast
  qed
qed

lemma rr_wire_ne [simp]: "rr_wire r \<noteq> []"
  by (cases r) simp

lemma ns_walk_wire:
  assumes "ep \<le> length (m_pkt m)"
  shows "list_all rr_ok rs \<Longrightarrow> list_all2 (\<lambda>k r. rr_is_resource r \<longleftrightarrow> rc ! 0 \<le> k) [c..<c + length rs] rs \<Longrightarrow>
    sum_list rc = c + length rs \<Longrightarrow> bslice ptr (length (concat (map rr_wire rs))) (m_pkt m) = concat (map rr_wire rs) \<Longrightarrow>
    ptr + length (concat (map rr_wire rs)) \<le> ep \<Longrightarrow>
    map (rr_spec m base tot ep) (ns_walk m base tot ep rc c ptr) = map rr_src_view rs"
proof (induction rs arbitrary: c ptr)
  case Nil
  then show ?case by (simp add: ns_walk.simps)
next
  case (Cons r rs)
  let ?w = "rr_wire r" and ?ws = "concat (map rr_wire rs)"
  have upt: "[c..<c + length (r # rs)] = c # [Suc c..<Suc c + length rs]"
    by (simp add: upt_conv_Cons del: upt_Suc)
  have res: "rr_is_resource r \<longleftrightarrow> rc ! 0 \<le> c" "list_all2 (\<lambda>k r. rr_is_resource r \<longleftrightarrow> rc ! 0 \<le> k) [Suc c..<Suc c + length rs] rs"
    using Cons.prems(2) unfolding upt by simp_all
  have fit: "ptr + length (?w @ ?ws) \<le> length (m_pkt m)" "ptr + length ?w \<le> ep"
    using Cons.prems(5) assms by simp_all
  have "bslice ptr (length (?w @ ?ws)) (m_pkt m) = ?w @ ?ws"
    using Cons.prems(4) by simp
  note parts = bslice_parts [OF this fit(1) refl]
  have ok: "rr_ok r" "list_all rr_ok rs"
    using Cons.prems(1) by simp_all
  obtain e where e: "ns_parse1 m base tot ep (rr_is_resource r) ptr = (NsNext (ptr + length ?w), e)"
      "rr_spec m base tot ep e = rr_src_view r"
    using ns_parse1_wire [OF ok(1) parts(1) fit(2) assms] by blast
  have "map (rr_spec m base tot ep) (ns_walk m base tot ep rc (Suc c) (ptr + length ?w)) = map rr_src_view rs"
    by (rule Cons.IH [OF ok(2) res(2) _ parts(2)]) (use Cons.prems(3,5) in simp_all)
  moreover have "c < sum_list rc" "ptr < ep"
    using Cons.prems(3) fit(2) rr_wire_ne [of r] by (simp, cases "rr_wire r") simp_all
  ultimately show ?case
    using e res(1) by (simp add: ns_walk.simps [of m base tot ep rc c])
qed

text \<open>The records of a message, section after section, are split at the counts of its header.\<close>

lemma of_section_append: "of_section ns s c (xs @ ys) = of_section ns s c xs @ of_section ns s (c + length xs) ys"
  by (induction xs arbitrary: c) simp_all

lemma of_section_first: "c + length es \<le> n \<Longrightarrow> of_section (n # ns) s c es = (if s = 0 then es else [])"
  by (induction es arbitrary: c) simp_all

lemma of_section_later: "of_section (n # ns) s (n + c) es = (if s = 0 then [] else of_section ns (s - 1) c es)"
proof (induction es arbitrary: c)
  case (Cons e es)
  from Cons.IH [of "Suc c"] show ?case by (cases s) simp_all
qed simp

lemma of_section_concat: "s < length secs \<Longrightarrow> of_section (map length secs) s 0 (concat secs) = secs ! s"
proof (induction secs arbitrary: s)
  case (Cons es secs)
  from Cons show ?case
    using of_section_first [of 0 es "length es" "map length secs" s] of_section_later [of "length es" "map length secs" s 0 "concat secs"]
    by (cases s) (simp_all add: of_section_append)
qed simp

definition ns_header_wire :: "byte list \<Rightarrow> byte list \<Rightarrow> rr_src list list \<Rightarrow> byte list" where
  "ns_header_wire tx flags secs = tx @ flags @ concat (map (be16 \<circ> length) secs)"

definition ns_wire :: "byte list \<Rightarrow> byte list \<Rightarrow> rr_src list list \<Rightarrow> byte list" where
  "ns_wire tx flags secs = ns_header_wire tx flags secs @ concat (map rr_wire (concat secs))"

text \<open>Four sections of fewer than 65536 records; the questions and only they have no data.\<close>

definition ns_msg_ok :: "byte list \<Rightarrow> byte list \<Rightarrow> rr_src list list \<Rightarrow> bool" where
  "ns_msg_ok tx flags secs \<longleftrightarrow> length tx = 2 \<and> length flags = 2 \<and> length secs = 4 \<and> list_all (\<lambda>es. length es < 65536 \<and> list_all rr_ok es) secs
     \<and> list_all (\<lambda>r. \<not> rr_is_resource r) (secs ! 0) \<and> list_all rr_is_resource (concat (drop 1 secs))"

lemma length_4_cases:
  assumes "length xs = 4"
  obtains a b c d where "xs = [a, b, c, d]"
  using assms by (auto simp: numeral_eq_Suc length_Suc_conv)

lemma ns_header_length:
  assumes "ns_msg_ok tx flags secs"
  shows "length (ns_header_wire tx flags secs) = 12"
proof -
  have len: "length secs = 4" "length tx = 2" "length flags = 2"
    using assms unfolding ns_msg_ok_def by simp_all
  have "length (concat (map (be16 \<circ> length) secs)) = 2 * length secs"
    by (induction secs) (simp_all add: be16_def)
  with len show ?thesis
    by (simp add: ns_header_wire_def)
qed

lemma ns_counts_wire:
  assumes "ns_msg_ok tx flags secs" "bslice base 12 (m_pkt m) = ns_header_wire tx flags secs" "base + 12 \<le> length (m_pkt m)"
  shows "ns_counts m base = map length secs" "bslice base 2 (m_pkt m) = tx"
proof -
  obtain qd an au ar where secs: "secs = [qd, an, au, ar]"
    using assms(1) length_4_cases [of secs] unfolding ns_msg_ok_def by blast
  have len: "length tx = 2" "length flags = 2" "length qd < 65536" "length an < 65536" "length au < 65536" "length ar < 65536"
    using assms(1) by (simp_all add: ns_msg_ok_def secs)
  have b16: "length (be16 n) = 2" for n
    by (simp add: be16_def)
  have h: "ns_header_wire tx flags secs = tx @ flags @ be16 (length qd) @ be16 (length an) @ be16 (length au) @ be16 (length ar)"
    by (simp add: ns_header_wire_def secs)
  have "length (tx @ flags @ be16 (length qd) @ be16 (length an) @ be16 (length au) @ be16 (length ar)) = 12"
    by (simp add: len b16)
  from assms(2,3) [folded this, unfolded h]
  have h: "bslice base (length (tx @ flags @ be16 (length qd) @ be16 (length an) @ be16 (length au) @ be16 (length ar))) (m_pkt m)
      = tx @ flags @ be16 (length qd) @ be16 (length an) @ be16 (length au) @ be16 (length ar)"
    "base + length (tx @ flags @ be16 (length qd) @ be16 (length an) @ be16 (length au) @ be16 (length ar)) \<le> length (m_pkt m)"
    by simp_all
  note w1 = bslice_parts [OF h len(1)]
  note w2 = bslice_parts [OF w1(2,3) len(2)]
  note w3 = bslice_parts [OF w2(2,3) b16]
  note w4 = bslice_parts [OF w3(2,3) b16]
  note w5 = bslice_parts [OF w4(2,3) b16]
  have off: "base + 2 + 2 = base + 4" "base + 4 + 2 = base + 6" "base + 6 + 2 = base + 8" "base + 8 + 2 = base + 10"
    by simp_all
  have "bslice (base + 10) 2 (m_pkt m) = be16 (length ar)"
    using w5(2) unfolding off b16 .
  then show "ns_counts m base = map length secs"
    using len(3-6) w3(1) w4(1) w5(1) assms(3) unfolding off by (simp add: ns_counts_def secs be16_num)
  show "bslice base 2 (m_pkt m) = tx"
    by (rule w1(1))
qed

lemma ns_msg_resources:
  assumes "ns_msg_ok tx flags secs"
  shows "list_all2 (\<lambda>k r. rr_is_resource r \<longleftrightarrow> map length secs ! 0 \<le> k) [0..<0 + length (concat secs)] (concat secs)"
proof -
  obtain qd rest where secs: "secs = qd # rest"
    using assms by (cases secs) (simp_all add: ns_msg_ok_def)
  have "\<forall>r \<in> set qd. \<not> rr_is_resource r" "\<forall>r \<in> set (concat rest). rr_is_resource r"
    using assms by (auto simp: ns_msg_ok_def secs list_all_iff)
  moreover have "(qd @ concat rest) ! i \<in> set (concat rest)" if "length qd \<le> i" "i < length (qd @ concat rest)" for i
    using that by (simp add: nth_append del: set_concat length_concat)
  ultimately show ?thesis
    by (auto simp: secs list_all2_conv_all_nth nth_append not_less simp del: set_concat length_concat) 
qed

text \<open>
  C12: Round trip of messages. A DNS message that is encoded with uncompressed names, of at most 255 bytes, is decoded to its sections:
  through the array of each section the reader finds the records of that section, in order, with the text of the name, the type, and the
  data of a resource record, and the transaction id of the header.
\<close>

theorem ns_message:
  assumes "ns_ready D this" "payload_inv (length (m_pkt m)) pd" "property_ok D p" "ns_msg_ok tx flags secs"
    and "pl_length pd = length (ns_wire tx flags secs)" "bslice (pl_ptr pd) (pl_length pd) (m_pkt m) = ns_wire tx flags secs"
  shows "\<exists>pd' p'. NameService_decode this m pd p = Inr (Module_NONE, pd', p')
    \<and> view m p' (pid_of this ''tx_id'') = view m p (pid_of this ''tx_id'') @ [Some (tx, BIG)]
    \<and> (\<forall>s < 4. map (rr_read m (live p')) (sect_refs (live p) (live p') (ns_sect this s)) = map rr_src_view (secs ! s))"
proof -
  let ?base = "pl_ptr pd" and ?ep = "pl_ptr pd + pl_length pd" and ?rs = "concat (map rr_wire (concat secs))" and ?tot = "pl_length pd - 12"
  have in_pkt: "?ep \<le> length (m_pkt m)"
    using assms(2) by (simp add: payload_inv_def)
  have four: "length secs = 4" "list_all rr_ok (concat secs)"
    using assms(4) by (auto simp: ns_msg_ok_def list_all_iff)
  have h: "length (ns_header_wire tx flags secs) = 12"
    using assms(4) by (rule ns_header_length)
  note parts = bslice_parts [OF _ _ h, of ?base ?rs "m_pkt m", folded ns_wire_def assms(5), OF assms(6) in_pkt]
  note counts = ns_counts_wire [OF assms(4) parts(1)]
  have len: "pl_length pd = 12 + length ?rs"
    using h by (simp add: assms(5) ns_wire_def)
  have "map (rr_spec m ?base ?tot ?ep) (ns_walk m ?base ?tot ?ep (map length secs) 0 (?base + 12)) = map rr_src_view (concat secs)"
    by (rule ns_walk_wire [OF in_pkt four(2) ns_msg_resources [OF assms(4)] _ parts(2)]) (use len in \<open>simp_all add: length_concat\<close>)
  from arg_cong [OF this, of "of_section (map length secs) s 0" for s]
  have sect: "map (rr_spec m ?base ?tot ?ep) (of_section (map length secs) s 0 (ns_walk m ?base ?tot ?ep (map length secs) 0 (?base + 12)))
      = map rr_src_view (secs ! s)" if "s < 4" for s
    using that by (simp only: of_section_map of_section_concat four(1))
  have "12 \<le> pl_length pd"
    using len by simp
  from ns_decode_reads [OF assms(1-3) this refl refl refl] show ?thesis
    using counts parts(3) len sect by (elim exE conjE) (intro exI conjI, assumption, simp_all)
qed

subsection \<open>A message\<close>

text \<open>The question \<^verbatim>\<open>ab.\<close> of type A, and the answer to it.\<close>

definition demo_dns :: pmodule where
  "demo_dns = solo (case DNS_new of Inr m \<Rightarrow> m | Inl _ \<Rightarrow> Module_new)"

definition demo_dns_secs :: "rr_src list list" where
  "demo_dns_secs = [[([[0x61, 0x62]], [0, 1], [0, 1], None)], [([[0x61, 0x62]], [0, 1], [0, 1], Some ([0, 0, 0, 9], [10, 0, 0, 1]))], [], []]"

definition demo_dns_packet :: "byte list" where
  "demo_dns_packet = ns_wire [0xAB, 0xCD] [0x81, 0x80] demo_dns_secs"

lemma demo_dns_ready: "ns_ready (demo_D demo_dns) demo_dns"
proof -
  let ?m = "case DNS_new of Inr m \<Rightarrow> m | Inl _ \<Rightarrow> Module_new"
  have "map fst (mo_param_map ?m) = [''additional'', ''answer'', ''authority'', ''data'', ''is_query'', ''name'', ''question'',
      ''records'', ''tx_id'', ''type'']" "list_all (\<lambda>e. cls_wf (df_cons (snd e))) (mo_param_map ?m)"
    by code_simp+
  then have "mod_ready (demo_D (solo ?m)) ns_params (solo ?m)"
    by (intro solo_ready) (simp_all flip: list.set_map)
  moreover have "list_all (\<lambda>s. df_cons (mod_param demo_dns s) = VArray []) ns_sections"
    "df_cons (mod_param demo_dns ''records'') = NSRecord_new" "df_cons (mod_param demo_dns ''name'') = VNSName None"
    "df_cons (mod_param demo_dns ''data'') = VNSData None" "df_cons (mod_param demo_dns ''type'') = VNSType"
    by code_simp+
  ultimately show ?thesis
    by (simp only: ns_ready_def demo_dns_def simp_thms list_all_iff)
qed

lemma demo_dns_message: "ns_msg_ok [0xAB, 0xCD] [0x81, 0x80] demo_dns_secs" "length demo_dns_packet = 38"
  "map rr_src_view (demo_dns_secs ! 1) = [(Some ''ab.'', Some ([0, 1], BIG), Some ([10, 0, 0, 1], BIG))]"
  by (simp add: ns_msg_ok_def demo_dns_secs_def label_ok_def) code_simp+

theorem ns_message_witness:
  "\<exists>pd' p'. NameService_decode demo_dns (demo_mem demo_dns_packet) (demo_pd demo_dns_packet) demo_prop = Inr (Module_NONE, pd', p')
     \<and> map (rr_read (demo_mem demo_dns_packet) (live p')) (sect_refs (live demo_prop) (live p') (ns_sect demo_dns 1))
       = [(Some ''ab.'', Some ([0, 1], BIG), Some ([10, 0, 0, 1], BIG))]"
proof -
  have "bslice 0 (length demo_dns_packet) demo_dns_packet = ns_wire [0xAB, 0xCD] [0x81, 0x80] demo_dns_secs"
    by (simp add: bslice_def demo_dns_packet_def)
  then show ?thesis
    using ns_message [OF demo_dns_ready _ _ demo_dns_message(1), of "demo_mem demo_dns_packet" "demo_pd demo_dns_packet" demo_prop]
      demo_dns_message(2,3)
    by (simp del: One_nat_def flip: demo_dns_packet_def) (elim exE conjE, intro exI conjI, assumption, simp del: One_nat_def)
qed

theorem ns_decodes_witness:
  "\<exists>pd' p'. NameService_decode demo_dns (demo_mem demo_dns_packet) (demo_pd demo_dns_packet) demo_prop = Inr (Module_NONE, pd', p')
     \<and> events p' = events demo_prop @ [mod_ev demo_dns ''reply'']"
proof -
  have bit: "bit (m_pkt (demo_mem demo_dns_packet) ! (0 + 3)) 7"
    by code_simp
  have pre: "payload_inv (length (m_pkt (demo_mem demo_dns_packet))) (demo_pd demo_dns_packet)" "12 \<le> pl_length (demo_pd demo_dns_packet)"
    "0 = pl_ptr (demo_pd demo_dns_packet)" "property_ok (demo_D demo_dns) demo_prop"
    using demo_dns_message(2) by simp_all
  from ns_decodes [OF demo_dns_ready pre(1,4,2,3) refl refl] show ?thesis
    unfolding if_P [OF bit] by blast
qed

end
