(* ===== verification/PM_Frame.thy ===== *)
theory PM_Frame
  imports PM_Link PM_TCP PM_DHCP PM_Message
begin

text \<open>
  What the modules under \<^verbatim>\<open>src/modules\<close> do to a property besides what their parameters show. The locale \<open>property_inv\<close> is an invariant of the
  members of \<^verbatim>\<open>Property\<close> that the basic operations keep, with the events that may be pushed; it follows once and for all that
  every module keeps it. \<open>property_inv_addr\<close> adds the operations on addresses, which only the IP modules call.
\<close>

lemma bind_res_InrE: "bind_res r f = Inr y \<Longrightarrow> (\<And>x. r = Inr x \<Longrightarrow> f x = Inr y \<Longrightarrow> thesis) \<Longrightarrow> thesis"
  by auto

lemma bind_opt_eq: "bind_opt r f = Some (Inr y) \<longleftrightarrow> (\<exists>x. r = Some (Inr x) \<and> f x = Some (Inr y))"
  by (auto simp: bind_opt_def split: option.splits sum.splits)

definition tcp_events :: "'a pmodule_scheme \<Rightarrow> event_id set" where
  "tcp_events this = {mod_ev this ''new_session'', mod_ev this ''established'', mod_ev this ''closed''}"

lemma expire_module: "expire_sessions L this = Some (Inr this') \<Longrightarrow> pmodule.truncate this' = pmodule.truncate this"
proof -
  have "expire_sessions L this = Some r \<Longrightarrow> (case r of Inl _ \<Rightarrow> True | Inr this' \<Rightarrow> pmodule.truncate this' = pmodule.truncate this)" for r
  proof (erule expire_sessions.raw_induct [rotated], goal_cases)
    case (1 f L this r)
    have "r = Inr this \<or> (\<exists>e. r = Inl e) \<or> (\<exists>t h. f L (this\<lparr>tc_table := t, tc_heap := h\<rparr>) = Some r)"
      using 1(2) by (auto simp: delete_session_def split: if_splits prod.splits sum.splits option.splits)
    moreover have "pmodule.truncate (this\<lparr>tc_table := t, tc_heap := h\<rparr>) = pmodule.truncate this" for t h
      by (simp add: pmodule.defs)
    ultimately show ?case
      by (fastforce dest!: 1(1) split: sum.splits)
  qed
  then show "expire_sessions L this = Some (Inr this') \<Longrightarrow> ?thesis" by force
qed

locale property_inv =
  fixes I :: "'b property \<Rightarrow> bool" and E :: "event_id set"
  assumes inv_upd: "I p \<Longrightarrow> I (property_upd r f p)"
    and inv_retain: "I p \<Longrightarrow> retain_value d p = Inr (r, q) \<Longrightarrow> I q"
    and inv_src_port: "I p \<Longrightarrow> I (set_src_port w p)"
    and inv_dst_port: "I p \<Longrightarrow> I (set_dst_port w p)"
    and inv_event: "I p \<Longrightarrow> e \<in> E \<Longrightarrow> I (push_event e p)"
begin

lemma retain_keeps: "retain_value d p = Inr (r, q) \<Longrightarrow> I p \<longrightarrow> I q"
  using inv_retain by blast

lemma puts_keeps: "property_puts us p = Inr q \<Longrightarrow> I p \<longrightarrow> I q"
  by (induction us p rule: property_puts.induct) (auto simp: property_puts.simps property_put_def intro: inv_upd dest!: retain_keeps)

lemma object_keeps:
  "retain_as c d p = Inr (x, q) \<Longrightarrow> I p \<longrightarrow> I q" "call r f p = Inr q \<Longrightarrow> I p \<longrightarrow> I q" "push_ref a b p = Inr q \<Longrightarrow> I p \<longrightarrow> I q"
  by (auto simp: retain_as_def call_def push_ref_def intro: inv_upd dest!: retain_keeps split: option.splits)

lemmas keeps = puts_keeps retain_keeps object_keeps

lemma ARP_addrs_keeps: "ARP_addrs as pd p = Inr (nxt, pd', q) \<Longrightarrow> I p \<longrightarrow> I q"
proof (induction as arbitrary: pd p)
  case (Cons a as)
  obtain d len where a: "a = (d, len)" by (cases a)
  from Cons.prems show ?case
    by (auto simp: a dest!: puts_keeps Cons.IH split: option.splits)
qed simp

lemma link_keeps:
  "Ethernet_decode et m pd p = Inr (nxt, pd', q) \<Longrightarrow> I p \<longrightarrow> I q"
  "Dot1Q_decode dq m pd p = Inr (nxt, pd', q) \<Longrightarrow> I p \<longrightarrow> I q"
  "PPPoE_decode pp m pd p = Inr (nxt, pd', q) \<Longrightarrow> I p \<longrightarrow> I q"
  by (auto simp: Ethernet_decode_def Dot1Q_decode_def PPPoE_decode_def Let_def dest!: puts_keeps split: option.splits if_splits)

lemma ARP_keeps:
  assumes "{mod_ev this ''request'', mod_ev this ''reply''} \<subseteq> E"
  shows "ARP_decode this m pd p = Inr (nxt, pd', q) \<Longrightarrow> I p \<longrightarrow> I q"
  using assms by (auto simp: ARP_decode_def ARP_event_def Let_def intro: inv_event dest!: puts_keeps ARP_addrs_keeps split: option.splits if_splits)

lemma net_keeps:
  "ICMP_decode this m pd p = Inr (nxt, pd', q) \<Longrightarrow> I p \<longrightarrow> I q"
  "UDP_decode ud m pd p = Inr (nxt, pd', q) \<Longrightarrow> I p \<longrightarrow> I q"
  by (auto simp: ICMP_decode_def UDP_decode_def ICMP_code_def intro: inv_upd inv_src_port inv_dst_port
      dest!: puts_keeps retain_keeps split: option.splits if_splits)

lemma DHCP_option_keeps: "DHCP_option this h n d arr p = Inr q \<Longrightarrow> I p \<longrightarrow> I q"
  by (auto simp: DHCP_option_def dest!: keeps)

lemma DHCP_options_keeps: "DHCP_options this m arr pd p = Inr (pd', q) \<Longrightarrow> I p \<longrightarrow> I q"
proof (induction "pl_length pd" arbitrary: pd p rule: less_induct)
  case less
  from less.prems show ?case
  proof (subst (asm) DHCP_options.simps, elim bind_res_InrE, goal_cases)
    case (1 x)
    then show ?case
    proof (cases x)
      case (Pair r pd1)
      have "I p \<longrightarrow> I q" if r: "r = Some h" "DHCP_option this h n d arr p = Inr p1" "payload_retain n pd1 = Inr (Some d, pd2)"
          "DHCP_options this m arr pd2 p1 = Inr (pd', q)" for h n d pd2 p1
      proof -
        have "payload_retain 2 pd = Inr (Some h, pd1)"
          using 1 Pair r(1) by simp
        from le_less_trans [OF payload_retain_le [OF r(3)] payload_retain_less [OF this]]
        have "pl_length pd2 < pl_length pd" by simp
        from less.hyps [OF this r(4)] DHCP_option_keeps [OF r(2)] show ?thesis by simp
      qed
      then show ?thesis
        using 1 Pair by (auto split: option.splits if_splits)
    qed
  qed
qed

lemma DHCP_keeps: "DHCP_decode this m pd p = Inr (nxt, pd', q) \<Longrightarrow> I p \<longrightarrow> I q"
  by (auto simp: DHCP_decode_def dest!: puts_keeps object_keeps(1) DHCP_options_keeps split: option.splits)

lemma ns_open_keeps: "ns_open this base tot ep target arr ptr p = Inr (arr', rec, ty, q) \<Longrightarrow> I p \<longrightarrow> I q"
proof -
  have "ns_array this target arr p = Inr (arr1, p1) \<Longrightarrow> I p \<longrightarrow> I p1" for arr1 p1
    by (auto simp: ns_array_def dest!: object_keeps(1) split: option.splits)
  then show "ns_open this base tot ep target arr ptr p = Inr (arr', rec, ty, q) \<Longrightarrow> ?thesis"
    by (auto simp: ns_open_def dest!: retain_keeps object_keeps split: if_splits)
qed

lemma ns_record_keeps: "ns_record this m base tot ep has target arr ptr p = Inr (x, arr', q) \<Longrightarrow> I p \<longrightarrow> I q"
proof -
  have "ns_resource this m base tot ep rec ty ptr p = Inr (x, q) \<Longrightarrow> I p \<longrightarrow> I q" for rec ty ptr p x q
    by (auto simp: ns_resource_def Let_def dest!: object_keeps split: if_splits)
  then show "ns_record this m base tot ep has target arr ptr p = Inr (x, arr', q) \<Longrightarrow> ?thesis"
    by (auto simp: ns_record_def dest!: ns_open_keeps object_keeps(2) split: option.splits if_splits)
qed

lemma ns_loop_keeps: "ns_loop this m base tot ep rc c target rr_c arr ptr p = Inr (b, q) \<Longrightarrow> I p \<longrightarrow> I q"
proof (induction "sum_list rc - c" arbitrary: c target rr_c arr ptr p rule: less_induct)
  case less
  show ?case
  proof (cases "c < sum_list rc")
    case True
    with less.prems obtain t rr a x a' p1 where r: "ns_target rc target rr_c arr = Inr (t, rr, a)"
        "ns_record this m base tot ep (rc ! 0 \<le> c) t a ptr p = Inr (x, a', p1)"
        "(case x of NsNext ptr \<Rightarrow> ns_loop this m base tot ep rc (c + 1) t (rr + 1) a' ptr p1
          | NsBreak \<Rightarrow> Inr (True, p1) | NsFalse \<Rightarrow> Inr (False, p1)) = Inr (b, q)"
      by (subst (asm) ns_loop.simps) auto
    have "I p1 \<longrightarrow> I q"
      using r(3) less.hyps [of "c + 1"] True by (cases x) auto
    with ns_record_keeps [OF r(2)] show ?thesis by simp
  next
    case False
    with less.prems show ?thesis by (subst (asm) ns_loop.simps) simp
  qed
qed

lemma NameService_keeps:
  assumes "{mod_ev this ''query'', mod_ev this ''reply''} \<subseteq> E"
  shows "NameService_decode this m pd p = Inr (nxt, pd', q) \<Longrightarrow> I p \<longrightarrow> I q"
  using assms by (auto simp: NameService_decode_def ns_decode_def Let_def intro: inv_event dest!: puts_keeps ns_loop_keeps split: option.splits if_splits)

lemma run_chain_keeps:
  assumes "\<And>seg s p x s' q. f seg s p = Some (Inr (x, s', q)) \<Longrightarrow> I p \<longrightarrow> I q"
  shows "run_chain f segs s p = Some (Inr (x, s', q)) \<Longrightarrow> I p \<longrightarrow> I q"
proof (induction segs arbitrary: s p)
  case (Cons seg segs)
  then obtain y s1 p1 where "f seg s p = Some (Inr (y, s1, p1))" "run_chain f segs s1 p1 = Some (Inr (x, s', q))"
    by (auto simp: bind_opt_eq)
  with assms Cons.IH show ?case by blast
qed simp

lemma state_events_keeps: "tcp_events this \<subseteq> E \<Longrightarrow> state_events this new_state s p = Inr q \<Longrightarrow> I p \<longrightarrow> I q"
  by (auto simp: state_events_def tcp_events_def intro: inv_event dest!: puts_keeps split: if_splits)

lemma deliver_keeps: "deliver ops this data seg_ptr s p = Inr (s', q) \<Longrightarrow> I p \<longrightarrow> I q"
  by (auto simp: deliver_def Let_def dest!: puts_keeps split: option.splits)

lemma decode_stream_keeps:
  assumes "tcp_events this \<subseteq> E"
  shows "decode_stream fuel ops this ack win sender flags seq data seg_ptr s p = Some (Inr (x, s', q)) \<Longrightarrow> I p \<longrightarrow> I q"
proof (induction fuel arbitrary: flags seq data seg_ptr s p x s' q)
  case (Suc fuel)
  have chain: "run_chain (\<lambda>seg. decode_stream fuel ops this ack win sender (sg_flags seg) (sg_seq seg)
      (tb_bytes ops (sg_buf seg)) (BufPtr (tb_addr ops (sg_buf seg)))) segs s p = Some (Inr (x, s', q)) \<Longrightarrow> I p \<longrightarrow> I q" for segs s p
    by (rule run_chain_keeps) (rule Suc.IH)
  obtain due st where send: "stream_send seq (length data) (stream_of sender s) = (due, st)"
    by fastforce
  let ?s = "upd_stream (other sender) (stream_recv ack (ucast win)) (upd_stream sender (\<lambda>_. st) s)"
  show ?case
  proof (cases due)
    case True
    then obtain tv where tv: "property_tv p = Inr tv"
      using Suc.prems send by (auto simp: decode_stream.simps(2) bind_opt_eq Let_def)
    obtain ns s1 where tr: "trans_state flags sender seq (length data) tv ?s = (ns, s1)"
      by fastforce
    obtain p1 s2 p2 where r: "state_events this ns s1 p = Inr p1" "deliver ops this data seg_ptr s1 p1 = Inr (s2, p2)"
        "q = p2 \<or> (\<exists>chain s3. run_chain (\<lambda>seg. decode_stream fuel ops this ack win sender (sg_flags seg) (sg_seq seg)
            (tb_bytes ops (sg_buf seg)) (BufPtr (tb_addr ops (sg_buf seg)))) chain s3 p2 = Some (Inr (x, s', q)))"
      using Suc.prems send True tv tr
      by (simp add: decode_stream.simps(2) bind_opt_eq Let_def) (elim exE conjE, auto split: option.split_asm if_split_asm, blast+)
    show ?thesis
      using state_events_keeps [OF assms r(1)] deliver_keeps [OF r(2)] r(3) chain by blast
  next
    case False
    then show ?thesis
      using Suc.prems send by (simp add: decode_stream.simps(2))
  qed
qed (simp add: decode_stream.simps(1))

lemma Session_keeps:
  "tcp_events this \<subseteq> E \<Longrightarrow> Session_decode ops this flags seq ack data seg_ptr win s p = Some (Inr (s', q)) \<Longrightarrow> I p \<longrightarrow> I q"
  by (auto simp: Session_decode_def bind_opt_eq Let_def simp del: decode_stream.simps dest!: decode_stream_keeps puts_keeps)

lemma search_session_keeps:
  assumes "tcp_events this \<subseteq> E" "search_session L ops key this p = (r, this', q)"
  shows "(I p \<longrightarrow> I q) \<and> same_module this this'"
proof -
  have "mod_ev this ''new_session'' \<in> E"
    using assms(1) by (simp add: tcp_events_def)
  with assms(2) show ?thesis
    by (auto simp: search_session_def Let_def mod_ev_def pmodule.defs intro: inv_event split: prod.splits option.splits)
qed

lemma tcp_session_keeps:
  assumes "tcp_events this \<subseteq> E" "tcp_session L ops m hdr seg_ptr seg_len this p = Some (Inr (this', q))"
  shows "(I p \<longrightarrow> I q) \<and> pmodule.truncate this' = pmodule.truncate this"
proof -
  obtain ts this1 key r this2 p1 where h: "expire_sessions L (tcp_clock L ts this) = Some (Inr this1)"
      "search_session L ops key this1 p = (r, this2, p1)"
      "\<exists>fl seq ack win ssn p2 data ssn'. property_puts [PCpy (mod_param this2 ''id'') (store_le 8 (unat (ss_id ssn))) BIG] p1 = Inr p2
        \<and> Session_decode ops this2 fl seq ack data seg_ptr win ssn p2 = Some (Inr (ssn', q)) \<and> this' = this2\<lparr>tc_heap := (tc_heap this2)(r \<mapsto> ssn')\<rparr>"
    using assms(2) by (simp add: tcp_session_def bind_opt_eq)
      (elim exE conjE, split prod.split_asm, auto split: option.split_asm simp: bind_opt_eq, blast+)
  have t1: "pmodule.truncate this1 = pmodule.truncate this"
    using expire_module [OF h(1)] by (simp add: tcp_clock_def Let_def pmodule.defs split: if_splits)
  then have "tcp_events this1 = tcp_events this"
    using same_module_params(2) [of this1 this] by (simp add: tcp_events_def)
  with assms(1) have s: "(I p \<longrightarrow> I p1) \<and> same_module this1 this2"
    using search_session_keeps [OF _ h(2)] by simp
  then have t2: "pmodule.truncate this2 = pmodule.truncate this"
    using t1 by simp
  then have "tcp_events this2 = tcp_events this"
    using same_module_params(2) [of this2 this] by (simp add: tcp_events_def)
  with h(3) assms(1) s have "I p \<longrightarrow> I q"
    by (auto dest!: puts_keeps Session_keeps [rotated])
  with h(3) t2 show ?thesis
    by (auto simp: pmodule.defs)
qed

lemma TCP_keeps:
  fixes this :: "('t, 'b) tcp"
  assumes "tcp_events this \<subseteq> E" "TCP_decode L ops this m pd p = Some (Inr (nxt, this', pd', q))"
  shows "(I p \<longrightarrow> I q) \<and> pmodule.truncate this' = pmodule.truncate this"
proof -
  have hdr: "set_properties this m h pd1 p = Inr (ok, pd2, p1) \<Longrightarrow> I p \<longrightarrow> I p1" for this :: "('t, 'b) tcp" and h pd1 ok pd2 p1
    by (auto simp: set_properties_def Let_def intro: inv_src_port inv_dst_port dest!: puts_keeps split: option.splits if_splits)
  have seg: "tcp_segment this pd1 p = Inr (sp, pd2, p1) \<Longrightarrow> I p \<longrightarrow> I p1" for this :: "('t, 'b) tcp" and pd1 sp pd2 p p1
    by (auto simp: tcp_segment_def Let_def dest!: puts_keeps split: if_splits)
  show ?thesis
    using assms by (auto simp: TCP_decode_def bind_opt_eq Let_def dest!: hdr seg tcp_session_keeps [rotated] split: option.splits if_splits)
qed

end

locale property_inv_addr = property_inv I E for I :: "'b property \<Rightarrow> bool" and E +
  assumes inv_src_addr: "I p \<Longrightarrow> I (set_src_addr ops a p)"
    and inv_dst_addr: "I p \<Longrightarrow> I (set_dst_addr ops a p)"
begin

lemma IPv4_keeps: "IPv4_decode ops this m pd p = Inr (nxt, pd', q) \<Longrightarrow> I p \<longrightarrow> I q"
proof -
  have "IPv4_option this n q1 p1 = Inr (q2, p2) \<Longrightarrow> I p1 \<longrightarrow> I p2" for n q1 p1 q2 p2
    by (auto simp: IPv4_option_def dest!: puts_keeps split: if_splits)
  then have "IPv4_body ops this m h hl tot pd1 p = Inr (nxt, pd', q) \<Longrightarrow> I p \<longrightarrow> I q" for h hl tot pd1
    by (auto simp: IPv4_body_def Let_def intro: inv_src_addr inv_dst_addr dest!: puts_keeps)
  then show "IPv4_decode ops this m pd p = Inr (nxt, pd', q) \<Longrightarrow> ?thesis"
    by (auto simp: IPv4_decode_def Let_def split: option.splits if_splits)
qed

lemma IPv6_keeps: "IPv6_decode ops this m pd p = Inr (nxt, pd', q) \<Longrightarrow> I p \<longrightarrow> I q"
  by (auto simp: IPv6_decode_def intro: inv_src_addr inv_dst_addr dest!: puts_keeps split: option.splits)

end

text \<open>The events of a packet are events that may be pushed.\<close>

lemma set_events_push: "set (events (push_event e p)) \<subseteq> insert e (set (events p))"
proof -
  have "set (take (Suc n) (xs[n := e])) \<subseteq> insert e (set (take n xs))" if "n < length xs" for n xs
    using that by (simp add: take_Suc_conv_app_nth)
  moreover have "set (take (Suc n) (xs @ [e])) \<subseteq> insert e (set (take n xs))" if "length xs \<le> n" for n xs
    using that by simp
  ultimately show ?thesis
    by (auto simp: events_def push_event_def)
qed

lemma events_property_upd [simp]: "events (property_upd r f p) = events p"
  by (cases r; simp add: events_def)

lemma events_retain_value: "retain_value d p = Inr (r, q) \<Longrightarrow> events q = events p"
  by (auto simp: retain_value_def Let_def events_def property_grow_def split: if_splits)

interpretation ev: property_inv_addr "\<lambda>p. set (events p) \<subseteq> E" E for E
  by unfold_locales (use set_events_push in \<open>auto simp: events_retain_value dest!: subsetD\<close>,
      auto simp: events_def set_src_port_def set_dst_port_def set_src_addr_def set_dst_addr_def)

end
