(* ===== verification/PM_Decode.thy ===== *)
theory PM_Decode
  imports PM_Frame
begin

text \<open>
  The decoder at work: \<^verbatim>\<open>build_module_map\<close> of \<^verbatim>\<open>src/module.cc\<close>, the \<^verbatim>\<open>setup\<close> calls of \<^verbatim>\<open>Decoder::init\<close>, and the loop of
  \<^verbatim>\<open>Decoder::decode\<close> in \<^verbatim>\<open>src/decoder.cc\<close>, which calls the \<^verbatim>\<open>decode\<close> of one module after the other. A module object after its
  \<^verbatim>\<open>setup\<close> is a value of \<open>amod\<close>, with one constructor for each class, and the virtual call is \<open>module_decode\<close>. The loop may
  run forever in principle, so it is a \<^verbatim>\<open>partial_function\<close>; the proofs rank the modules of \<^verbatim>\<open>build_module_map\<close> so
  that the next module always has a lower rank.
\<close>

subsection \<open>Modules\<close>

datatype ('t, 'b) amod =
    MARP pmodule
  | MDHCP pmodule
  | MDNS pmodule
  | MDot1Q dot1q
  | MEthernet ethernet
  | MICMP pmodule
  | MIPv4 ipv4
  | MIPv6 ipv6
  | MMDNS pmodule
  | MPPPoE pppoe
  | MTCP "('t, 'b) tcp"
  | MUDP udp

definition build_module_map :: "(string, pmodule) smap res" where
  "build_module_map =
     bind_res ARP_new (\<lambda>arp. bind_res IPv4_new (\<lambda>ipv4. bind_res IPv6_new (\<lambda>ipv6. bind_res UDP_new (\<lambda>udp.
     bind_res TCP_new (\<lambda>tcp. bind_res DNS_new (\<lambda>dns. bind_res MDNS_new (\<lambda>mdns.
       Inr (fold (\<lambda>(name, m). smap_insert name m)
         [(''Ethernet'', Ethernet_new), (''Dot1Q'', Dot1Q_new), (''PPPoE'', PPPoE_new), (''ARP'', arp), (''IPv4'', ipv4),
          (''IPv6'', ipv6), (''ICMP'', ICMP_new), (''UDP'', udp), (''TCP'', tcp), (''DNS'', dns), (''MDNS'', mdns),
          (''DHCP'', DHCP_new)] []))))))))"

text \<open>The virtual call \<^verbatim>\<open>mod->setup(local_config)\<close>; in \<^verbatim>\<open>build_module_map\<close> the name of a module is that of its class.\<close>

definition module_setup :: "('t, 'k) lru_ops \<Rightarrow> (string \<Rightarrow> mod_id) \<Rightarrow> config \<Rightarrow> pmodule \<Rightarrow> ('t, 'b) amod res" where
  "module_setup L lookup config m =
     (let name = mo_name m in
      if name = ''ARP'' then Inr (MARP m)
      else if name = ''DHCP'' then Inr (MDHCP m)
      else if name = ''DNS'' then Inr (MDNS m)
      else if name = ''Dot1Q'' then Inr (MDot1Q (Dot1Q_setup lookup m))
      else if name = ''Ethernet'' then Inr (MEthernet (Ethernet_setup lookup m))
      else if name = ''ICMP'' then Inr (MICMP m)
      else if name = ''IPv4'' then Inr (MIPv4 (IPv4_setup lookup m))
      else if name = ''IPv6'' then Inr (MIPv6 (IPv6_setup lookup m))
      else if name = ''MDNS'' then Inr (MMDNS m)
      else if name = ''PPPoE'' then Inr (MPPPoE (PPPoE_setup lookup m))
      else if name = ''TCP'' then bind_res (TCP_setup L config m) (\<lambda>t. Inr (MTCP t))
      else if name = ''UDP'' then Inr (MUDP (UDP_setup lookup m))
      else Inl UndefinedBehaviour)"

fun setup_modules :: "('t, 'k) lru_ops \<Rightarrow> (string \<Rightarrow> mod_id) \<Rightarrow> config list \<Rightarrow> pmodule list \<Rightarrow> (('t, 'b) amod list) res" where
  "setup_modules L lookup (c # cs) (m # ms) =
     bind_res (module_setup L lookup c m) (\<lambda>a. bind_res (setup_modules L lookup cs ms) (\<lambda>as. Inr (a # as)))"
| "setup_modules L lookup _ _ = Inr []"

text \<open>\<^verbatim>\<open>Decoder(config)\<close>, without a module map of the caller.\<close>

definition Decoder_make :: "('t, 'k) lru_ops \<Rightarrow> config \<Rightarrow> (decoder \<times> ('t, 'b) amod list) res" where
  "Decoder_make L config =
     bind_res build_module_map (\<lambda>mod_map.
     bind_res (decoder_init config mod_map) (\<lambda>(dec, confs).
     bind_res (setup_modules L (lookup_module dec) confs (dc_modules dec)) (\<lambda>mods.
       Inr (dec, mods))))"

subsection \<open>Decoding\<close>

definition with_mod :: "('t, 'b) amod \<Rightarrow> (mod_id \<times> payload \<times> 'b property) res
    \<Rightarrow> (mod_id \<times> ('t, 'b) amod \<times> payload \<times> 'b property) res option" where
  "with_mod a r = Some (bind_res r (\<lambda>(nxt, pd, prop). Inr (nxt, a, pd, prop)))"

text \<open>The virtual call \<^verbatim>\<open>mod->decode(pd, prop)\<close>; only the TCP module has a state of its own.\<close>

fun module_decode :: "('t, 'k) lru_ops \<Rightarrow> 'b buffer_ops \<Rightarrow> mem \<Rightarrow> payload \<Rightarrow> 'b property \<Rightarrow> ('t, 'b) amod
    \<Rightarrow> (mod_id \<times> ('t, 'b) amod \<times> payload \<times> 'b property) res option" where
  "module_decode L ops m pd prop (MARP this) = with_mod (MARP this) (ARP_decode this m pd prop)"
| "module_decode L ops m pd prop (MDHCP this) = with_mod (MDHCP this) (DHCP_decode this m pd prop)"
| "module_decode L ops m pd prop (MDNS this) = with_mod (MDNS this) (NameService_decode this m pd prop)"
| "module_decode L ops m pd prop (MDot1Q this) = with_mod (MDot1Q this) (Dot1Q_decode this m pd prop)"
| "module_decode L ops m pd prop (MEthernet this) = with_mod (MEthernet this) (Ethernet_decode this m pd prop)"
| "module_decode L ops m pd prop (MICMP this) = with_mod (MICMP this) (ICMP_decode this m pd prop)"
| "module_decode L ops m pd prop (MIPv4 this) = with_mod (MIPv4 this) (IPv4_decode ops this m pd prop)"
| "module_decode L ops m pd prop (MIPv6 this) = with_mod (MIPv6 this) (IPv6_decode ops this m pd prop)"
| "module_decode L ops m pd prop (MMDNS this) = with_mod (MMDNS this) (NameService_decode this m pd prop)"
| "module_decode L ops m pd prop (MPPPoE this) = with_mod (MPPPoE this) (PPPoE_decode this m pd prop)"
| "module_decode L ops m pd prop (MTCP this) =
     bind_opt (TCP_decode L ops this m pd prop) (\<lambda>(nxt, this, pd, prop). Some (Inr (nxt, MTCP this, pd, prop)))"
| "module_decode L ops m pd prop (MUDP this) = with_mod (MUDP this) (UDP_decode this m pd prop)"

partial_function (option) decode_loop :: "('t, 'k) lru_ops \<Rightarrow> 'b buffer_ops \<Rightarrow> decoder \<Rightarrow> mem \<Rightarrow> ('t, 'b) amod list \<Rightarrow> mod_id
    \<Rightarrow> payload \<Rightarrow> 'b property \<Rightarrow> (('t, 'b) amod list \<times> payload \<times> 'b property) res option" where
  "decode_loop L ops dec m mods nxt pd prop =
     (if nxt = Module_NONE then Some (Inr (mods, pd, prop))
      else if nxt < 0 \<or> int (length mods) \<le> nxt then Some (Inl UndefinedBehaviour)
      else
        (case module_decode L ops m pd (push_event (mod_event dec (nat nxt)) prop) (mods ! nat nxt) of
           None \<Rightarrow> None
         | Some (Inl e) \<Rightarrow> Some (Inl e)
         | Some (Inr (nxt', a, pd, prop)) \<Rightarrow>
             if nxt' = Module_NONE \<or> 0 \<le> nxt' \<and> nxt' < int (length mods)
             then decode_loop L ops dec m (mods[nat nxt := a]) nxt' pd prop
             else Some (Inl AssertFailed)))"

definition Decoder_decode :: "('t, 'k) lru_ops \<Rightarrow> 'b buffer_ops \<Rightarrow> decoder \<Rightarrow> mem \<Rightarrow> ('t, 'b) amod list
    \<Rightarrow> payload \<Rightarrow> 'b property \<Rightarrow> (('t, 'b) amod list \<times> payload \<times> 'b property) res option" where
  "Decoder_decode L ops dec m mods pd prop = decode_loop L ops dec m mods (dc_mod_ethernet dec) pd prop"

text \<open>What \<^verbatim>\<open>Kernel::thread_main\<close> does with the packets it pulls, before the handlers run. Memory holds the bytes of the packet.\<close>

fun decode_packets :: "('t, 'k) lru_ops \<Rightarrow> 'b buffer_ops \<Rightarrow> decoder \<Rightarrow> (packet \<times> mem) list \<Rightarrow> ('t, 'b) amod list \<Rightarrow> payload
    \<Rightarrow> 'b property \<Rightarrow> (('t, 'b) amod list \<times> payload \<times> 'b property) res option" where
  "decode_packets L ops dec [] mods pd prop = Some (Inr (mods, pd, prop))"
| "decode_packets L ops dec ((pkt, m) # pkts) mods pd prop =
     bind_opt (Decoder_decode L ops dec m mods (payload_reset pkt pd) (property_init pkt prop)) (\<lambda>(mods, pd, prop).
       decode_packets L ops dec pkts mods pd prop)"

subsection \<open>Addresses and packet\<close>

text \<open>
  The TCP module relies on two attributes of the property: the packet is there, and the two addresses have the same length. All modules
  keep that, IPv4 and IPv6 by setting both addresses.
\<close>

definition addr_ok :: "'b buffer_ops \<Rightarrow> 'b property \<Rightarrow> bool" where
  "addr_ok ops p \<longleftrightarrow> pr_pkt p \<noteq> None
     \<and> (buffer_laws ops \<longrightarrow> length (tb_bytes ops (pr_src_addr p)) = length (tb_bytes ops (pr_dst_addr p)))"

lemma addr_ok_push [simp]: "addr_ok ops (push_event e p) = addr_ok ops p"
  by (simp add: addr_ok_def push_event_def)

lemma addr_ok_upd [simp]: "addr_ok ops (property_upd r f p) = addr_ok ops p"
  by (cases r; simp add: addr_ok_def)

interpretation ao: property_inv "addr_ok ops" UNIV for ops
  by unfold_locales (simp_all, auto simp: retain_value_def property_grow_def Let_def addr_ok_def set_src_port_def set_dst_port_def split: if_splits)

text \<open>The IP modules set both addresses to fields of the same size.\<close>

lemma addr_ok_set: "addr_ok ops p \<Longrightarrow> length a = length b \<Longrightarrow> addr_ok ops (set_dst_addr ops b (set_src_addr ops a p))"
  by (auto simp: addr_ok_def set_dst_addr_def set_src_addr_def buffer_laws_def)

lemma pkt_bytes_length: "pkt_bytes m off n = Inr bs \<Longrightarrow> length bs = n"
  by (auto simp: pkt_bytes_def bslice_opt_def split: if_splits)

lemma IPv4_addr_ok:
  assumes "addr_ok ops p" "IPv4_decode ops this m pd p = Inr (nxt, pd', p')"
  shows "addr_ok ops p'"
proof -
  have opt: "IPv4_option this n q p1 = Inr (q', p2) \<Longrightarrow> addr_ok ops p1 \<longrightarrow> addr_ok ops p2" for n q p1 q' p2
    by (auto simp: IPv4_option_def dest!: ao.puts_keeps [of _ _ _ ops] split: if_splits)
  have "addr_ok ops p'" if "IPv4_body ops this m h hl tot pd1 p = Inr (nxt, pd', p')" for h hl tot pd1
    using that assms(1) addr_ok_set [of ops]
    by (auto simp: IPv4_body_def Let_def dest!: ao.puts_keeps [of _ _ _ ops] opt pkt_bytes_length)
  then show ?thesis
    using assms by (auto simp: IPv4_decode_def Let_def split: option.splits if_splits)
qed

lemma IPv6_addr_ok:
  assumes "addr_ok ops p" "IPv6_decode ops this m pd p = Inr (nxt, pd', p')"
  shows "addr_ok ops p'"
  using assms addr_ok_set [OF assms(1)] by (auto simp: IPv6_decode_def dest!: pkt_bytes_length split: option.splits)

subsection \<open>The contract of a module in the loop\<close>

text \<open>A protocol module that keeps a property of the attributes, \<open>inv\<close>, besides the contract of \<open>protocol\<close>.\<close>

locale framed_protocol = protocol decode ready nexts
  for decode :: "'m \<Rightarrow> mem \<Rightarrow> payload \<Rightarrow> 'b property \<Rightarrow> (mod_id \<times> payload \<times> 'b property) res"
    and ready :: "(nat \<Rightarrow> string) \<Rightarrow> 'm \<Rightarrow> bool"
    and nexts :: "'m \<Rightarrow> mod_id set" +
  fixes inv :: "'b property \<Rightarrow> bool"
  assumes decode_inv: "inv p \<Longrightarrow> decode this m pd p = Inr (nxt, pd', p') \<Longrightarrow> inv p'"
begin

lemma decode_framed:
  assumes "ready D this" "payload_inv (length (m_pkt m)) pd" "property_ok D p" "inv p"
  obtains nxt pd' p' where "decode this m pd p = Inr (nxt, pd', p')" "nxt = Module_NONE \<or> nxt \<in> nexts this"
    "advance D m pd p pd' p'" "inv p'"
  using decode_returns [OF assms(1-3)] decode_inv [OF assms(4)] by metis

end

interpretation fr_ethernet: framed_protocol Ethernet_decode "\<lambda>D. mod_ready D ether_params" Ethernet_nexts "addr_ok ops" for ops
  by unfold_locales (blast dest: ao.link_keeps ao.ARP_keeps [OF subset_UNIV])

interpretation fr_dot1q: framed_protocol Dot1Q_decode "\<lambda>D. mod_ready D dot1q_params" Dot1Q_nexts "addr_ok ops" for ops
  by unfold_locales (blast dest: ao.link_keeps ao.ARP_keeps [OF subset_UNIV])

interpretation fr_pppoe: framed_protocol PPPoE_decode "\<lambda>D. mod_ready D pppoe_params" "\<lambda>this. {pp_mod_ipv4 this}" "addr_ok ops" for ops
  by unfold_locales (blast dest: ao.link_keeps ao.ARP_keeps [OF subset_UNIV])

interpretation fr_arp: framed_protocol ARP_decode "\<lambda>D. mod_ready D arp_params" "\<lambda>_. {}" "addr_ok ops" for ops
  by unfold_locales (blast dest: ao.link_keeps ao.ARP_keeps [OF subset_UNIV])

interpretation fr_ipv4: framed_protocol "IPv4_decode ops" "\<lambda>D. mod_ready D ipv4_params"
  "\<lambda>this. {i4_mod_tcp this, i4_mod_udp this, i4_mod_icmp this}" "addr_ok ops" for ops
  by unfold_locales (rule IPv4_addr_ok)

interpretation fr_ipv6: framed_protocol "IPv6_decode ops" "\<lambda>D this. True" "\<lambda>this. {i6_mod_tcp this, i6_mod_udp this}" "addr_ok ops" for ops
  by unfold_locales (rule IPv6_addr_ok)

interpretation fr_icmp: framed_protocol ICMP_decode icmp_ready "\<lambda>_. {}" "addr_ok ops" for ops
  by unfold_locales (blast dest: ao.net_keeps)

interpretation fr_udp: framed_protocol UDP_decode "\<lambda>D. mod_ready D udp_params" UDP_nexts "addr_ok ops" for ops
  by unfold_locales (blast dest: ao.net_keeps)

interpretation fr_dhcp: framed_protocol DHCP_decode dhcp_ready "\<lambda>_. {}" "addr_ok ops" for ops
  by unfold_locales (blast dest: ao.DHCP_keeps)

interpretation fr_ns: framed_protocol NameService_decode ns_ready "\<lambda>_. {}" "addr_ok ops" for ops
  by unfold_locales (blast dest: ao.NameService_keeps [OF subset_UNIV])

text \<open>The same for all modules of the decoder; \<open>inside\<close> and \<open>outside\<close> are the entries of the session table.\<close>

fun amod_ready :: "('t \<Rightarrow> nat set) \<Rightarrow> ('t \<Rightarrow> nat list) \<Rightarrow> (nat \<Rightarrow> string) \<Rightarrow> ('t, 'b) amod \<Rightarrow> bool" where
  "amod_ready ins outs D (MARP this) = mod_ready D arp_params this"
| "amod_ready ins outs D (MDHCP this) = dhcp_ready D this"
| "amod_ready ins outs D (MDNS this) = ns_ready D this"
| "amod_ready ins outs D (MDot1Q this) = mod_ready D dot1q_params this"
| "amod_ready ins outs D (MEthernet this) = mod_ready D ether_params this"
| "amod_ready ins outs D (MICMP this) = icmp_ready D this"
| "amod_ready ins outs D (MIPv4 this) = mod_ready D ipv4_params this"
| "amod_ready ins outs D (MIPv6 this) = True"
| "amod_ready ins outs D (MMDNS this) = ns_ready D this"
| "amod_ready ins outs D (MPPPoE this) = mod_ready D pppoe_params this"
| "amod_ready ins outs D (MTCP this) = (mod_ready D tcp_params this \<and> table_ok ins outs this)"
| "amod_ready ins outs D (MUDP this) = mod_ready D udp_params this"

fun amod_nexts :: "('t, 'b) amod \<Rightarrow> mod_id set" where
  "amod_nexts (MDot1Q this) = Dot1Q_nexts this"
| "amod_nexts (MEthernet this) = Ethernet_nexts this"
| "amod_nexts (MIPv4 this) = {i4_mod_tcp this, i4_mod_udp this, i4_mod_icmp this}"
| "amod_nexts (MIPv6 this) = {i6_mod_tcp this, i6_mod_udp this}"
| "amod_nexts (MPPPoE this) = {pp_mod_ipv4 this}"
| "amod_nexts (MUDP this) = UDP_nexts this"
| "amod_nexts _ = {}"

definition module_post :: "('t \<Rightarrow> nat set) \<Rightarrow> ('t \<Rightarrow> nat list) \<Rightarrow> (nat \<Rightarrow> string) \<Rightarrow> 'b buffer_ops \<Rightarrow> mem \<Rightarrow> payload \<Rightarrow> 'b property
    \<Rightarrow> ('t, 'b) amod \<Rightarrow> mod_id \<times> ('t, 'b) amod \<times> payload \<times> 'b property \<Rightarrow> bool" where
  "module_post ins outs D ops m pd p a = (\<lambda>(nxt, a', pd', p').
     (nxt = Module_NONE \<or> nxt \<in> amod_nexts a) \<and> amod_ready ins outs D a' \<and> amod_nexts a' = amod_nexts a
     \<and> advance D m pd p pd' p' \<and> addr_ok ops p' \<and> ((\<forall>t. a \<noteq> MTCP t) \<longrightarrow> a' = a))"

lemma same_module_ready: "pmodule.truncate b = pmodule.truncate a \<Longrightarrow> mod_ready D names b = mod_ready D names a"
  using same_module_params(1) [of a b] by (simp add: mod_ready_def)

lemma module_decode_returns:
  assumes laws: "lru_laws L ins outs" "buffer_laws ops"
    and "amod_ready ins outs D a" "payload_inv (length (m_pkt m)) pd" "property_ok D p" "addr_ok ops p"
  shows "\<exists>r. module_decode L ops m pd p a = Some (Inr r) \<and> module_post ins outs D ops m pd p a r"
proof (cases a)
  case (MTCP this)
  then have h: "mod_ready D tcp_params this" "table_ok ins outs this" "pr_pkt p \<noteq> None"
      "length (tb_bytes ops (pr_src_addr p)) = length (tb_bytes ops (pr_dst_addr p))"
    using assms by (simp_all add: addr_ok_def)
  obtain mdl' pd' p' where r: "TCP_decode L ops this m pd p = Some (Inr (Module_NONE, mdl', pd', p'))" "table_ok ins outs mdl'"
      "same_module this mdl'" "advance D m pd p pd' p'" "grows D m p p'"
    using TCP_returns [OF laws(1) h(1,2) assms(4,5) h(3,4)] by auto
  moreover have "mod_ready D tcp_params mdl'"
    using same_module_ready [of mdl' this D tcp_params] h(1) r(3) by simp
  ultimately show ?thesis
    using MTCP assms(6) by (auto simp: module_post_def grows_def addr_ok_def)
next
  case (MARP this)
  show ?thesis
    by (rule fr_arp.decode_framed [OF _ assms(4-6), of this]) (use MARP assms(3) in \<open>auto simp: module_post_def with_mod_def\<close>)
next
  case (MDHCP this)
  show ?thesis
    by (rule fr_dhcp.decode_framed [OF _ assms(4-6), of this]) (use MDHCP assms(3) in \<open>auto simp: module_post_def with_mod_def\<close>)
next
  case (MDNS this)
  show ?thesis
    by (rule fr_ns.decode_framed [OF _ assms(4-6), of this]) (use MDNS assms(3) in \<open>auto simp: module_post_def with_mod_def\<close>)
next
  case (MDot1Q this)
  show ?thesis
    by (rule fr_dot1q.decode_framed [OF _ assms(4-6), of this]) (use MDot1Q assms(3) in \<open>auto simp: module_post_def with_mod_def\<close>)
next
  case (MEthernet this)
  show ?thesis
    by (rule fr_ethernet.decode_framed [OF _ assms(4-6), of this]) (use MEthernet assms(3) in \<open>auto simp: module_post_def with_mod_def\<close>)
next
  case (MICMP this)
  show ?thesis
    by (rule fr_icmp.decode_framed [OF _ assms(4-6), of this]) (use MICMP assms(3) in \<open>auto simp: module_post_def with_mod_def\<close>)
next
  case (MIPv4 this)
  show ?thesis
    by (rule fr_ipv4.decode_framed [OF _ assms(4-6), of this]) (use MIPv4 assms(3) in \<open>auto simp: module_post_def with_mod_def\<close>)
next
  case (MIPv6 this)
  show ?thesis
    by (rule fr_ipv6.decode_framed [OF _ assms(4-6), of this]) (use MIPv6 assms(3) in \<open>auto simp: module_post_def with_mod_def\<close>)
next
  case (MMDNS this)
  show ?thesis
    by (rule fr_ns.decode_framed [OF _ assms(4-6), of this]) (use MMDNS assms(3) in \<open>auto simp: module_post_def with_mod_def\<close>)
next
  case (MPPPoE this)
  show ?thesis
    by (rule fr_pppoe.decode_framed [OF _ assms(4-6), of this]) (use MPPPoE assms(3) in \<open>auto simp: module_post_def with_mod_def\<close>)
next
  case (MUDP this)
  show ?thesis
    by (rule fr_udp.decode_framed [OF _ assms(4-6), of this]) (use MUDP assms(3) in \<open>auto simp: module_post_def with_mod_def\<close>)
qed

subsection \<open>The loop\<close>

text \<open>Every module passes on to modules of a lower rank only.\<close>

definition ranked :: "(nat \<Rightarrow> nat) \<Rightarrow> ('t, 'b) amod list \<Rightarrow> bool" where
  "ranked rank mods \<longleftrightarrow> (\<forall>i < length mods. \<forall>n \<in> amod_nexts (mods ! i).
     n = Module_NONE \<or> 0 \<le> n \<and> nat n < length mods \<and> rank (nat n) < rank i)"

definition mods_ok :: "('t \<Rightarrow> nat set) \<Rightarrow> ('t \<Rightarrow> nat list) \<Rightarrow> (nat \<Rightarrow> string) \<Rightarrow> (nat \<Rightarrow> nat) \<Rightarrow> ('t, 'b) amod list \<Rightarrow> bool" where
  "mods_ok ins outs D rank mods \<longleftrightarrow> list_all (amod_ready ins outs D) mods \<and> ranked rank mods"

text \<open>Only the TCP module changes.\<close>

definition kept_mods :: "('t, 'b) amod list \<Rightarrow> ('t, 'b) amod list \<Rightarrow> bool" where
  "kept_mods mods mods' \<longleftrightarrow> length mods' = length mods \<and> (\<forall>i < length mods. (\<forall>t. mods ! i \<noteq> MTCP t) \<longrightarrow> mods' ! i = mods ! i)"

lemma kept_mods_trans: "kept_mods a b \<Longrightarrow> kept_mods b c \<Longrightarrow> kept_mods a c"
  by (simp add: kept_mods_def)

lemma kept_mods_upd: "((\<forall>t. mods ! i \<noteq> MTCP t) \<longrightarrow> a = mods ! i) \<Longrightarrow> kept_mods mods (mods[i := a])"
  by (cases "i < length mods") (auto simp: kept_mods_def nth_list_update)

lemma mods_ok_upd:
  assumes "mods_ok ins outs D rank mods" "amod_ready ins outs D a" "amod_nexts a = amod_nexts (mods ! i)" "i < length mods"
  shows "mods_ok ins outs D rank (mods[i := a])"
  using assms by (auto simp: mods_ok_def ranked_def list_all_length nth_list_update)

lemma Module_NONE_neg: "Module_NONE < 0"
  by (simp add: Module_NONE_def)

lemma advance_event:
  "payload_inv (length (m_pkt m)) pd \<Longrightarrow> property_ok D p \<Longrightarrow> advance D m pd p pd (push_event e p)"
  by (simp add: advance_def property_ok_def push_event_wf events_push_event view_def)

lemma decode_loop_returns:
  assumes laws: "lru_laws L ins outs" "buffer_laws ops"
  shows "mods_ok ins outs D rank mods \<Longrightarrow> payload_inv (length (m_pkt m)) pd \<Longrightarrow> property_ok D p \<Longrightarrow> addr_ok ops p \<Longrightarrow>
    0 \<le> nxt \<Longrightarrow> nat nxt < length mods \<Longrightarrow>
    \<exists>mods' pd' p'. decode_loop L ops dec m mods nxt pd p = Some (Inr (mods', pd', p')) \<and> mods_ok ins outs D rank mods'
      \<and> kept_mods mods mods' \<and> advance D m pd (push_event (mod_event dec (nat nxt)) p) pd' p' \<and> addr_ok ops p'"
proof (induction "rank (nat nxt)" arbitrary: nxt mods pd p rule: less_induct)
  case less
  let ?i = "nat nxt" and ?p = "push_event (mod_event dec (nat nxt)) p"
  have a: "amod_ready ins outs D (mods ! ?i)" "?i < length mods"
    using less.prems(1,6) by (simp_all add: mods_ok_def list_all_length)
  have p: "property_ok D ?p" "addr_ok ops ?p"
    using advance_event [OF less.prems(2,3)] less.prems(4) by (simp_all add: advance_def)
  obtain nxt' a' pd1 p1 where r: "module_decode L ops m pd ?p (mods ! ?i) = Some (Inr (nxt', a', pd1, p1))"
      "nxt' = Module_NONE \<or> nxt' \<in> amod_nexts (mods ! ?i)" "amod_ready ins outs D a'" "amod_nexts a' = amod_nexts (mods ! ?i)"
      "advance D m pd ?p pd1 p1" "addr_ok ops p1" "(\<forall>t. mods ! ?i \<noteq> MTCP t) \<longrightarrow> a' = mods ! ?i"
    using module_decode_returns [OF laws a(1) less.prems(2) p] by (auto simp: module_post_def)
  note mods' = mods_ok_upd [OF less.prems(1) r(3,4) a(2)] and kept = kept_mods_upd [OF r(7)]
  have p1: "payload_inv (length (m_pkt m)) pd1" "property_ok D p1"
    using r(5) by (simp_all add: advance_def)
  have ranked: "nxt' = Module_NONE \<or> 0 \<le> nxt' \<and> nat nxt' < length mods \<and> rank (nat nxt') < rank ?i"
    using r(2) less.prems(1) a(2) by (auto simp: mods_ok_def ranked_def)
  have step: "decode_loop L ops dec m mods nxt pd p = decode_loop L ops dec m (mods[?i := a']) nxt' pd1 p1"
    using r(1) ranked less.prems(5,6) Module_NONE_neg by (subst decode_loop.simps) auto
  show ?case
  proof (cases "nxt' = Module_NONE")
    case True
    then have "decode_loop L ops dec m (mods[?i := a']) nxt' pd1 p1 = Some (Inr (mods[?i := a'], pd1, p1))"
      by (subst decode_loop.simps) simp
    then show ?thesis
      using step mods' kept r(5,6) by simp
  next
    case False
    with ranked have n: "0 \<le> nxt'" "nat nxt' < length (mods[?i := a'])" "rank (nat nxt') < rank ?i"
      by simp_all
    obtain mods2 pd2 p2 where l: "decode_loop L ops dec m (mods[?i := a']) nxt' pd1 p1 = Some (Inr (mods2, pd2, p2))"
        "mods_ok ins outs D rank mods2" "kept_mods (mods[?i := a']) mods2"
        "advance D m pd1 (push_event (mod_event dec (nat nxt')) p1) pd2 p2" "addr_ok ops p2"
      using less.hyps [OF n(3) mods' p1 r(6) n(1,2)] by auto
    from advance_trans [OF advance_trans [OF r(5) advance_event [OF p1]] l(4)] kept_mods_trans [OF kept l(3)] show ?thesis
      using step l by simp
  qed
qed

subsection \<open>The events of a packet\<close>

text \<open>The events that a module pushes itself.\<close>

fun amod_events :: "('t, 'b) amod \<Rightarrow> event_id set" where
  "amod_events (MARP this) = {mod_ev this ''request'', mod_ev this ''reply''}"
| "amod_events (MDNS this) = {mod_ev this ''query'', mod_ev this ''reply''}"
| "amod_events (MMDNS this) = {mod_ev this ''query'', mod_ev this ''reply''}"
| "amod_events (MTCP this) = tcp_events this"
| "amod_events _ = {}"

context property_inv_addr
begin

lemma module_decode_keeps:
  assumes "amod_events a \<subseteq> E" "module_decode L ops m pd p a = Some (Inr (nxt, a', pd', q))"
  shows "(I p \<longrightarrow> I q) \<and> amod_events a' = amod_events a"
proof (cases a)
  case (MTCP this)
  then obtain this' where t: "TCP_decode L ops this m pd p = Some (Inr (nxt, this', pd', q))" "a' = MTCP this'"
    using assms(2) by (auto simp: bind_opt_eq)
  have "tcp_events this' = tcp_events this" if "pmodule.truncate this' = pmodule.truncate this"
    using same_module_params(2) [OF that] by (simp add: tcp_events_def)
  with TCP_keeps [OF _ t(1)] show ?thesis
    using assms(1) MTCP t(2) by simp
qed (use assms in \<open>auto simp: with_mod_def dest!: link_keeps net_keeps ARP_keeps [rotated] DHCP_keeps NameService_keeps [rotated] IPv4_keeps IPv6_keeps\<close>)

lemma decode_loop_keeps:
  assumes "\<And>i. i < length mods \<Longrightarrow> mod_event dec i \<in> E" "\<forall>a \<in> set mods. amod_events a \<subseteq> E"
    "decode_loop L ops dec m mods nxt pd p = Some (Inr (mods', pd', q))" "I p"
  shows "I q \<and> map amod_events mods' = map amod_events mods"
proof -
  have "decode_loop L ops dec m mods nxt pd p = Some r \<Longrightarrow> (\<forall>i < length mods. mod_event dec i \<in> E) \<longrightarrow> (\<forall>a \<in> set mods. amod_events a \<subseteq> E) \<longrightarrow> I p
      \<longrightarrow> (case r of Inl _ \<Rightarrow> True | Inr (mods', pd', q) \<Rightarrow> I q \<and> map amod_events mods' = map amod_events mods)" for r
  proof (erule decode_loop.raw_induct [rotated], goal_cases)
    case (1 f L ops dec m mods nxt pd p r)
    show ?case
    proof (cases r)
      case (Inr r')
      let ?p = "push_event (mod_event dec (nat nxt)) p"
      consider "r' = (mods, pd, p)" | nxt' a pd1 p1 where "nat nxt < length mods" "module_decode L ops m pd ?p (mods ! nat nxt) = Some (Inr (nxt', a, pd1, p1))"
          "f L ops dec m (mods[nat nxt := a]) nxt' pd1 p1 = Some r"
        using 1(2) Inr by (auto split: if_splits option.splits sum.splits prod.splits)
      then show ?thesis
      proof cases
        case 2
        show ?thesis
        proof (intro impI)
          assume h: "\<forall>i < length mods. mod_event dec i \<in> E" "\<forall>a \<in> set mods. amod_events a \<subseteq> E" "I p"
          have k: "(I ?p \<longrightarrow> I p1) \<and> amod_events a = amod_events (mods ! nat nxt)"
            by (rule module_decode_keeps [OF _ 2(2)]) (use h(2) 2(1) in simp)
          have "map amod_events (mods[nat nxt := a]) = map amod_events mods"
            using k by (simp add: map_update list_update_same_conv 2(1))
          moreover from this have "\<forall>b \<in> set (mods[nat nxt := a]). amod_events b \<subseteq> E"
            using h(2) by (metis (no_types, lifting) imageE image_eqI list.set_map)
          ultimately show "case r of Inl _ \<Rightarrow> True | Inr (mods', pd', q) \<Rightarrow> I q \<and> map amod_events mods' = map amod_events mods"
            using 1(1) [OF 2(3)] h k 2(1) inv_event [OF h(3)] by (auto split: sum.splits)
        qed
      qed (use Inr in simp)
    qed simp
  qed
  from this [OF assms(3)] assms(1,2,4) show ?thesis by simp
qed

end

subsection \<open>The modules after \<^verbatim>\<open>Decoder::init\<close>\<close>

lemma smap_inserts_map:
  "map (map_prod id f) (fold (\<lambda>(k, v). smap_insert k v) xs m) = fold (\<lambda>(k, v). smap_insert k v) (map (map_prod id f) xs) (map (map_prod id f) m)"
proof -
  have ins: "map (map_prod id f) (smap_insert k v m) = smap_insert k (f v) (map (map_prod id f) m)" for k v m
    by (induction m) auto
  show ?thesis
    by (induction xs arbitrary: m) (auto simp: ins)
qed

lemma build_module_map_list:
  assumes "build_module_map = Inr ms"
  obtains arp dns ipv4 ipv6 mdns tcp udp where "ARP_new = Inr arp" "DNS_new = Inr dns" "IPv4_new = Inr ipv4" "IPv6_new = Inr ipv6"
    "MDNS_new = Inr mdns" "TCP_new = Inr tcp" "UDP_new = Inr udp"
    "ms = [(''ARP'', arp), (''DHCP'', DHCP_new), (''DNS'', dns), (''Dot1Q'', Dot1Q_new), (''Ethernet'', Ethernet_new), (''ICMP'', ICMP_new),
      (''IPv4'', ipv4), (''IPv6'', ipv6), (''MDNS'', mdns), (''PPPoE'', PPPoE_new), (''TCP'', tcp), (''UDP'', udp)]"
proof -
  let ?ins = "fold (\<lambda>(name, m). smap_insert name m)"
  have ids: "?ins [(''Ethernet'', 0), (''Dot1Q'', 1), (''PPPoE'', 2), (''ARP'', 3), (''IPv4'', 4), (''IPv6'', 5), (''ICMP'', 6), (''UDP'', 7),
       (''TCP'', 8), (''DNS'', 9), (''MDNS'', 10), (''DHCP'', 11)] []
    = [(''ARP'', 3 :: nat), (''DHCP'', 11), (''DNS'', 9), (''Dot1Q'', 1), (''Ethernet'', 0), (''ICMP'', 6), (''IPv4'', 4), (''IPv6'', 5),
       (''MDNS'', 10), (''PPPoE'', 2), (''TCP'', 8), (''UDP'', 7)]"
    by code_simp
  have order: "?ins [(''Ethernet'', a), (''Dot1Q'', b), (''PPPoE'', c), (''ARP'', d), (''IPv4'', e), (''IPv6'', f), (''ICMP'', g), (''UDP'', h),
       (''TCP'', i), (''DNS'', j), (''MDNS'', k), (''DHCP'', l)] []
    = [(''ARP'', d), (''DHCP'', l), (''DNS'', j), (''Dot1Q'', b), (''Ethernet'', a), (''ICMP'', g), (''IPv4'', e), (''IPv6'', f),
       (''MDNS'', k), (''PPPoE'', c), (''TCP'', i), (''UDP'', h)]" for a b c d e f g h i j k l :: pmodule
    using arg_cong [OF ids, of "map (map_prod id (nth [a, b, c, d, e, f, g, h, i, j, k, l]))"]
    unfolding smap_inserts_map by (simp add: numeral_eq_Suc)
  from assms show thesis
    unfolding build_module_map_def order by (auto intro!: that)
qed

text \<open>What becomes of the map: names, definitions and ids.\<close>

abbreviation mod_src :: "pmodule \<Rightarrow> string \<times> (string, pdef) smap \<times> (string, cdef) smap" where
  "mod_src m \<equiv> (mo_name m, mo_param_map m, mo_config_map m)"

lemma add_modules_result:
  "add_modules ms dec = Inr dec' \<Longrightarrow>
     map mod_src (dc_modules dec') = map mod_src (dc_modules dec) @ map (\<lambda>(n, m). (n, mo_param_map m, mo_config_map m)) ms
     \<and> dc_mod_map dec' = fold (\<lambda>(n, i). smap_insert n i)
          (zip (map fst ms) (map int [length (dc_modules dec)..<length (dc_modules dec) + length ms])) (dc_mod_map dec)
     \<and> dc_mod_ethernet dec' = fold (\<lambda>(n, i) e. if n = ''Ethernet'' then i else e)
          (zip (map fst ms) (map int [length (dc_modules dec)..<length (dc_modules dec) + length ms])) (dc_mod_ethernet dec)"
proof (induction ms dec rule: add_modules.induct)
  case (2 name m ms dec)
  let ?n = "length (dc_modules dec)"
  obtain dec1 where d: "add_module name m dec = Inr dec1" "add_modules ms dec1 = Inr dec'"
    using 2(2) by auto
  have d1: "map mod_src (dc_modules dec1) = map mod_src (dc_modules dec) @ [(name, mo_param_map m, mo_config_map m)]"
    "dc_mod_map dec1 = smap_insert name (int ?n) (dc_mod_map dec)"
    "dc_mod_ethernet dec1 = (if name = ''Ethernet'' then int ?n else dc_mod_ethernet dec)"
    using d(1) by (auto simp: add_module_def Let_def define_event_def split: if_splits)
  have len: "length (dc_modules dec1) = Suc ?n"
    using arg_cong [OF d1(1), of length] by simp
  have upt: "[?n..<?n + length ((name, m) # ms)] = ?n # [Suc ?n..<Suc ?n + length ms]"
    by (simp add: upt_conv_Cons del: upt_Suc)
  show ?case
    using 2(1) [OF d(2)] unfolding upt d1 len by (simp del: upt_Suc)
qed simp

lemma add_params_maps: "add_params m ps dec = (ps', dec') \<Longrightarrow> dc_mod_map dec' = dc_mod_map dec \<and> dc_mod_ethernet dec' = dc_mod_ethernet dec"
proof (induction m ps dec arbitrary: ps' dec' rule: add_params.induct)
  case (2 m k d ps dec)
  obtain qs dec1 where "add_params m ps (add_param (param_finalize (mo_id m) (int (length (dc_params dec))) (mo_name m) d) dec) = (qs, dec1)"
    by fastforce
  with 2 show ?case by (auto simp: Let_def add_param_def)
qed simp

lemma add_events_maps: "add_events m es dec = (es', dec') \<Longrightarrow> dc_mod_map dec' = dc_mod_map dec \<and> dc_mod_ethernet dec' = dc_mod_ethernet dec"
proof (induction m es dec arbitrary: es' dec' rule: add_events.induct)
  case (2 m k d es dec)
  obtain qs dec1 where "add_events m es (add_event (event_finalize (mo_id m) (int (length (dc_events dec))) (mo_name m) k d) dec) = (qs, dec1)"
    by fastforce
  with 2 show ?case by (auto simp: Let_def add_event_def)
qed simp

lemma add_configs_maps:
  "add_configs m cs dec = (cs', dec') \<Longrightarrow> dc_mod_map dec' = dc_mod_map dec \<and> dc_mod_ethernet dec' = dc_mod_ethernet dec
     \<and> map fst cs' = map fst cs \<and> map snd cs' = map (config_finalize (mo_id m) (mo_name m) \<circ> snd) cs"
proof (induction m cs dec arbitrary: cs' dec' rule: add_configs.induct)
  case (2 m k d cs dec)
  let ?d = "config_finalize (mo_id m) (mo_name m) d"
  obtain qs dec1 where "add_configs m cs (dec\<lparr>dc_config_map := smap_insert (cd_name ?d) ?d (dc_config_map dec)\<rparr>) = (qs, dec1)"
    by fastforce
  with 2 show ?case by (auto simp: Let_def)
qed simp

lemma finalize_module_source:
  assumes "i < length (dc_modules dec)"
  shows "dc_mod_map (finalize_module i dec) = dc_mod_map dec" "dc_mod_ethernet (finalize_module i dec) = dc_mod_ethernet dec"
    "map mo_name (dc_modules (finalize_module i dec)) = map mo_name (dc_modules dec)"
    "map snd (mo_config_map (dc_modules (finalize_module i dec) ! i))
      = map (config_finalize (mo_id (dc_modules dec ! i)) (mo_name (dc_modules dec ! i)) \<circ> snd) (mo_config_map (dc_modules dec ! i))"
proof -
  let ?m = "dc_modules dec ! i"
  obtain ps dec1 where p: "add_params ?m (mo_param_map ?m) dec = (ps, dec1)" by fastforce
  obtain es dec2 where e: "add_events ?m (mo_event_map ?m) dec1 = (es, dec2)" by fastforce
  obtain cs dec3 where c: "add_configs ?m (mo_config_map ?m) dec2 = (cs, dec3)" by fastforce
  have fin: "finalize_module i dec =
      dec3\<lparr>dc_modules := (dc_modules dec3)[i := ?m\<lparr>mo_param_map := ps, mo_event_map := es, mo_config_map := cs\<rparr>]\<rparr>"
    using p e c by (simp add: finalize_module_def Let_def)
  have d3: "dc_modules dec3 = dc_modules dec" "dc_mod_map dec3 = dc_mod_map dec" "dc_mod_ethernet dec3 = dc_mod_ethernet dec"
    "map snd cs = map (config_finalize (mo_id ?m) (mo_name ?m) \<circ> snd) (mo_config_map ?m)"
    using add_params_result [OF p] add_events_frame [OF e] add_configs_frame [OF c]
      add_params_maps [OF p] add_events_maps [OF e] add_configs_maps [OF c] by simp_all
  then show "dc_mod_map (finalize_module i dec) = dc_mod_map dec" "dc_mod_ethernet (finalize_module i dec) = dc_mod_ethernet dec"
      "map mo_name (dc_modules (finalize_module i dec)) = map mo_name (dc_modules dec)"
      "map snd (mo_config_map (dc_modules (finalize_module i dec) ! i)) = map (config_finalize (mo_id ?m) (mo_name ?m) \<circ> snd) (mo_config_map ?m)"
    using assms list_update_id [of "map mo_name (dc_modules dec)" i] by (simp_all add: fin map_update)
qed

text \<open>The configuration definitions of module \<open>j\<close> after finalisation.\<close>

definition configured :: "decoder \<Rightarrow> (string, cdef) smap \<Rightarrow> nat \<Rightarrow> bool" where
  "configured dec cs0 j \<longleftrightarrow> (\<exists>mid. map snd (mo_config_map (dc_modules dec ! j))
     = map (config_finalize mid (mo_name (dc_modules dec ! j)) \<circ> snd) cs0)"

lemma finalize_modules_source:
  shows "dc_mod_map (finalize_modules dec) = dc_mod_map dec" "dc_mod_ethernet (finalize_modules dec) = dc_mod_ethernet dec"
    "map mo_name (dc_modules (finalize_modules dec)) = map mo_name (dc_modules dec)"
    "j < length (dc_modules dec) \<Longrightarrow> configured (finalize_modules dec) (mo_config_map (dc_modules dec ! j)) j"
proof -
  let ?f = "\<lambda>i. fold finalize_module [0..<i] dec"
  have inv: "dc_mod_map (?f i) = dc_mod_map dec \<and> dc_mod_ethernet (?f i) = dc_mod_ethernet dec \<and> map mo_name (dc_modules (?f i)) = map mo_name (dc_modules dec)
      \<and> (\<forall>l. i \<le> l \<longrightarrow> dc_modules (?f i) ! l = dc_modules dec ! l) \<and> (\<forall>l < i. configured (?f i) (mo_config_map (dc_modules dec ! l)) l)"
    if "i \<le> length (dc_modules dec)" for i
    using that
  proof (induction i)
    case (Suc i)
    let ?dec = "?f i"
    have len: "length (dc_modules ?dec) = length (dc_modules dec)"
      using Suc by (metis Suc_leD length_map)
    then have i: "i < length (dc_modules ?dec)" using Suc by simp
    have same: "dc_modules ?dec ! i = dc_modules dec ! i"
      using Suc by simp
    note src = finalize_module_source [OF i] and pl = finalize_module_placed [OF i]
    have names: "mo_name (dc_modules (finalize_module i ?dec) ! l) = mo_name (dc_modules ?dec ! l)" if "l < length (dc_modules ?dec)" for l
      using src(3) that pl(2) by (metis nth_map)
    have "configured (finalize_module i ?dec) (mo_config_map (dc_modules dec ! l)) l" if "l < Suc i" for l
    proof (cases "l = i")
      case True
      then show ?thesis
        using src(4) names [OF i] same by (auto simp: configured_def)
    next
      case False
      then have "configured ?dec (mo_config_map (dc_modules dec ! l)) l"
        using Suc that by simp
      then show ?thesis
        using pl(3) [OF False] by (simp add: configured_def)
    qed
    then show ?case
      using Suc src pl(3) by simp
  qed simp
  from inv [of "length (dc_modules dec)"]
  show "dc_mod_map (finalize_modules dec) = dc_mod_map dec" "dc_mod_ethernet (finalize_modules dec) = dc_mod_ethernet dec"
    "map mo_name (dc_modules (finalize_modules dec)) = map mo_name (dc_modules dec)"
    "j < length (dc_modules dec) \<Longrightarrow> configured (finalize_modules dec) (mo_config_map (dc_modules dec ! j)) j"
    by (simp_all add: finalize_modules_def)
qed

subsection \<open>Setup\<close>

abbreviation mod_names :: "string list" where
  "mod_names \<equiv> [''ARP'', ''DHCP'', ''DNS'', ''Dot1Q'', ''Ethernet'', ''ICMP'', ''IPv4'', ''IPv6'', ''MDNS'', ''PPPoE'', ''TCP'', ''UDP'']"

text \<open>The modules that a module looks up in its \<^verbatim>\<open>setup\<close>, and the rank.\<close>

definition mod_succs :: "string \<Rightarrow> string list" where
  "mod_succs name =
     (if name = ''Ethernet'' then [''IPv4'', ''ARP'', ''PPPoE'', ''Dot1Q'']
      else if name = ''Dot1Q'' then [''IPv4'', ''ARP'', ''PPPoE'']
      else if name = ''PPPoE'' then [''IPv4'']
      else if name = ''IPv4'' then [''TCP'', ''UDP'', ''ICMP'']
      else if name = ''IPv6'' then [''TCP'', ''UDP'']
      else if name = ''UDP'' then [''DNS'', ''MDNS'', ''DHCP'']
      else [])"

definition name_rank :: "string \<Rightarrow> nat" where
  "name_rank name =
     (if name = ''Ethernet'' then 5 else if name = ''Dot1Q'' then 4 else if name = ''PPPoE'' then 3
      else if name = ''IPv4'' \<or> name = ''IPv6'' then 2 else if name = ''UDP'' then 1 else 0)"

definition std_rank :: "nat \<Rightarrow> nat" where
  "std_rank i = name_rank (mod_names ! i)"

text \<open>The conditions on the definitions of a module, by its name.\<close>

definition class_ok :: "(nat \<Rightarrow> string) \<Rightarrow> pmodule \<Rightarrow> bool" where
  "class_ok D m \<longleftrightarrow>
     (mo_name m = ''ARP'' \<longrightarrow> mod_ready D arp_params m) \<and> (mo_name m = ''DHCP'' \<longrightarrow> dhcp_ready D m)
     \<and> (mo_name m \<in> {''DNS'', ''MDNS''} \<longrightarrow> ns_ready D m) \<and> (mo_name m = ''Dot1Q'' \<longrightarrow> mod_ready D dot1q_params m)
     \<and> (mo_name m = ''Ethernet'' \<longrightarrow> mod_ready D ether_params m) \<and> (mo_name m = ''ICMP'' \<longrightarrow> icmp_ready D m)
     \<and> (mo_name m = ''IPv4'' \<longrightarrow> mod_ready D ipv4_params m) \<and> (mo_name m = ''PPPoE'' \<longrightarrow> mod_ready D pppoe_params m)
     \<and> (mo_name m = ''TCP'' \<longrightarrow> mod_ready D tcp_params m) \<and> (mo_name m = ''UDP'' \<longrightarrow> mod_ready D udp_params m)"

lemma mod_ready_extend: "mod_ready D names (pmodule.extend m x) = mod_ready D names m"
  by (simp add: mod_ready_def mod_param_def pmodule.defs)

lemma TCP_setup_table:
  assumes "lru_laws L ins outs" "TCP_setup L config m = Inr t"
  shows "table_ok ins outs t" "mod_ready D names t = mod_ready D names m"
  using assms(2) lru_lawsD(1,2) [OF assms(1)] by (auto simp: TCP_setup_def table_ok_def mod_ready_extend) (auto simp: pmodule.defs)

lemma module_setup_class:
  assumes "module_setup L lookup config m = Inr a"
  shows "case a of MARP b \<Rightarrow> b = m \<and> mo_name m = ''ARP'' | MDHCP b \<Rightarrow> b = m \<and> mo_name m = ''DHCP'' | MDNS b \<Rightarrow> b = m \<and> mo_name m = ''DNS''
    | MDot1Q b \<Rightarrow> b = Dot1Q_setup lookup m \<and> mo_name m = ''Dot1Q'' | MEthernet b \<Rightarrow> b = Ethernet_setup lookup m \<and> mo_name m = ''Ethernet''
    | MICMP b \<Rightarrow> b = m \<and> mo_name m = ''ICMP'' | MIPv4 b \<Rightarrow> b = IPv4_setup lookup m \<and> mo_name m = ''IPv4''
    | MIPv6 b \<Rightarrow> b = IPv6_setup lookup m \<and> mo_name m = ''IPv6'' | MMDNS b \<Rightarrow> b = m \<and> mo_name m = ''MDNS''
    | MPPPoE b \<Rightarrow> b = PPPoE_setup lookup m \<and> mo_name m = ''PPPoE'' | MTCP b \<Rightarrow> TCP_setup L config m = Inr b \<and> mo_name m = ''TCP''
    | MUDP b \<Rightarrow> b = UDP_setup lookup m \<and> mo_name m = ''UDP''"
  using assms unfolding module_setup_def Let_def by (simp split: if_split_asm) auto

lemma module_setup_ready:
  assumes "lru_laws L ins outs" "class_ok D m" "module_setup L lookup config m = Inr a"
  shows "amod_ready ins outs D a"
proof (cases a)
  case (MTCP t)
  then show ?thesis
    using module_setup_class [OF assms(3)] assms(2) TCP_setup_table [OF assms(1), of config m t] by (simp add: class_ok_def)
qed (use module_setup_class [OF assms(3)] assms(2) in
    \<open>simp_all add: class_ok_def mod_ready_extend Ethernet_setup_def Dot1Q_setup_def PPPoE_setup_def IPv4_setup_def UDP_setup_def\<close>)

lemma module_setup_nexts:
  assumes "module_setup L lookup config m = Inr a" "n \<in> amod_nexts a"
  shows "n \<in> lookup ` set (mod_succs (mo_name m))"
  by (cases a) (use module_setup_class [OF assms(1)] assms(2) in
    \<open>auto simp: mod_succs_def Ethernet_setup_def Dot1Q_setup_def PPPoE_setup_def IPv4_setup_def IPv6_setup_def
      UDP_setup_def Ethernet_nexts_def Dot1Q_nexts_def UDP_nexts_def pmodule.defs\<close>)

lemma setup_modules_all:
  assumes "setup_modules L lookup cs ms = Inr as" "length cs = length ms"
  shows "length as = length ms \<and> (\<forall>i < length ms. module_setup L lookup (cs ! i) (ms ! i) = Inr (as ! i))"
  using assms
proof (induction ms arbitrary: cs as)
  case (Cons m ms)
  then obtain c cs' a as' where c: "cs = c # cs'" "as = a # as'" "module_setup L lookup c m = Inr a" "setup_modules L lookup cs' ms = Inr as'"
    by (cases cs) auto
  then show ?case
    using Cons.IH [of cs' as'] Cons.prems(2) by (auto simp: less_Suc_eq_0_disj)
qed simp

text \<open>What the constructors define.\<close>

definition src_ok :: "string list \<Rightarrow> (string, pdef) smap \<Rightarrow> bool" where
  "src_ok names ps \<longleftrightarrow> distinct names \<and> list_all (\<lambda>n. n \<in> set (map fst ps)) names \<and> list_all (\<lambda>e. cls_wf (df_cons (snd e))) ps"

abbreviation cons_of :: "(string, pdef) smap \<Rightarrow> string \<Rightarrow> vclass option" where
  "cons_of ps n \<equiv> map_option df_cons (map_of ps n)"

abbreviation ns_src :: "(string, pdef) smap \<Rightarrow> bool" where
  "ns_src ps \<equiv> src_ok ns_params ps \<and> list_all (\<lambda>s. cons_of ps s = Some (VArray [])) ns_sections
     \<and> cons_of ps ''records'' = Some NSRecord_new \<and> cons_of ps ''name'' = Some (VNSName None)
     \<and> cons_of ps ''data'' = Some (VNSData None) \<and> cons_of ps ''type'' = Some VNSType"

lemma link_src:
  "src_ok ether_params (mo_param_map Ethernet_new)" "src_ok dot1q_params (mo_param_map Dot1Q_new)"
  "src_ok pppoe_params (mo_param_map PPPoE_new)"
  "case ARP_new of Inr m \<Rightarrow> src_ok arp_params (mo_param_map m) | Inl _ \<Rightarrow> False"
  by code_simp+

lemma net_src:
  "case IPv4_new of Inr m \<Rightarrow> src_ok ipv4_params (mo_param_map m) | Inl _ \<Rightarrow> False"
  "src_ok icmp_params (mo_param_map ICMP_new) \<and> map_option class_name (cons_of (mo_param_map ICMP_new) ''code'') = Some ''IcmpCode''"
  "case UDP_new of Inr m \<Rightarrow> src_ok udp_params (mo_param_map m) | Inl _ \<Rightarrow> False"
  "case TCP_new of Inr m \<Rightarrow> src_ok tcp_params (mo_param_map m) | Inl _ \<Rightarrow> False"
  by code_simp+

lemma app_src:
  "src_ok dhcp_params (mo_param_map DHCP_new) \<and> cons_of (mo_param_map DHCP_new) ''options'' = Some (VArray [])
     \<and> map_option class_name (cons_of (mo_param_map DHCP_new) ''_option'') = Some ''DhcpOption''"
  "case DNS_new of Inr m \<Rightarrow> ns_src (mo_param_map m) | Inl _ \<Rightarrow> False"
  by code_simp+

lemma placed_src: "placed dec ps j \<Longrightarrow> src_ok names ps \<Longrightarrow> mod_ready (table_class dec) names (dc_modules dec ! j)"
  by (rule placed_ready) (auto simp: src_ok_def list_all_iff)

lemma placed_cons:
  assumes "placed dec ps j" "cons_of ps n = Some c"
  shows "df_cons (mod_param (dc_modules dec ! j) n) = c"
  using assms(2) placed_class [OF assms(1), of n] by auto

lemma placed_table:
  assumes "placed dec ps j" "src_ok names ps" "n \<in> set names" "map_option class_name (cons_of ps n) = Some c"
  shows "table_class dec (pid_of (dc_modules dec ! j) n) = c"
proof -
  have "def_typed (table_class dec) (mod_param (dc_modules dec ! j) n)"
    using placed_src [OF assms(1,2)] assms(3) by (simp add: mod_ready_def)
  moreover obtain k where "cons_of ps n = Some k" "class_name k = c"
    using assms(4) by auto
  ultimately show ?thesis
    using placed_cons [OF assms(1)] by (simp add: def_typed_def is_a_def pid_of_def)
qed

lemma placed_ns: "placed dec ps j \<Longrightarrow> ns_src ps \<Longrightarrow> ns_ready (table_class dec) (dc_modules dec ! j)"
  using placed_src [of dec ps j ns_params] placed_cons [of dec ps j] by (simp add: ns_ready_def list_all_iff)

lemma add_modules_std:
  assumes "build_module_map = Inr ms" "add_modules ms Decoder_new = Inr dec0"
  shows "map mo_name (dc_modules dec0) = mod_names" "dc_mod_ethernet dec0 = 4"
    "dc_mod_map dec0 = fold (\<lambda>(n, i). smap_insert n i) (zip mod_names [0, 1, 2, 3, 4, 5, 6, 7, 8, 9, 10, 11]) []"
    "\<And>i. i < 12 \<Longrightarrow> mo_param_map (dc_modules dec0 ! i) = mo_param_map (snd (ms ! i))"
    "\<And>i. i < 12 \<Longrightarrow> mo_config_map (dc_modules dec0 ! i) = mo_config_map (snd (ms ! i))"
proof -
  have ms: "length ms = 12" "map fst ms = mod_names"
    by (rule build_module_map_list [OF assms(1)], simp)+
  note res = add_modules_result [OF assms(2), unfolded ms]
  have ids: "map int [length (dc_modules Decoder_new)..<length (dc_modules Decoder_new) + 12] = [0, 1, 2, 3, 4, 5, 6, 7, 8, 9, 10, 11]"
    by code_simp
  have src: "map mod_src (dc_modules dec0) = map (\<lambda>(n, m). (n, mo_param_map m, mo_config_map m)) ms"
    using res by (simp add: Decoder_new_def)
  have len: "length (dc_modules dec0) = 12"
    using arg_cong [OF src, of length] ms(1) by simp
  show "mo_param_map (dc_modules dec0 ! i) = mo_param_map (snd (ms ! i))" "mo_config_map (dc_modules dec0 ! i) = mo_config_map (snd (ms ! i))"
    if "i < 12" for i
    using arg_cong [OF src, of "\<lambda>xs. xs ! i"] that len ms(1) by (simp_all add: case_prod_unfold)
  show "map mo_name (dc_modules dec0) = mod_names"
    using arg_cong [OF src, of "map fst"] ms(2) by (simp add: comp_def case_prod_unfold)
  have "dc_mod_ethernet Decoder_new = -1" "dc_mod_map Decoder_new = []"
    by (simp_all add: Decoder_new_def Module_NONE_def)
  then show "dc_mod_map dec0 = fold (\<lambda>(n, i). smap_insert n i) (zip mod_names [0, 1, 2, 3, 4, 5, 6, 7, 8, 9, 10, 11]) []"
      "dc_mod_ethernet dec0 = 4"
    using res unfolding ids by simp_all
qed

lemma decoder_init_modules:
  assumes "build_module_map = Inr ms" "decoder_init config ms = Inr (dec, confs)"
  shows "map mo_name (dc_modules dec) = mod_names" "dc_mod_ethernet dec = 4" "\<And>i. i < 12 \<Longrightarrow> lookup_module dec (mod_names ! i) = int i"
    "\<And>i. i < 12 \<Longrightarrow> placed dec (mo_param_map (snd (ms ! i))) i" "\<And>i. i < 12 \<Longrightarrow> configured dec (mo_config_map (snd (ms ! i))) i"
    "confs = map (local_config config) (dc_modules dec)"
proof -
  obtain dec0 where d0: "add_modules ms Decoder_new = Inr dec0" "dec = (finalize_modules dec0)\<lparr>dc_initialized := True\<rparr>"
      "confs = map (local_config config) (dc_modules dec)"
    using assms(2) by (auto simp: decoder_init_def Let_def split: if_splits)
  note std = add_modules_std [OF assms(1) d0(1)]
  have len: "length (dc_modules dec0) = 12"
    using arg_cong [OF std(1), of length] by simp
  show "map mo_name (dc_modules dec) = mod_names" "dc_mod_ethernet dec = 4"
    using finalize_modules_source(2,3) [of dec0] std(1,2) by (simp_all add: d0(2))
  have "list_all (\<lambda>i. smap_find (fold (\<lambda>(n, i). smap_insert n i) (zip mod_names [0, 1, 2, 3, 4, 5, 6, 7, 8, 9, 10, 11]) []) (mod_names ! i) = Some (int i)) [0..<12]"
    by code_simp
  then show "lookup_module dec (mod_names ! i) = int i" if "i < 12" for i
    using that finalize_modules_source(1) [of dec0] std(3) by (simp only: list_all_iff set_upt lookup_module_def d0(2)) simp
  show "placed dec (mo_param_map (snd (ms ! i))) i" if "i < 12" for i
    using finalize_modules_placed [of i dec0] that len std(4) [OF that] by (simp add: placed_def d0(2) Let_def)
  show "configured dec (mo_config_map (snd (ms ! i))) i" if "i < 12" for i
    using finalize_modules_source(4) [of i dec0] that len std(5) [OF that] by (simp add: configured_def d0(2))
  show "confs = map (local_config config) (dc_modules dec)"
    by (rule d0(3))
qed

lemma MDNS_eq_DNS: "MDNS_new = DNS_new"
  by (simp only: DNS_new_def MDNS_new_def NameService_new_def)

lemma decoder_init_classes:
  assumes "build_module_map = Inr ms" "decoder_init config ms = Inr (dec, confs)" "i < 12"
  shows "class_ok (table_class dec) (dc_modules dec ! i)"
proof -
  note mods = decoder_init_modules [OF assms(1,2)]
  have name: "mo_name (dc_modules dec ! i) = mod_names ! i"
    using arg_cong [OF mods(1), of "\<lambda>xs. xs ! i"] arg_cong [OF mods(1), of length] assms(3) by simp
  note pl = mods(4) [OF assms(3)]
  obtain arp dns ipv4 ipv6 mdns tcp udp where ms: "ARP_new = Inr arp" "DNS_new = Inr dns" "IPv4_new = Inr ipv4" "IPv6_new = Inr ipv6"
      "MDNS_new = Inr mdns" "TCP_new = Inr tcp" "UDP_new = Inr udp"
      "ms = [(''ARP'', arp), (''DHCP'', DHCP_new), (''DNS'', dns), (''Dot1Q'', Dot1Q_new), (''Ethernet'', Ethernet_new), (''ICMP'', ICMP_new),
        (''IPv4'', ipv4), (''IPv6'', ipv6), (''MDNS'', mdns), (''PPPoE'', PPPoE_new), (''TCP'', tcp), (''UDP'', udp)]"
    by (rule build_module_map_list [OF assms(1)])
  have mdns: "mdns = dns"
    using ms(5) [unfolded MDNS_eq_DNS ms(2)] by simp
  note src = link_src(1-3) link_src(4) [unfolded ms(1) sum.case] net_src(1) [unfolded ms(3) sum.case] net_src(3) [unfolded ms(7) sum.case]
    net_src(4) [unfolded ms(6) sum.case] app_src(2) [unfolded ms(2) sum.case] app_src(2) [unfolded ms(2) sum.case, folded mdns]
  have "i = 0 \<or> i = 1 \<or> i = 2 \<or> i = 3 \<or> i = 4 \<or> i = 5 \<or> i = 6 \<or> i = 7 \<or> i = 8 \<or> i = 9 \<or> i = 10 \<or> i = 11"
    using assms(3) by presburger
  then consider "i = 0" | "i = 1" | "i = 2" | "i = 3" | "i = 4" | "i = 5" | "i = 6" | "i = 7" | "i = 8" | "i = 9" | "i = 10" | "i = 11"
    by blast
  then show ?thesis
  proof cases
    case 2
    then show ?thesis
      using name pl app_src(1) placed_src [OF pl] placed_cons [OF pl, of "''options''"] placed_table [OF pl, of dhcp_params "''_option''"]
      by (simp add: class_ok_def ms(8) dhcp_ready_def)
  next
    case 6
    then show ?thesis
      using name pl net_src(2) placed_src [OF pl] placed_table [OF pl, of icmp_params "''code''"] by (simp add: class_ok_def ms(8) icmp_ready_def)
  qed (use name pl placed_src [OF pl] placed_ns [OF pl] src in \<open>simp_all add: class_ok_def ms(8)\<close>)
qed

lemma mod_succs_rank:
  "list_all (\<lambda>i. list_all (\<lambda>s. list_ex (\<lambda>j. mod_names ! j = s \<and> std_rank j < std_rank i) [0..<12]) (mod_succs (mod_names ! i))) [0..<12]"
  by code_simp

lemma Decoder_make_ok:
  assumes laws: "lru_laws L ins outs" and make: "Decoder_make L config = Inr (dec, mods)"
  shows "mods_ok ins outs (table_class dec) std_rank mods" "length mods = 12" "dc_mod_ethernet dec = 4"
    "map mo_name (dc_modules dec) = mod_names"
proof -
  obtain ms confs where m: "build_module_map = Inr ms" "decoder_init config ms = Inr (dec, confs)"
      "setup_modules L (lookup_module dec) confs (dc_modules dec) = Inr mods"
    using make by (auto simp: Decoder_make_def)
  note init = decoder_init_modules [OF m(1,2)]
  have len: "length (dc_modules dec) = 12"
    using arg_cong [OF init(1), of length] by simp
  have set: "length mods = 12" "\<And>i. i < 12 \<Longrightarrow> module_setup L (lookup_module dec) (confs ! i) (dc_modules dec ! i) = Inr (mods ! i)"
    using setup_modules_all [OF m(3)] len init(6) by simp_all
  have ready: "amod_ready ins outs (table_class dec) (mods ! i)" if "i < 12" for i
    using module_setup_ready [OF laws decoder_init_classes [OF m(1,2) that] set(2) [OF that]] .
  have "ranked std_rank mods"
    unfolding ranked_def set(1)
  proof (intro allI impI ballI)
    fix i n assume h: "i < 12" "n \<in> amod_nexts (mods ! i)"
    have name: "mo_name (dc_modules dec ! i) = mod_names ! i"
      using arg_cong [OF init(1), of "\<lambda>xs. xs ! i"] len h(1) by simp
    obtain s where s: "s \<in> set (mod_succs (mod_names ! i))" "n = lookup_module dec s"
      using module_setup_nexts [OF set(2) [OF h(1)] h(2)] by (auto simp only: name image_iff)
    have "list_all (\<lambda>s. list_ex (\<lambda>j. mod_names ! j = s \<and> std_rank j < std_rank i) [0..<12]) (mod_succs (mod_names ! i))"
      using mod_succs_rank h(1) by (simp only: list_all_iff set_upt atLeastLessThan_iff) simp
    then have "list_ex (\<lambda>j. mod_names ! j = s \<and> std_rank j < std_rank i) [0..<12]"
      using s(1) unfolding list_all_iff by blast
    then obtain j where j: "j < 12" "mod_names ! j = s" "std_rank j < std_rank i"
      unfolding list_ex_iff set_upt by (metis atLeastLessThan_iff)
    show "n = Module_NONE \<or> 0 \<le> n \<and> nat n < 12 \<and> std_rank (nat n) < std_rank i"
      using init(3) [OF j(1)] unfolding j(2) s(2) using j(1,3) by simp
  qed
  then show "mods_ok ins outs (table_class dec) std_rank mods"
    using ready set(1) by (simp add: mods_ok_def list_all_length)
  show "length mods = 12" "dc_mod_ethernet dec = 4" "map mo_name (dc_modules dec) = mod_names"
    by (fact set(1) init(2) init(1))+
qed

subsection \<open>Properties\<close>

text \<open>A property between two packets.\<close>

definition idle_ok :: "(nat \<Rightarrow> string) \<Rightarrow> 'b buffer_ops \<Rightarrow> 'b property \<Rightarrow> bool" where
  "idle_ok D ops p \<longleftrightarrow> (\<forall>pkt. property_ok D (property_init pkt p) \<and> addr_ok ops (property_init pkt p))"

lemma property_ok_idle: "property_ok D p \<Longrightarrow> addr_ok ops p \<Longrightarrow> idle_ok D ops p"
  by (simp add: idle_ok_def property_ok_def property_init_wf addr_ok_def) (simp add: property_init_def typed_def)

lemma Property_new_idle: "idle_ok D ops (Property_new ops i0 s0 d0)"
  by (simp add: idle_ok_def property_ok_def Property_new_wf typed_new addr_ok_def) (simp add: property_init_def Property_new_def)

lemma decode_packets_returns:
  assumes laws: "lru_laws L ins outs" "buffer_laws ops" and eth: "dc_mod_ethernet dec = 4"
  shows "mods_ok ins outs D rank mods \<Longrightarrow> length mods = 12 \<Longrightarrow> idle_ok D ops p \<Longrightarrow> list_all (\<lambda>(pkt, m). pk_len pkt = length (m_pkt m)) pkts \<Longrightarrow>
    \<exists>mods' pd' p'. decode_packets L ops dec pkts mods pd p = Some (Inr (mods', pd', p'))
      \<and> mods_ok ins outs D rank mods' \<and> kept_mods mods mods' \<and> idle_ok D ops p'"
proof (induction pkts arbitrary: mods pd p)
  case (Cons x pkts)
  obtain pkt m where x: "x = (pkt, m)" by (cases x)
  have pd: "payload_inv (length (m_pkt m)) (payload_reset pkt pd)"
    using payload_reset_inv [of pkt pd] Cons.prems(4) by (simp add: x)
  have p: "property_ok D (property_init pkt p)" "addr_ok ops (property_init pkt p)"
    using Cons.prems(3) by (simp_all add: idle_ok_def)
  obtain mods1 pd1 p1 where d: "decode_loop L ops dec m mods 4 (payload_reset pkt pd) (property_init pkt p) = Some (Inr (mods1, pd1, p1))"
      "mods_ok ins outs D rank mods1" "kept_mods mods mods1" "property_ok D p1" "addr_ok ops p1"
    using decode_loop_returns [OF laws Cons.prems(1) pd p, of 4 dec] Cons.prems(2) by (auto simp: advance_def)
  have len: "length mods1 = 12"
    using d(3) Cons.prems(2) by (simp add: kept_mods_def)
  show ?case
    using d(1) Cons.IH [OF d(2) len property_ok_idle [OF d(4,5)], of pd1] kept_mods_trans [OF d(3)] Cons.prems(4)
    by (auto simp: x Decoder_decode_def eth)
qed (simp add: kept_mods_def)

text \<open>
  C3: The decoder is total. Whatever the configuration it was constructed with, for every sequence of packets of any contents \<^verbatim>\<open>decode\<close>
  comes to an end and raises nothing, no read outside the packet included, and the session table stays in step with the sessions.
\<close>

theorem decoder_total:
  assumes "lru_laws L ins outs" "buffer_laws ops" "Decoder_make L config = Inr (dec, mods)"
    and "list_all (\<lambda>(pkt, m). pk_len pkt = length (m_pkt m)) pkts"
  shows "\<exists>mods' pd' p'. decode_packets L ops dec pkts mods pd (Property_new ops i0 s0 d0) = Some (Inr (mods', pd', p'))
    \<and> list_all (amod_ready ins outs (table_class dec)) mods'"
proof -
  note ok = Decoder_make_ok [OF assms(1,3)]
  show ?thesis
    using decode_packets_returns [OF assms(1,2) ok(3,1,2) Property_new_idle assms(4)] by (fastforce simp: mods_ok_def)
qed

text \<open>The decoder with the default configuration.\<close>

lemma add_modules_returns:
  "list_all (\<lambda>(n, m). smap_find (mo_event_map m) [] = None) ms \<Longrightarrow> \<exists>dec'. add_modules ms dec = Inr dec'"
  by (induction ms dec rule: add_modules.induct) (auto simp: add_module_def define_event_def Let_def)

lemma no_module_events:
  "smap_find (mo_event_map Ethernet_new) [] = None" "smap_find (mo_event_map Dot1Q_new) [] = None"
  "smap_find (mo_event_map PPPoE_new) [] = None" "smap_find (mo_event_map ICMP_new) [] = None" "smap_find (mo_event_map DHCP_new) [] = None"
  "list_all (\<lambda>r. case r of Inr m \<Rightarrow> smap_find (mo_event_map m) [] = None | Inl _ \<Rightarrow> False) [ARP_new, IPv4_new, IPv6_new, UDP_new, TCP_new, DNS_new]"
  by code_simp+

lemma tcp_default_config:
  "case TCP_new of Inr m \<Rightarrow> (let c = fold (local_config_step []) (map snd (mo_config_map m)) [] in
     bind_res (config_get ''session_table_size'' c) as_int = Inr 65521 \<and> bind_res (config_get ''enable_session_mgmt'' c) as_bool = Inr True
     \<and> bind_res (config_get ''session_timeout'' c) as_int = Inr 300) | Inl _ \<Rightarrow> False"
  by code_simp

lemma local_config_default: "configured dec cs j \<Longrightarrow> local_config [] (dc_modules dec ! j) = fold (local_config_step []) (map snd cs) []"
proof -
  have fin: "local_config_step [] (config_finalize mid pre d) = local_config_step [] d" for mid pre d
    by (simp add: local_config_step_def config_finalize_def fun_eq_iff smap_find_def cong: option.case_cong)
  assume "configured dec cs j"
  then obtain mid pre where "map snd (mo_config_map (dc_modules dec ! j)) = map (config_finalize mid pre \<circ> snd) cs"
    by (auto simp: configured_def)
  then show ?thesis
    by (simp add: local_config_def fold_map comp_def fin)
qed

lemma module_setup_returns:
  assumes "mo_name m \<in> set mod_names" "mo_name m = ''TCP'' \<Longrightarrow> \<exists>t :: ('t, 'b) tcp. TCP_setup L config m = Inr t"
  shows "\<exists>a :: ('t, 'b) amod. module_setup L lookup config m = Inr a"
  using assms by (simp add: module_setup_def Let_def) (elim disjE; simp)

lemma setup_modules_returns:
  assumes "\<And>i. i < length ms \<Longrightarrow> \<exists>a :: ('t, 'b) amod. module_setup L lookup (cs ! i) (ms ! i) = Inr a" "length cs = length ms"
  shows "\<exists>as :: ('t, 'b) amod list. setup_modules L lookup cs ms = Inr as"
  using assms
proof (induction ms arbitrary: cs)
  case (Cons m ms)
  then obtain c cs' where cs: "cs = c # cs'" by (cases cs) auto
  obtain a :: "('t, 'b) amod" where a: "module_setup L lookup c m = Inr a"
    using Cons.prems(1) [of 0] cs by auto
  have "\<exists>a :: ('t, 'b) amod. module_setup L lookup (cs' ! i) (ms ! i) = Inr a" if "i < length ms" for i
    using Cons.prems(1) [of "Suc i"] that cs by simp
  with Cons.IH [of cs'] Cons.prems(2) cs a show ?case by auto
qed (auto simp: setup_modules.simps)

lemma Decoder_make_default: "\<exists>dec mods. Decoder_make L [] = Inr (dec, mods :: ('t, 'b) amod list)"
proof -
  obtain ms where ms: "build_module_map = Inr ms" "list_all (\<lambda>(n, m). smap_find (mo_event_map m) [] = None) ms" "\<exists>tcp. TCP_new = Inr tcp \<and> snd (ms ! 10) = tcp"
  proof -
    have inr: "\<exists>m. r = Inr m \<and> smap_find (mo_event_map m) [] = None" if "r \<in> set [ARP_new, IPv4_new, IPv6_new, UDP_new, TCP_new, DNS_new]" for r
      using bspec [OF no_module_events(6) [unfolded list_all_iff] that] by (cases r) auto
    obtain arp ipv4 ipv6 udp tcp dns where n: "ARP_new = Inr arp" "IPv4_new = Inr ipv4" "IPv6_new = Inr ipv6" "UDP_new = Inr udp" "TCP_new = Inr tcp"
        "DNS_new = Inr dns" "list_all (\<lambda>m. smap_find (mo_event_map m) [] = None) [arp, ipv4, ipv6, udp, tcp, dns]"
      using inr [of ARP_new] inr [of IPv4_new] inr [of IPv6_new] inr [of UDP_new] inr [of TCP_new] inr [of DNS_new] by auto
    obtain ms where m: "build_module_map = Inr ms"
      unfolding build_module_map_def MDNS_eq_DNS n by simp
    show thesis
    proof (rule build_module_map_list [OF m], rule that [OF m], goal_cases)
      case (1 arp' dns' ipv4' ipv6' mdns tcp' udp')
      note eqs = 1(1-7) [unfolded MDNS_eq_DNS n sum.inject]
      show ?case
        unfolding 1(8) eqs [symmetric] using n(7) no_module_events(1-5) by simp
    qed auto
  qed
  obtain dec0 where d0: "add_modules ms Decoder_new = Inr dec0"
    using add_modules_returns [OF ms(2)] by blast
  have "dc_mod_ethernet (finalize_modules dec0) \<noteq> Module_NONE"
    using add_modules_std(2) [OF ms(1) d0] finalize_modules_source(2) [of dec0] by (simp add: Module_NONE_def)
  then obtain dec confs where init: "decoder_init [] ms = Inr (dec, confs)"
    using d0 by (auto simp: decoder_init_def Let_def)
  note mods = decoder_init_modules [OF ms(1) init]
  have len: "length (dc_modules dec) = 12"
    using arg_cong [OF mods(1), of length] by simp
  have "\<exists>a :: ('t, 'b) amod. module_setup L (lookup_module dec) (confs ! i) (dc_modules dec ! i) = Inr a" if "i < length (dc_modules dec)" for i
  proof (rule module_setup_returns)
    have name: "mo_name (dc_modules dec ! i) = mod_names ! i"
      using arg_cong [OF mods(1), of "\<lambda>xs. xs ! i"] that by simp
    then show "mo_name (dc_modules dec ! i) \<in> set mod_names"
      using that len by (metis length_map mods(1) nth_mem)
    assume "mo_name (dc_modules dec ! i) = ''TCP''"
    moreover have "list_all (\<lambda>i. mod_names ! i = ''TCP'' \<longrightarrow> i = 10) [0..<12]"
      by code_simp
    ultimately have i: "i = 10"
      using name that len by (simp add: list_all_iff)
    have "confs ! i = fold (local_config_step []) (map snd (mo_config_map (snd (ms ! 10)))) []"
      using local_config_default [OF mods(5) [of 10]] mods(6) that i by simp
    moreover obtain tcp where tcp: "TCP_new = Inr tcp" "snd (ms ! 10) = tcp"
      using ms(3) by blast
    moreover note tcp_default_config [unfolded tcp(1) sum.case Let_def]
    ultimately show "\<exists>t :: ('t, 'b) tcp. TCP_setup L (confs ! i) (dc_modules dec ! i) = Inr t"
      by (simp add: TCP_setup_def) blast
  qed
  from setup_modules_returns [OF this] mods(6) show ?thesis
    using ms(1) init by (auto simp: Decoder_make_def)
qed

text \<open>A frame with a DNS query, twice, through the default decoder.\<close>

definition demo_dns_frame :: "byte list" where
  "demo_dns_frame = [1, 2, 3, 4, 5, 6, 7, 8, 9, 10, 11, 12, 0x08, 0] @ [0x45, 0, 0, 40, 0, 1, 0, 0, 64, 17, 0, 0, 10, 0, 0, 1, 10, 0, 0, 2]
     @ [0x30, 0x39, 0, 53, 0, 20, 0, 0] @ [0xAB, 0xCD, 1, 0, 0, 0, 0, 0, 0, 0, 0, 0]"

theorem decoder_total_witness:
  "\<exists>dec mods mods' pd' p'. Decoder_make list_lru [] = Inr (dec, mods)
     \<and> decode_packets list_lru list_buffer dec [((Packet_new 0 0 \<lparr>tv_sec = 0, tv_usec = 0\<rparr>)\<lparr>pk_len := 54\<rparr>, demo_mem demo_dns_frame),
         ((Packet_new 0 0 \<lparr>tv_sec = 1, tv_usec = 0\<rparr>)\<lparr>pk_len := 54\<rparr>, demo_mem demo_dns_frame)] mods (demo_pd []) (Property_new list_buffer 0 0 0)
       = Some (Inr (mods', pd', p'))"
proof -
  obtain dec and mods :: "(list_lru, byte list) amod list" where m: "Decoder_make list_lru [] = Inr (dec, mods)"
    using Decoder_make_default by blast
  have "length demo_dns_frame = 54" by code_simp
  then show ?thesis
    using m decoder_total [OF list_lru_laws list_buffer_laws m, of "[((Packet_new 0 0 \<lparr>tv_sec = 0, tv_usec = 0\<rparr>)\<lparr>pk_len := 54\<rparr>, demo_mem demo_dns_frame),
         ((Packet_new 0 0 \<lparr>tv_sec = 1, tv_usec = 0\<rparr>)\<lparr>pk_len := 54\<rparr>, demo_mem demo_dns_frame)]" "demo_pd []" 0 0 0] by auto
qed

lemma class_name_ne: "class_name c \<noteq> []"
  by (cases c) simp_all

text \<open>
  C7: Type safety of the values. After any sequence of packets, every object in the tables of the property has the class that the
  definition of its parameter constructs, so that what a module or a handler gets for a parameter can be cast to that class.
\<close>

theorem decoder_types:
  assumes "lru_laws L ins outs" "buffer_laws ops" "Decoder_make L config = Inr (dec, mods)"
    and "list_all (\<lambda>(pkt, m). pk_len pkt = length (m_pkt m)) pkts"
  shows "\<exists>mods' pd' p'. decode_packets L ops dec pkts mods pd (Property_new ops i0 s0 d0) = Some (Inr (mods', pd', p'))
    \<and> (\<forall>pid < length (pr_param p'). \<forall>v \<in> set (pr_param p' ! pid).
         pid < length (dc_params dec) \<and> class_name (v_cls v) = class_name (df_cons (dc_params dec ! pid)))"
proof -
  note ok = Decoder_make_ok [OF assms(1,3)]
  obtain mods' pd' p' where r: "decode_packets L ops dec pkts mods pd (Property_new ops i0 s0 d0) = Some (Inr (mods', pd', p'))"
      "idle_ok (table_class dec) ops p'"
    using decode_packets_returns [OF assms(1,2) ok(3,1,2) Property_new_idle assms(4)] by blast
  have "typed (table_class dec) p'"
    using r(2) by (simp add: idle_ok_def property_ok_def typed_def property_init_def)
  then have cls: "class_name (v_cls v) = table_class dec pid" if "pid < length (pr_param p')" "v \<in> set (pr_param p' ! pid)" for pid v
    using that by (simp add: typed_def is_a_def)
  have "pid < length (dc_params dec) \<and> class_name c = class_name (df_cons (dc_params dec ! pid))" if "class_name c = table_class dec pid" for c pid
    using that class_name_ne [of c] by (auto simp: table_class_def split: if_splits)
  from this [OF cls] have "\<forall>pid < length (pr_param p'). \<forall>v \<in> set (pr_param p' ! pid).
      pid < length (dc_params dec) \<and> class_name (v_cls v) = class_name (df_cons (dc_params dec ! pid))"
    by blast
  with r(1) show ?thesis by blast
qed

theorem decoder_types_witness:
  "\<exists>dec mods mods' pd' p'. Decoder_make list_lru [] = Inr (dec, mods)
     \<and> decode_packets list_lru list_buffer dec [((Packet_new 0 0 \<lparr>tv_sec = 0, tv_usec = 0\<rparr>)\<lparr>pk_len := 54\<rparr>, demo_mem demo_dns_frame)]
         mods (demo_pd []) (Property_new list_buffer 0 0 0) = Some (Inr (mods', pd', p'))
     \<and> (\<forall>pid < length (pr_param p'). \<forall>v \<in> set (pr_param p' ! pid). class_name (v_cls v) = class_name (df_cons (dc_params dec ! pid)))"
proof -
  obtain dec and mods :: "(list_lru, byte list) amod list" where m: "Decoder_make list_lru [] = Inr (dec, mods)"
    using Decoder_make_default by blast
  have "length demo_dns_frame = 54"
    by code_simp
  then show ?thesis
    using m decoder_types [OF list_lru_laws list_buffer_laws m, of "[((Packet_new 0 0 \<lparr>tv_sec = 0, tv_usec = 0\<rparr>)\<lparr>pk_len := 54\<rparr>,
        demo_mem demo_dns_frame)]" "demo_pd []" 0 0 0] by auto
qed

subsection \<open>Through the layers\<close>

lemma Decoder_make_module:
  assumes "Decoder_make L config = Inr (dec, mods)" "i < 12"
  shows "\<exists>c. module_setup L (lookup_module dec) c (dc_modules dec ! i) = Inr (mods ! i)" "lookup_module dec (mod_names ! i) = int i"
proof -
  obtain ms confs where m: "build_module_map = Inr ms" "decoder_init config ms = Inr (dec, confs)"
      "setup_modules L (lookup_module dec) confs (dc_modules dec) = Inr mods"
    using assms(1) by (auto simp: Decoder_make_def)
  note init = decoder_init_modules [OF m(1,2)]
  have "length (dc_modules dec) = 12"
    using arg_cong [OF init(1), of length] by simp
  then show "\<exists>c. module_setup L (lookup_module dec) c (dc_modules dec ! i) = Inr (mods ! i)" "lookup_module dec (mod_names ! i) = int i"
    using setup_modules_all [OF m(3)] init(3,6) assms(2) by auto
qed

text \<open>The modules on the way of a DNS message.\<close>

lemma Decoder_make_path:
  assumes "Decoder_make L config = Inr (dec, mods)" "map mo_name (dc_modules dec) = mod_names"
  shows "\<exists>e. mods ! 4 = MEthernet e \<and> eth_mod_ipv4 e = 6 \<and> eth_mod_arp e = 0" "\<exists>v. mods ! 6 = MIPv4 v \<and> i4_mod_udp v = 11"
    "\<exists>u. mods ! 11 = MUDP u \<and> ud_mod_dns u = 2" "mods ! 2 = MDNS (dc_modules dec ! 2)"
proof -
  note at = Decoder_make_module [OF assms(1)]
  have "length (dc_modules dec) = 12"
    using arg_cong [OF assms(2), of length] by simp
  then have name: "mo_name (dc_modules dec ! i) = mod_names ! i" if "i < 12" for i
    using that arg_cong [OF assms(2), of "\<lambda>xs. xs ! i"] by simp
  have lk: "lookup_module dec ''IPv4'' = 6" "lookup_module dec ''UDP'' = 11" "lookup_module dec ''DNS'' = 2" "lookup_module dec ''ARP'' = 0"
    using at(2) [of 6] at(2) [of 11] at(2) [of 2] at(2) [of 0] by simp_all
  have "mods ! 4 = MEthernet (Ethernet_setup (lookup_module dec) (dc_modules dec ! 4))"
      "mods ! 6 = MIPv4 (IPv4_setup (lookup_module dec) (dc_modules dec ! 6))"
      "mods ! 11 = MUDP (UDP_setup (lookup_module dec) (dc_modules dec ! 11))"
    using at(1) [of 4] name [of 4] at(1) [of 6] name [of 6] at(1) [of 11] name [of 11] by (auto simp: module_setup_def)
  then show "\<exists>e. mods ! 4 = MEthernet e \<and> eth_mod_ipv4 e = 6 \<and> eth_mod_arp e = 0" "\<exists>v. mods ! 6 = MIPv4 v \<and> i4_mod_udp v = 11"
      "\<exists>u. mods ! 11 = MUDP u \<and> ud_mod_dns u = 2"
    using lk by (simp_all add: Ethernet_setup_def IPv4_setup_def UDP_setup_def pmodule.defs)
  show "mods ! 2 = MDNS (dc_modules dec ! 2)"
    using at(1) [of 2] name [of 2] by (auto simp: module_setup_def)
qed

lemma decode_loop_step:
  assumes "0 \<le> nxt" "nat nxt < length mods" "module_decode L ops m pd (push_event (mod_event dec (nat nxt)) p) (mods ! nat nxt) = Some (Inr (nxt', mods ! nat nxt, pd1, p1))"
    "nxt' = Module_NONE \<or> 0 \<le> nxt' \<and> nat nxt' < length mods"
  shows "decode_loop L ops dec m mods nxt pd p = decode_loop L ops dec m mods nxt' pd1 p1"
  using assms Module_NONE_neg by (subst decode_loop.simps) auto

lemma decode_packets_snoc:
  "decode_packets L ops dec (xs @ [(pkt, m)]) mods pd p =
     bind_opt (decode_packets L ops dec xs mods pd p) (\<lambda>(mods, pd, p).
       Decoder_decode L ops dec m mods (payload_reset pkt pd) (property_init pkt p))"
proof (induction xs arbitrary: mods pd p)
  case Nil
  show ?case
    by (cases "Decoder_decode L ops dec m mods (payload_reset pkt pd) (property_init pkt p)") (auto simp: bind_opt_def split: sum.splits)
next
  case (Cons x xs)
  then show ?case
    by (cases x, cases "Decoder_decode L ops dec (snd x) mods (payload_reset (fst x) pd) (property_init (fst x) p)")
      (auto simp: bind_opt_def split: sum.splits)
qed

text \<open>The bytes of a DNS message in UDP in IPv4, without IP options, in an Ethernet frame.\<close>

definition dns_in_frame :: "mem \<Rightarrow> bool" where
  "dns_in_frame m \<longleftrightarrow> 54 \<le> length (m_pkt m) \<and> pkt_num m 12 2 = 0x0800 \<and> unat (m_pkt m ! 14) mod 16 = 5 \<and> 40 \<le> pkt_num m 16 2
     \<and> m_pkt m ! 23 = 17 \<and> (pkt_num m 34 2 = 53 \<or> pkt_num m 36 2 = 53)"

lemma dns_frame_loop:
  assumes mods: "length mods = 12" "mods ! 4 = MEthernet e" "eth_mod_ipv4 e = 6" "mods ! 6 = MIPv4 v" "i4_mod_udp v = 11"
      "mods ! 11 = MUDP u" "ud_mod_dns u = 2" "mods ! 2 = MDNS dns"
    and ready: "mod_ready D ether_params e" "mod_ready D ipv4_params v" "mod_ready D udp_params u" "ns_ready D dns"
    and frame: "dns_in_frame m" and pd: "payload_inv (length (m_pkt m)) pd" "pl_ptr pd = 0" "pl_length pd = length (m_pkt m)" and p: "property_ok D p"
  shows "\<exists>pd' p'. decode_loop L ops dec m mods 4 pd p = Some (Inr (mods, pd', p')) \<and> property_ok D p' \<and> events p' = events p @
      [mod_event dec 4, mod_event dec 6, mod_event dec 11, mod_event dec 2, mod_ev dns (if bit (m_pkt m ! 45) 7 then ''reply'' else ''query'')]
    \<and> (\<exists>q. view m p' (pid_of dns ''tx_id'') = q @ [Some (bslice 42 2 (m_pkt m), BIG)])"
proof -
  let ?ev = "\<lambda>i p. push_event (mod_event dec i) p" and ?N = "length (m_pkt m)"
  have f: "54 \<le> ?N" "pkt_num m 12 2 = 0x0800" "unat (m_pkt m ! 14) mod 16 = 5" "40 \<le> pkt_num m 16 2" "m_pkt m ! 23 = 17"
      "pkt_num m 34 2 = 53 \<or> pkt_num m 36 2 = 53"
    using frame by (simp_all add: dns_in_frame_def)
  have ev: "property_ok D (?ev i q)" "events (?ev i q) = events q @ [mod_event dec i]" if "property_ok D q" for i q
    using adds_event [OF adds_refl [OF that], of m "mod_event dec i"] by (simp_all add: adds_def)
  obtain pd1 p1 where s1: "Ethernet_decode e m pd (?ev 4 p) = Inr (6, pd1, p1)" "moved ?N 14 pd pd1" "adds D m (Ethernet_puts e 0) [] (?ev 4 p) p1"
    using Ethernet_returns [OF ready(1) pd(1) ev(1) [OF p, of 4]] pd(2,3) f(1,2) mods(3)
    by (auto simp: returns_def Ethernet_next_def ntohs_at_eq_iff)
  have pd1: "payload_inv ?N pd1" "pl_ptr pd1 = 14" "pl_length pd1 = ?N - 14" and p1: "property_ok D p1"
    using s1(2,3) pd(2,3) by (simp_all add: moved_def adds_def)
  have hl: "20 = 4 * (unat (m_pkt m ! pl_ptr pd1) mod 16)" "pkt_num m 16 2 = pkt_num m (pl_ptr pd1 + 2) 2"
    "\<not> pl_length pd1 < 20" "\<not> pkt_num m 16 2 < 20"
    using pd1(2,3) f(1,3,4) by simp_all
  obtain n pd2 p2 where "IPv4_decode ops v m pd1 (?ev 6 p1) = Inr (n, pd2, p2)"
      "IPv4_post D ops v m 14 20 (pkt_num m 16 2) (?N - 14) (?ev 6 p1) (n, pd2, p2)"
    using IPv4_returns [OF ready(2) pd1(1) ev(1) [OF p1, of 6] hl(1,2), of ops] hl(3,4) unfolding pd1(2,3) by (auto simp: returns_def)
  moreover from this(2) have "n = 11"
    using f(5) mods(5) by (simp add: IPv4_post_def IPv4_next_def)
  ultimately have s2: "IPv4_decode ops v m pd1 (?ev 6 p1) = Inr (11, pd2, p2)"
      "IPv4_post D ops v m 14 20 (pkt_num m 16 2) (?N - 14) (?ev 6 p1) (11, pd2, p2)"
    by simp_all
  have pd2: "payload_inv ?N pd2" "pl_ptr pd2 = 34" "20 \<le> pl_length pd2" and p2: "property_ok D p2" "events p2 = events p1 @ [mod_event dec 6]"
    using s2(2) f(1,4) ev(2) [OF p1] by (simp_all add: IPv4_post_def ipv4_skip_def adds_def, arith)
  obtain pd3 p3 where s3: "UDP_decode u m pd2 (?ev 11 p2) = Inr (2, pd3, p3)" "moved ?N 8 pd2 pd3" "adds D m (UDP_puts u 34) [] (?ev 11 p2) p3"
    using UDP_returns [OF ready(3) pd2(1) ev(1) [OF p2(1), of 11]] pd2(2,3) f(1,6) mods(7)
    by (auto simp: returns_def UDP_next_def Let_def ntohs_at_eq_iff)
  have pd3: "payload_inv ?N pd3" "pl_ptr pd3 = 42" "12 \<le> pl_length pd3" and p3: "property_ok D p3" "events p3 = events p2 @ [mod_event dec 11]"
    using s3(2,3) pd2(2,3) ev(2) [OF p2(1)] by (simp_all add: moved_def adds_def)
  obtain pd4 p4 where s4: "NameService_decode dns m pd3 (?ev 2 p3) = Inr (Module_NONE, pd4, p4)" "property_ok D p4"
      "events p4 = events (?ev 2 p3) @ [mod_ev dns (if bit (m_pkt m ! 45) 7 then ''reply'' else ''query'')]"
      "view m p4 (pid_of dns ''tx_id'') = view m (?ev 2 p3) (pid_of dns ''tx_id'') @ [Some (bslice 42 2 (m_pkt m), BIG)]"
    using ns_decode_reads [OF ready(4) pd3(1) ev(1) [OF p3(1), of 2] pd3(3) refl refl refl] pd3(2) by auto
  have "decode_loop L ops dec m mods 4 pd p = decode_loop L ops dec m mods 6 pd1 p1"
    by (rule decode_loop_step) (use mods s1(1) in \<open>simp_all add: with_mod_def\<close>)
  also have "\<dots> = decode_loop L ops dec m mods 11 pd2 p2"
    by (rule decode_loop_step) (use mods s2(1) in \<open>simp_all add: with_mod_def\<close>)
  also have "\<dots> = decode_loop L ops dec m mods 2 pd3 p3"
    by (rule decode_loop_step) (use mods s3(1) in \<open>simp_all add: with_mod_def\<close>)
  also have "\<dots> = decode_loop L ops dec m mods Module_NONE pd4 p4"
    by (rule decode_loop_step) (use mods s4(1) in \<open>simp_all add: with_mod_def\<close>)
  also have "\<dots> = Some (Inr (mods, pd4, p4))"
    by (subst decode_loop.simps) simp
  finally show ?thesis
    using s4(2-4) p3(2) p2(2) s1(3) ev(2) [OF p] ev(2) [OF p3(1)] by (auto simp: adds_def)
qed

lemma dns_frame_decode:
  assumes laws: "lru_laws L ins outs" "buffer_laws ops" and make: "Decoder_make L config = Inr (dec, mods0)"
    and mods: "mods_ok ins outs (table_class dec) std_rank mods" "kept_mods mods0 mods"
    and p: "idle_ok (table_class dec) ops p" and frame: "dns_in_frame m" "pk_len pkt = length (m_pkt m)" "dns = dc_modules dec ! 2"
  shows "\<exists>pd' p'. Decoder_decode L ops dec m mods (payload_reset pkt pd) (property_init pkt p) = Some (Inr (mods, pd', p'))
    \<and> idle_ok (table_class dec) ops p' \<and> property_wf p'
    \<and> events p' = [mod_event dec 4, mod_event dec 6, mod_event dec 11, mod_event dec 2,
        mod_ev dns (if bit (m_pkt m ! 45) 7 then ''reply'' else ''query'')]
    \<and> (\<exists>q. view m p' (pid_of dns ''tx_id'') = q @ [Some (bslice 42 2 (m_pkt m), BIG)])"
proof -
  let ?D = "table_class dec"
  note ok = Decoder_make_ok [OF laws(1) make]
  note path = Decoder_make_path [OF make ok(4)]
  have at: "mods ! i = mods0 ! i" if "i < 12" "\<And>t. mods0 ! i \<noteq> MTCP t" for i
    using mods(2) that ok(2) by (simp add: kept_mods_def)
  have len: "length mods = 12"
    using mods(2) ok(2) by (simp add: kept_mods_def)
  then have rdy: "amod_ready ins outs ?D (mods ! i)" if "i < 12" for i
    using mods(1) that by (simp add: mods_ok_def list_all_length)
  obtain e v u where m: "mods ! 4 = MEthernet e" "eth_mod_ipv4 e = 6" "mods ! 6 = MIPv4 v" "i4_mod_udp v = 11" "mods ! 11 = MUDP u"
      "ud_mod_dns u = 2" "mods ! 2 = MDNS dns"
    using path at [of 4] at [of 6] at [of 11] at [of 2] frame(3) by auto
  have ready: "mod_ready ?D ether_params e" "mod_ready ?D ipv4_params v" "mod_ready ?D udp_params u" "ns_ready ?D dns"
    using rdy [of 4] rdy [of 6] rdy [of 11] rdy [of 2] m by simp_all
  have pd: "payload_inv (length (m_pkt m)) (payload_reset pkt pd)"
    using payload_reset_inv [of pkt pd] frame(2) by simp
  have q: "property_ok ?D (property_init pkt p)" "addr_ok ops (property_init pkt p)"
    using p by (simp_all add: idle_ok_def)
  obtain pd' p' where d: "decode_loop L ops dec m mods 4 (payload_reset pkt pd) (property_init pkt p) = Some (Inr (mods, pd', p'))"
      "property_ok ?D p'" "events p' = [mod_event dec 4, mod_event dec 6, mod_event dec 11, mod_event dec 2,
        mod_ev dns (if bit (m_pkt m ! 45) 7 then ''reply'' else ''query'')]"
      "\<exists>q. view m p' (pid_of dns ''tx_id'') = q @ [Some (bslice 42 2 (m_pkt m), BIG)]"
    using dns_frame_loop [OF len m ready frame(1) pd _ _ q(1), of L ops dec] frame(2) by auto
  moreover have "addr_ok ops p'"
    using decode_loop_returns [OF laws mods(1) pd q, of 4 dec] d(1) len by simp
  ultimately show ?thesis
    using property_ok_idle [OF d(2)] by (auto simp: Decoder_decode_def ok(3) property_ok_def)
qed

text \<open>
  C6: From the wire to the application layer. After any sequence of packets, a frame with a DNS message over UDP and IPv4 raises exactly the
  events of the four modules it passes through, in this order, and then the event of the message, and the last value of the
  transaction id is the one of the message.
\<close>

theorem dns_frame_events:
  assumes "lru_laws L ins outs" "buffer_laws ops" "Decoder_make L config = Inr (dec, mods)"
    and "list_all (\<lambda>(pkt, m). pk_len pkt = length (m_pkt m)) (pkts @ [(pkt, m)])" "dns_in_frame m" "dns = dc_modules dec ! 2"
  shows "\<exists>mods' pd' p'. decode_packets L ops dec (pkts @ [(pkt, m)]) mods pd (Property_new ops i0 s0 d0) = Some (Inr (mods', pd', p'))
    \<and> events p' = [mod_event dec 4, mod_event dec 6, mod_event dec 11, mod_event dec 2,
        mod_ev dns (if bit (m_pkt m ! 45) 7 then ''reply'' else ''query'')]
    \<and> (\<exists>q. view m p' (pid_of dns ''tx_id'') = q @ [Some (bslice 42 2 (m_pkt m), BIG)])"
proof -
  note ok = Decoder_make_ok [OF assms(1,3)]
  have all: "list_all (\<lambda>(pkt, m). pk_len pkt = length (m_pkt m)) pkts" "pk_len pkt = length (m_pkt m)"
    using assms(4) by simp_all
  obtain mods1 pd1 p1 where r: "decode_packets L ops dec pkts mods pd (Property_new ops i0 s0 d0) = Some (Inr (mods1, pd1, p1))"
      "mods_ok ins outs (table_class dec) std_rank mods1" "kept_mods mods mods1" "idle_ok (table_class dec) ops p1"
    using decode_packets_returns [OF assms(1,2) ok(3,1,2) Property_new_idle all(1)] by blast
  from dns_frame_decode [OF assms(1-3) r(2-4) assms(5) all(2) assms(6), of pd1] r(1) show ?thesis
    by (auto simp: decode_packets_snoc)
qed

theorem dns_frame_events_witness:
  "\<exists>dec mods mods' pd' p'. Decoder_make list_lru [] = Inr (dec, mods)
     \<and> decode_packets list_lru list_buffer dec [((Packet_new 0 0 \<lparr>tv_sec = 0, tv_usec = 0\<rparr>)\<lparr>pk_len := 54\<rparr>, demo_mem demo_dns_frame)]
         mods (demo_pd []) (Property_new list_buffer 0 0 0) = Some (Inr (mods', pd', p'))
     \<and> events p' = [mod_event dec 4, mod_event dec 6, mod_event dec 11, mod_event dec 2, mod_ev (dc_modules dec ! 2) ''query'']"
proof -
  obtain dec and mods :: "(list_lru, byte list) amod list" where m: "Decoder_make list_lru [] = Inr (dec, mods)"
    using Decoder_make_default by blast
  have f: "dns_in_frame (demo_mem demo_dns_frame)" "length demo_dns_frame = 54" "\<not> bit (demo_dns_frame ! 45) 7"
    by code_simp+
  show ?thesis
    using m f dns_frame_events [OF list_lru_laws list_buffer_laws m, of "[]" "(Packet_new 0 0 \<lparr>tv_sec = 0, tv_usec = 0\<rparr>)\<lparr>pk_len := 54\<rparr>"
        "demo_mem demo_dns_frame" "dc_modules dec ! 2" "demo_pd []" 0 0 0] by auto
qed

end
