(* ===== verification/PM_Events.thy ===== *)
theory PM_Events
  imports PM_Decode
begin

text \<open>
  The events of the decoder: \<^verbatim>\<open>Decoder::init\<close> of \<^verbatim>\<open>src/decoder.cc\<close> numbers the events of every module in turn, so that the event a module
  pushes, the name a user registers a handler for and the slot of the kernel's table are the same number.
\<close>

subsection \<open>Numbering\<close>

definition event_full_name :: "string \<Rightarrow> string \<Rightarrow> string" where
  "event_full_name mname lname = (if lname = [] then mname else mname @ ''.'' @ lname)"

text \<open>The events of module \<open>j\<close> after finalisation.\<close>

definition ev_placed :: "decoder \<Rightarrow> string list \<Rightarrow> nat \<Rightarrow> bool" where
  "ev_placed dec ks j \<longleftrightarrow>
     (let m = dc_modules dec ! j
      in map fst (mo_event_map m) = ks
         \<and> (\<forall>(k, d) \<in> set (mo_event_map m). 0 \<le> ev_id d \<and> nat (ev_id d) < length (dc_events dec) \<and> dc_events dec ! nat (ev_id d) = d
              \<and> ev_name d = event_full_name (mo_name m) k))"

definition module_event_names :: "pmodule \<Rightarrow> string list" where
  "module_event_names m = map (event_full_name (mo_name m) \<circ> fst) (mo_event_map m)"

lemma add_events_result:
  "add_events m es dec = (es', dec') \<Longrightarrow>
     map fst es' = map fst es \<and> dc_events dec' = dc_events dec @ map snd es'
     \<and> map (ev_id \<circ> snd) es' = map int [length (dc_events dec)..<length (dc_events dec) + length es]
     \<and> map (ev_name \<circ> snd) es' = map (event_full_name (mo_name m) \<circ> fst) es"
proof (induction m es dec arbitrary: es' dec' rule: add_events.induct)
  case (2 m k d es dec)
  let ?d = "event_finalize (mo_id m) (int (length (dc_events dec))) (mo_name m) k d"
  obtain qs dec1 where q: "add_events m es (add_event ?d dec) = (qs, dec1)"
    by fastforce
  then have eq: "es' = (k, ?d) # qs" "dec' = dec1"
    using 2(2) by (simp_all add: Let_def)
  have "[length (dc_events dec)..<length (dc_events dec) + length ((k, d) # es)]
      = length (dc_events dec) # [Suc (length (dc_events dec))..<length (dc_events dec) + Suc (length es)]"
    using upt_conv_Cons [of "length (dc_events dec)" "length (dc_events dec) + length ((k, d) # es)"] by (simp del: upt_Suc)
  then show ?case
    using 2(1) [OF refl q] by (simp add: eq add_event_def event_full_name_def del: upt_Suc)
qed simp

lemma add_params_events: "add_params m ps dec = (ps', dec') \<Longrightarrow> dc_events dec' = dc_events dec"
proof (induction m ps dec arbitrary: ps' dec' rule: add_params.induct)
  case (2 m k d ps dec)
  obtain qs dec1 where "add_params m ps (add_param (param_finalize (mo_id m) (int (length (dc_params dec))) (mo_name m) d) dec) = (qs, dec1)"
    by fastforce
  with 2 show ?case by (auto simp: Let_def add_param_def)
qed simp

lemma add_configs_events: "add_configs m cs dec = (cs', dec') \<Longrightarrow> dc_events dec' = dc_events dec"
proof (induction m cs dec arbitrary: cs' dec' rule: add_configs.induct)
  case (2 m k d cs dec)
  let ?d = "config_finalize (mo_id m) (mo_name m) d"
  obtain qs dec1 where "add_configs m cs (dec\<lparr>dc_config_map := smap_insert (cd_name ?d) ?d (dc_config_map dec)\<rparr>) = (qs, dec1)"
    by fastforce
  with 2 show ?case by (auto simp: Let_def)
qed simp

lemma finalize_module_events:
  assumes "i < length (dc_modules dec)"
  shows "ev_placed (finalize_module i dec) (map fst (mo_event_map (dc_modules dec ! i))) i"
    "map ev_name (dc_events (finalize_module i dec)) = map ev_name (dc_events dec) @ module_event_names (dc_modules dec ! i)"
    "j \<noteq> i \<Longrightarrow> ev_placed dec ks j \<Longrightarrow> ev_placed (finalize_module i dec) ks j"
proof -
  let ?m = "dc_modules dec ! i"
  obtain ps dec1 where p: "add_params ?m (mo_param_map ?m) dec = (ps, dec1)" by fastforce
  obtain es dec2 where e: "add_events ?m (mo_event_map ?m) dec1 = (es, dec2)" by fastforce
  obtain cs dec3 where c: "add_configs ?m (mo_config_map ?m) dec2 = (cs, dec3)" by fastforce
  have fin: "finalize_module i dec =
      dec3\<lparr>dc_modules := (dc_modules dec3)[i := ?m\<lparr>mo_param_map := ps, mo_event_map := es, mo_config_map := cs\<rparr>]\<rparr>"
    using p e c by (simp add: finalize_module_def Let_def)
  note r = add_events_result [OF e, unfolded add_params_events [OF p]]
  have d3: "dc_events dec3 = dc_events dec @ map snd es" "dc_modules dec3 = dc_modules dec"
    using r add_params_result [OF p] add_events_frame [OF e] add_configs_frame [OF c] add_configs_events [OF c] by simp_all
  have len: "length es = length (mo_event_map ?m)"
    using r by (metis length_map)
  have at: "ev_id (snd (es ! l)) = int (length (dc_events dec) + l)" "ev_name (snd (es ! l)) = event_full_name (mo_name ?m) (fst (es ! l))"
    if "l < length es" for l
  proof -
    have "map (ev_id \<circ> snd) es ! l = map int [length (dc_events dec)..<length (dc_events dec) + length es] ! l"
      using r len by simp
    then show "ev_id (snd (es ! l)) = int (length (dc_events dec) + l)" using that by simp
    have "map (ev_name \<circ> snd) es = map (event_full_name (mo_name ?m)) (map fst es)"
      using r by simp
    from arg_cong [OF this, of "\<lambda>xs. xs ! l"] show "ev_name (snd (es ! l)) = event_full_name (mo_name ?m) (fst (es ! l))"
      using that by simp
  qed
  have "0 \<le> ev_id d \<and> nat (ev_id d) < length (dc_events dec3) \<and> dc_events dec3 ! nat (ev_id d) = d \<and> ev_name d = event_full_name (mo_name ?m) k"
    if kd: "(k, d) \<in> set es" for k d
  proof -
    obtain l where "l < length es" "es ! l = (k, d)"
      using kd by (auto simp only: in_set_conv_nth)
    then show ?thesis
      using at [of l] by (simp add: d3 nth_append nat_add_distrib)
  qed
  then show "ev_placed (finalize_module i dec) (map fst (mo_event_map ?m)) i"
    using r assms by (auto simp: ev_placed_def fin d3(2) Let_def)
  show "map ev_name (dc_events (finalize_module i dec)) = map ev_name (dc_events dec) @ module_event_names ?m"
    using r by (simp add: fin d3(1) module_event_names_def)
  show "j \<noteq> i \<Longrightarrow> ev_placed dec ks j \<Longrightarrow> ev_placed (finalize_module i dec) ks j"
    by (auto simp: ev_placed_def Let_def fin d3 nth_append)
qed

lemma finalize_modules_events:
  shows "j < length (dc_modules dec) \<Longrightarrow> ev_placed (finalize_modules dec) (map fst (mo_event_map (dc_modules dec ! j))) j"
    "map ev_name (dc_events (finalize_modules dec)) = map ev_name (dc_events dec) @ concat (map module_event_names (dc_modules dec))"
proof -
  let ?f = "\<lambda>i. fold finalize_module [0..<i] dec"
  have inv: "length (dc_modules (?f i)) = length (dc_modules dec) \<and> (\<forall>l. i \<le> l \<longrightarrow> dc_modules (?f i) ! l = dc_modules dec ! l)
      \<and> (\<forall>l < i. ev_placed (?f i) (map fst (mo_event_map (dc_modules dec ! l))) l)
      \<and> map ev_name (dc_events (?f i)) = map ev_name (dc_events dec) @ concat (map module_event_names (take i (dc_modules dec)))"
    if "i \<le> length (dc_modules dec)" for i
    using that
  proof (induction i)
    case (Suc i)
    let ?dec = "?f i"
    have i: "i < length (dc_modules ?dec)" and same: "dc_modules ?dec ! i = dc_modules dec ! i"
      using Suc by simp_all
    note ev = finalize_module_events [OF i, unfolded same] and pl = finalize_module_placed(2,3) [OF i]
    show ?case
      using Suc ev pl by (auto simp: less_Suc_eq take_Suc_conv_app_nth)
  qed simp
  from inv [of "length (dc_modules dec)"]
  show "j < length (dc_modules dec) \<Longrightarrow> ev_placed (finalize_modules dec) (map fst (mo_event_map (dc_modules dec ! j))) j"
    "map ev_name (dc_events (finalize_modules dec)) = map ev_name (dc_events dec) @ concat (map module_event_names (dc_modules dec))"
    by (simp_all add: finalize_modules_def)
qed

subsection \<open>The events of the modules\<close>

abbreviation event_keys :: "pmodule \<Rightarrow> string list" where
  "event_keys m \<equiv> map fst (mo_event_map m)"

abbreviation with_own_event :: "pmodule \<Rightarrow> string list" where
  "with_own_event m \<equiv> map fst (smap_insert [] (EventDef_new []) (mo_event_map m))"

lemma add_modules_events:
  "add_modules ms dec = Inr dec' \<Longrightarrow>
     map event_keys (dc_modules dec') = map event_keys (dc_modules dec) @ map (with_own_event \<circ> snd) ms \<and> dc_events dec' = dc_events dec"
proof (induction ms dec rule: add_modules.induct)
  case (2 name m ms dec)
  obtain dec1 where d: "add_module name m dec = Inr dec1" "add_modules ms dec1 = Inr dec'"
    using 2(2) by auto
  have "map event_keys (dc_modules dec1) = map event_keys (dc_modules dec) @ [with_own_event m] \<and> dc_events dec1 = dc_events dec"
    using d(1) by (auto simp: add_module_def Let_def define_event_def split: if_splits)
  with 2(1) [OF d(2)] show ?case by simp
qed simp

abbreviation std_keys :: "string list list" where
  "std_keys \<equiv> [[[], ''reply'', ''request''], [[]], [[], ''query'', ''reply''], [[]], [[]], [[]], [[]], [[]], [[], ''query'', ''reply''], [[]],
     [[], ''closed'', ''established'', ''new_session''], [[]]]"

lemma new_event_keys:
  "with_own_event Ethernet_new = [[]]" "with_own_event Dot1Q_new = [[]]" "with_own_event PPPoE_new = [[]]" "with_own_event ICMP_new = [[]]"
  "with_own_event DHCP_new = [[]]"
  "case ARP_new of Inr m \<Rightarrow> with_own_event m = [[], ''reply'', ''request''] | Inl _ \<Rightarrow> False"
  "case IPv4_new of Inr m \<Rightarrow> with_own_event m = [[]] | Inl _ \<Rightarrow> False"
  "case IPv6_new of Inr m \<Rightarrow> with_own_event m = [[]] | Inl _ \<Rightarrow> False"
  "case UDP_new of Inr m \<Rightarrow> with_own_event m = [[]] | Inl _ \<Rightarrow> False"
  "case DNS_new of Inr m \<Rightarrow> with_own_event m = [[], ''query'', ''reply''] | Inl _ \<Rightarrow> False"
  "case TCP_new of Inr m \<Rightarrow> with_own_event m = [[], ''closed'', ''established'', ''new_session''] | Inl _ \<Rightarrow> False"
  by code_simp+

lemma build_module_map_events:
  assumes "build_module_map = Inr ms"
  shows "map (with_own_event \<circ> snd) ms = std_keys"
proof -
  obtain arp dns ipv4 ipv6 mdns tcp udp where ms: "ARP_new = Inr arp" "DNS_new = Inr dns" "IPv4_new = Inr ipv4" "IPv6_new = Inr ipv6"
      "MDNS_new = Inr mdns" "TCP_new = Inr tcp" "UDP_new = Inr udp"
      "ms = [(''ARP'', arp), (''DHCP'', DHCP_new), (''DNS'', dns), (''Dot1Q'', Dot1Q_new), (''Ethernet'', Ethernet_new), (''ICMP'', ICMP_new),
        (''IPv4'', ipv4), (''IPv6'', ipv6), (''MDNS'', mdns), (''PPPoE'', PPPoE_new), (''TCP'', tcp), (''UDP'', udp)]"
    by (rule build_module_map_list [OF assms])
  have mdns: "mdns = dns"
    using ms(5) [unfolded MDNS_eq_DNS ms(2)] by simp
  note keys = new_event_keys(1-5) new_event_keys(6) [unfolded ms(1) sum.case] new_event_keys(7) [unfolded ms(3) sum.case]
    new_event_keys(8) [unfolded ms(4) sum.case] new_event_keys(9) [unfolded ms(7) sum.case] new_event_keys(10) [unfolded ms(2) sum.case]
    new_event_keys(11) [unfolded ms(6) sum.case]
  show ?thesis
    unfolding ms(8) mdns list.map comp_def snd_conv keys ..
qed

text \<open>What a decoder with the modules of the program knows of events.\<close>

lemma Decoder_make_events:
  assumes "Decoder_make L config = Inr (dec, mods)"
  shows "map event_keys (dc_modules dec) = std_keys" "i < 12 \<Longrightarrow> ev_placed dec (std_keys ! i) i"
    "map ev_name (dc_events dec) = concat (map2 (\<lambda>n ks. map (event_full_name n) ks) mod_names std_keys)" "registry_inv dec"
    "map mo_name (dc_modules dec) = mod_names"
proof -
  obtain ms confs where m: "build_module_map = Inr ms" "decoder_init config ms = Inr (dec, confs)"
    using assms by (auto simp: Decoder_make_def)
  obtain dec0 where d0: "add_modules ms Decoder_new = Inr dec0" "dec = (finalize_modules dec0)\<lparr>dc_initialized := True\<rparr>"
    using m(2) by (auto simp: decoder_init_def Let_def split: if_splits)
  note std = add_modules_std [OF m(1) d0(1)] and init = decoder_init_modules [OF m(1,2)]
  have keys: "map event_keys (dc_modules dec0) = std_keys" "dc_events dec0 = []"
    using add_modules_events [OF d0(1)] build_module_map_events [OF m(1)] by (simp_all add: Decoder_new_def)
  have len: "length (dc_modules dec0) = 12" "length (dc_modules dec) = 12"
    using arg_cong [OF std(1), of length] arg_cong [OF init(1), of length] by simp_all
  have k: "event_keys (dc_modules dec0 ! i) = std_keys ! i" if "i < 12" for i
    using arg_cong [OF keys(1), of "\<lambda>xs. xs ! i"] that len(1) by simp
  show pl: "ev_placed dec (std_keys ! i) i" if "i < 12" for i
    using finalize_modules_events(1) [of i dec0] that len(1) unfolding k [OF that] by (simp add: ev_placed_def d0(2))
  have "event_keys (dc_modules dec ! i) = std_keys ! i" if "i < 12" for i
    using pl [OF that] by (simp only: ev_placed_def Let_def)
  then show "map event_keys (dc_modules dec) = std_keys"
    by (intro nth_equalityI) (simp_all add: len(2))
  have "map module_event_names (dc_modules dec0) = map2 (\<lambda>n ks. map (event_full_name n) ks) (map mo_name (dc_modules dec0)) (map event_keys (dc_modules dec0))"
    by (intro nth_equalityI) (simp_all add: module_event_names_def)
  then show "map ev_name (dc_events dec) = concat (map2 (\<lambda>n ks. map (event_full_name n) ks) mod_names std_keys)"
    using finalize_modules_events(2) [of dec0] unfolding std(1) keys by (simp add: d0(2))
  show "registry_inv dec"
    using decoder_init_inv [OF m(2)] .
  show "map mo_name (dc_modules dec) = mod_names"
    by (rule init(1))
qed

lemma mod_event_eq: "mod_event dec i = mod_ev (dc_modules dec ! i) []"
  by (simp add: mod_event_def mod_ev_def)

lemma mod_ev_placed:
  assumes "ev_placed dec ks j" "k \<in> set ks"
  shows "0 \<le> mod_ev (dc_modules dec ! j) k" "nat (mod_ev (dc_modules dec ! j) k) < length (dc_events dec)"
    "ev_name (dc_events dec ! nat (mod_ev (dc_modules dec ! j) k)) = event_full_name (mo_name (dc_modules dec ! j)) k"
proof -
  let ?es = "mo_event_map (dc_modules dec ! j)"
  have "k \<in> fst ` set ?es"
    using assms by (simp add: ev_placed_def Let_def flip: list.set_map)
  then obtain d where "map_of ?es k = Some d"
    by (metis map_of_eq_None_iff not_None_eq)
  then have "mod_ev (dc_modules dec ! j) k = ev_id d" "(k, d) \<in> set ?es"
    by (simp_all add: mod_ev_def smap_find_def map_of_SomeD)
  then show "0 \<le> mod_ev (dc_modules dec ! j) k" "nat (mod_ev (dc_modules dec ! j) k) < length (dc_events dec)"
      "ev_name (dc_events dec ! nat (mod_ev (dc_modules dec ! j) k)) = event_full_name (mo_name (dc_modules dec ! j)) k"
    using assms(1) by (auto simp: ev_placed_def Let_def)
qed

lemma registry_event_id:
  assumes "registry_inv dec" "distinct (map ev_name (dc_events dec))" "i < length (dc_events dec)"
  shows "lookup_event_id dec (ev_name (dc_events dec ! i)) = int i"
proof -
  have "map_of (map (\<lambda>e. (ev_name e, e)) (dc_events dec)) (ev_name (dc_events dec ! i)) = Some (dc_events dec ! i)"
    using assms(2,3) by (intro map_of_is_SomeI) (simp_all add: comp_def)
  then show ?thesis
    using assms(1,3) by (simp add: lookup_event_id_def registry_inv_def)
qed

lemma std_event_names_distinct: "distinct (concat (map2 (\<lambda>n ks. map (event_full_name n) ks) mod_names std_keys))"
  by code_simp

text \<open>The event a module pushes is the one a user finds under its full name, and it has a slot in the kernel's table.\<close>

lemma Decoder_make_event_id:
  assumes "Decoder_make L config = Inr (dec, mods)" "i < 12" "k \<in> set (std_keys ! i)"
  shows "mod_ev (dc_modules dec ! i) k = lookup_event_id dec (event_full_name (mod_names ! i) k)"
    "0 \<le> mod_ev (dc_modules dec ! i) k" "nat (mod_ev (dc_modules dec ! i) k) < length (dc_events dec)"
    "ev_name (dc_events dec ! nat (mod_ev (dc_modules dec ! i) k)) = event_full_name (mod_names ! i) k"
proof -
  note ev = Decoder_make_events [OF assms(1)]
  note pl = mod_ev_placed [OF ev(2) [OF assms(2)] assms(3)]
  have "length (dc_modules dec) = 12"
    using arg_cong [OF ev(5), of length] by simp
  then have name: "mo_name (dc_modules dec ! i) = mod_names ! i"
    using arg_cong [OF ev(5), of "\<lambda>xs. xs ! i"] assms(2) by simp
  have d: "distinct (map ev_name (dc_events dec))"
    unfolding ev(3) by (rule std_event_names_distinct)
  from registry_event_id [OF ev(4) d pl(2)] show "mod_ev (dc_modules dec ! i) k = lookup_event_id dec (event_full_name (mod_names ! i) k)"
    using pl(1) unfolding pl(3) name by simp
  show "0 \<le> mod_ev (dc_modules dec ! i) k" "nat (mod_ev (dc_modules dec ! i) k) < length (dc_events dec)"
    by (rule pl)+
  show "ev_name (dc_events dec ! nat (mod_ev (dc_modules dec ! i) k)) = event_full_name (mod_names ! i) k"
    using pl(3) unfolding name .
qed

abbreviation known_events :: "decoder \<Rightarrow> event_id set" where
  "known_events dec \<equiv> {e. 0 \<le> e \<and> nat e < length (dc_events dec)}"

definition pushed_keys :: "string \<Rightarrow> string list" where
  "pushed_keys name =
     (if name = ''ARP'' then [''request'', ''reply'']
      else if name = ''DNS'' \<or> name = ''MDNS'' then [''query'', ''reply'']
      else if name = ''TCP'' then [''new_session'', ''established'', ''closed''] else [])"

lemma std_pushed_keys:
  "list_all (\<lambda>i. list_all (\<lambda>k. k \<in> set (std_keys ! i)) ([] # pushed_keys (mod_names ! i))) [0..<12]"
  by code_simp

lemma module_setup_events:
  assumes "module_setup L lookup config m = Inr a"
  shows "amod_events a \<subseteq> mod_ev m ` set (pushed_keys (mo_name m))"
proof (cases a)
  case (MTCP t)
  then have t: "TCP_setup L config m = Inr t" "mo_name m = ''TCP''"
    using module_setup_class [OF assms] by simp_all
  then have "mod_ev t = mod_ev m"
    by (auto simp: TCP_setup_def mod_ev_def pmodule.defs fun_eq_iff)
  then show ?thesis
    using MTCP t(2) by (simp add: tcp_events_def pushed_keys_def)
qed (use module_setup_class [OF assms] in \<open>simp_all add: pushed_keys_def\<close>)

lemma Decoder_make_known:
  assumes "Decoder_make L config = Inr (dec, mods)"
  shows "i < 12 \<Longrightarrow> mod_event dec i \<in> known_events dec" "length mods = 12" "\<forall>a \<in> set mods. amod_events a \<subseteq> known_events dec"
proof -
  note id = Decoder_make_event_id [OF assms] and ev = Decoder_make_events [OF assms]
  have keys: "\<forall>k \<in> set ([] # pushed_keys (mod_names ! i)). k \<in> set (std_keys ! i)" if "i < 12" for i
    using std_pushed_keys that by (simp only: list_all_iff set_upt atLeastLessThan_iff) simp
  then show "mod_event dec i \<in> known_events dec" if "i < 12"
    using id(2,3) [OF that, of "[]"] keys [OF that] by (simp only: mod_event_eq mem_Collect_eq list.set insert_iff) simp
  obtain ms confs where m: "build_module_map = Inr ms" "decoder_init config ms = Inr (dec, confs)"
      "setup_modules L (lookup_module dec) confs (dc_modules dec) = Inr mods"
    using assms by (auto simp: Decoder_make_def)
  have len: "length (dc_modules dec) = 12"
    using arg_cong [OF ev(5), of length] by simp
  have set: "length mods = 12" "\<And>i. i < 12 \<Longrightarrow> \<exists>c. module_setup L (lookup_module dec) c (dc_modules dec ! i) = Inr (mods ! i)"
    using setup_modules_all [OF m(3)] decoder_init_modules(6) [OF m(1,2)] len by auto
  show "length mods = 12" by (rule set(1))
  have "amod_events (mods ! i) \<subseteq> known_events dec" if i: "i < 12" for i
  proof -
    have name: "mo_name (dc_modules dec ! i) = mod_names ! i"
      using arg_cong [OF ev(5), of "\<lambda>xs. xs ! i"] i len by simp
    obtain c where "module_setup L (lookup_module dec) c (dc_modules dec ! i) = Inr (mods ! i)"
      using set(2) [OF i] by blast
    from module_setup_events [OF this] have "amod_events (mods ! i) \<subseteq> mod_ev (dc_modules dec ! i) ` set (pushed_keys (mod_names ! i))"
      unfolding name .
    also have "\<dots> \<subseteq> known_events dec"
      using id(2,3) [OF i] keys [OF i] by (intro image_subsetI) (simp only: mem_Collect_eq list.set insert_iff, blast)
    finally show ?thesis .
  qed
  then show "\<forall>a \<in> set mods. amod_events a \<subseteq> known_events dec"
    unfolding set_conv_nth set(1) by blast
qed

end
