(* ===== verification/PM_Channel.thy ===== *)
theory PM_Channel
  imports PM_Prelude
begin

text \<open>
  \<^verbatim>\<open>src/channel.hpp\<close>: the ring buffer between the capture thread and the decoding thread, and the message
  queue between a user thread and the decoding thread. Both implement the locale \<open>fifo\<close>. The ring is an
  array of \<^verbatim>\<open>0xfff\<close> slots; the slot at \<^verbatim>\<open>pull_idx_\<close> is the packet the decoder is working on, so a full ring
  holds \<^verbatim>\<open>0xfff - 1\<close> unread packets. Indices stay below \<^verbatim>\<open>0xfff\<close>, so the 32-bit additions do not wrap.
  \<^verbatim>\<open>pthread_mutex_lock\<close> on a held mutex does not return; that is the result \<open>None\<close>.
\<close>

unbundle bit_operations_syntax

subsection \<open>The queue contract\<close>

locale fifo =
  fixes contents :: "'q \<Rightarrow> 'a list"
    and can_push :: "'q \<Rightarrow> bool"
    and push :: "'a \<Rightarrow> 'q \<Rightarrow> 'q"
    and pull :: "'q \<Rightarrow> ('a \<times> 'q) option"
    and wf :: "'q \<Rightarrow> bool"
  assumes push_contents: "wf q \<Longrightarrow> can_push q \<Longrightarrow> contents (push x q) = contents q @ [x]"
    and push_wf: "wf q \<Longrightarrow> can_push q \<Longrightarrow> wf (push x q)"
    and pull_empty: "wf q \<Longrightarrow> contents q = [] \<Longrightarrow> pull q = None"
    and pull_some: "wf q \<Longrightarrow> contents q = x # xs \<Longrightarrow>
      \<exists>q'. pull q = Some (x, q') \<and> contents q' = xs \<and> wf q'"
begin

lemma pull_cases:
  assumes "wf q"
  obtains (empty) "contents q = []" "pull q = None"
  | (some) x q' where "contents q = x # contents q'" "pull q = Some (x, q')" "wf q'"
proof (cases "contents q")
  case Nil
  with pull_empty [OF assms] empty show ?thesis by blast
next
  case (Cons x xs)
  with pull_some [OF assms Cons] some show ?thesis by blast
qed

lemma pull_wf: "wf q \<Longrightarrow> pull q = Some (x, q') \<Longrightarrow> wf q'"
  by (erule pull_cases) auto

lemma pull_None_iff: "wf q \<Longrightarrow> pull q = None \<longleftrightarrow> contents q = []"
  by (erule pull_cases) auto

lemma pull_contents: "wf q \<Longrightarrow> pull q = Some (x, q') \<Longrightarrow> contents q = x # contents q'"
  by (erule pull_cases) auto

end

subsection \<open>RingBuffer\<close>

definition RING_SIZE :: nat where "RING_SIZE = 0xfff"

record 'a ring =
  rb_push_idx :: nat
  rb_pull_idx :: nat
  rb_ring :: "nat \<Rightarrow> 'a"
  rb_push_wait :: "64 word"
  rb_pull_wait :: "64 word"
  rb_eos :: bool

definition RingBuffer_new :: "(nat \<Rightarrow> 'a) \<Rightarrow> 'a ring" where
  "RingBuffer_new objs =
     \<lparr>rb_push_idx = 0, rb_pull_idx = 0, rb_ring = objs, rb_push_wait = 0, rb_pull_wait = 0,
      rb_eos = False\<rparr>"

definition rb_next :: "nat \<Rightarrow> nat" where
  "rb_next idx = (idx + 1) mod RING_SIZE"

text \<open>The condition of the loop in \<^verbatim>\<open>retain\<close>: as long as it holds the capture thread waits.\<close>

definition rb_full :: "'a ring \<Rightarrow> bool" where
  "rb_full r \<longleftrightarrow> rb_next (rb_push_idx r) = rb_pull_idx r"

definition rb_retain :: "'a ring \<Rightarrow> nat option" where
  "rb_retain r = (if rb_full r then None else Some (rb_next (rb_push_idx r)))"

definition rb_push :: "'a \<Rightarrow> 'a ring \<Rightarrow> 'a ring" where
  "rb_push x r =
     (let n = rb_next (rb_push_idx r)
      in r\<lparr>rb_ring := (rb_ring r)(n := x), rb_push_idx := n\<rparr>)"

text \<open>The condition of the loop in \<^verbatim>\<open>pull\<close>, and what follows the loop.\<close>

definition rb_empty :: "'a ring \<Rightarrow> bool" where
  "rb_empty r \<longleftrightarrow> rb_next (rb_pull_idx r) = rb_next (rb_push_idx r)"

definition rb_take :: "'a ring \<Rightarrow> 'a \<times> 'a ring" where
  "rb_take r =
     (let n = rb_next (rb_pull_idx r) in (rb_ring r n, r\<lparr>rb_pull_idx := n\<rparr>))"

definition rb_pull :: "'a ring \<Rightarrow> ('a \<times> 'a ring) option" where
  "rb_pull r = (if rb_empty r then None else Some (rb_take r))"

text \<open>One turn of each waiting loop, with the argument of its \<^verbatim>\<open>usleep\<close> (a \<^verbatim>\<open>uint32_t\<close>, 100 in \<^verbatim>\<open>retain\<close> and 1
  in \<^verbatim>\<open>pull\<close> before the first turn).\<close>

definition rb_retain_wait :: "32 word \<times> 'a ring \<Rightarrow> 32 word \<times> 'a ring" where
  "rb_retain_wait = (\<lambda>(w, r).
     (if w < 0xffff then w * 2 else w, r\<lparr>rb_push_wait := rb_push_wait r + 1\<rparr>))"

definition rb_pull_turn :: "32 word \<times> 'a ring \<Rightarrow> 32 word \<times> 'a ring" where
  "rb_pull_turn = (\<lambda>(w, r).
     (if w AND 0xfffff \<noteq> 0 then push_bit 1 w else w, r\<lparr>rb_pull_wait := rb_pull_wait r + 1\<rparr>))"

definition rb_close :: "'a ring \<Rightarrow> 'a ring" where
  "rb_close r = r\<lparr>rb_eos := True\<rparr>"

definition rb_count :: "'a ring \<Rightarrow> nat" where
  "rb_count r = (rb_push_idx r + RING_SIZE - rb_pull_idx r) mod RING_SIZE"

definition rb_contents :: "'a ring \<Rightarrow> 'a list" where
  "rb_contents r = map (\<lambda>i. rb_ring r ((rb_pull_idx r + Suc i) mod RING_SIZE)) [0..<rb_count r]"

definition rb_wf :: "'a ring \<Rightarrow> bool" where
  "rb_wf r \<longleftrightarrow> rb_push_idx r < RING_SIZE \<and> rb_pull_idx r < RING_SIZE"

subsection \<open>MsgQueue\<close>

record 'a msgq =
  mq_has_msg :: bool
  mq_locked :: bool
  mq_queue :: "'a list"

definition MsgQueue_new :: "'a msgq" where
  "MsgQueue_new = \<lparr>mq_has_msg = False, mq_locked = False, mq_queue = []\<rparr>"

definition mq_push :: "'a \<Rightarrow> 'a msgq \<Rightarrow> 'a msgq option" where
  "mq_push x q =
     (if mq_locked q then None
      else
        let q = q\<lparr>mq_locked := True\<rparr>;
            q = q\<lparr>mq_queue := mq_queue q @ [x]\<rparr>;
            q = q\<lparr>mq_has_msg := True\<rparr>
        in Some (q\<lparr>mq_locked := False\<rparr>))"

definition mq_pull :: "'a msgq \<Rightarrow> ('a res \<times> 'a msgq) option" where
  "mq_pull q =
     (if mq_locked q then None
      else
        let q = q\<lparr>mq_locked := True\<rparr>
        in (case mq_queue q of
              [] \<Rightarrow> Some (Inl (RunTimeError ''no data in queue''), q)
            | x # xs \<Rightarrow>
                let q = q\<lparr>mq_queue := xs\<rparr>;
                    q = (if xs = [] then q\<lparr>mq_has_msg := False\<rparr> else q)
                in Some (Inr x, q\<lparr>mq_locked := False\<rparr>)))"

text \<open>The pull of a client that looks at \<^verbatim>\<open>has_msg()\<close> first, as \<^verbatim>\<open>Kernel::thread_main\<close> does.\<close>

definition mq_next :: "'a msgq \<Rightarrow> ('a \<times> 'a msgq) option" where
  "mq_next q =
     (if \<not> mq_has_msg q then None
      else (case mq_pull q of Some (Inr x, q') \<Rightarrow> Some (x, q') | _ \<Rightarrow> None))"

definition mq_wf :: "'a msgq \<Rightarrow> bool" where
  "mq_wf q \<longleftrightarrow> \<not> mq_locked q \<and> (mq_has_msg q \<longleftrightarrow> mq_queue q \<noteq> [])"

subsection \<open>The ring is a bounded queue\<close>

lemma RING_SIZE_ge: "2 < RING_SIZE"
  by (simp add: RING_SIZE_def)

lemma ring_pos: "0 < RING_SIZE"
  using RING_SIZE_ge by simp

lemma mod_add_inj:
  assumes "x < n" "y < n" "(a + x) mod n = (a + y) mod (n :: nat)"
  shows "x = y"
  using assms
proof (induction x y rule: linorder_wlog)
  case (le x y)
  then have "n dvd y - x"
    using mod_eq_dvd_iff_nat [of "a + x" "a + y" n] by simp
  moreover have "y - x < n"
    using le by simp
  ultimately show ?case
    using le by (auto simp: nat_dvd_not_less dest: dvd_imp_le)
next
  case (sym x y)
  then show ?case by simp
qed

lemma push_idx_count:
  assumes "rb_wf r"
  shows "rb_push_idx r = (rb_pull_idx r + rb_count r) mod RING_SIZE"
proof -
  have "(rb_pull_idx r + rb_count r) mod RING_SIZE
      = (rb_pull_idx r + (rb_push_idx r + RING_SIZE - rb_pull_idx r)) mod RING_SIZE"
    by (simp add: rb_count_def mod_add_right_eq)
  also have "\<dots> = rb_push_idx r"
    using assms by (simp add: rb_wf_def)
  finally show ?thesis by simp
qed

lemma rb_count_less: "rb_count r < RING_SIZE"
  using ring_pos by (simp add: rb_count_def)

lemma count_unique:
  assumes "rb_wf r" "c < RING_SIZE" "rb_push_idx r = (rb_pull_idx r + c) mod RING_SIZE"
  shows "rb_count r = c"
  using mod_add_inj [OF rb_count_less assms(2), of "rb_pull_idx r" r]
    push_idx_count [OF assms(1)] assms(3) by simp

lemma rb_next_push:
  "rb_wf r \<Longrightarrow> rb_next (rb_push_idx r) = (rb_pull_idx r + Suc (rb_count r)) mod RING_SIZE"
  using push_idx_count [of r] by (simp add: rb_next_def mod_Suc_eq)

lemma rb_full_iff: "rb_wf r \<Longrightarrow> rb_full r \<longleftrightarrow> Suc (rb_count r) = RING_SIZE"
proof -
  assume wf: "rb_wf r"
  have "Suc (rb_count r) = RING_SIZE" if "rb_full r"
  proof (rule ccontr)
    assume "Suc (rb_count r) \<noteq> RING_SIZE"
    then have "Suc (rb_count r) < RING_SIZE"
      using rb_count_less [of r] by simp
    moreover have "(rb_pull_idx r + Suc (rb_count r)) mod RING_SIZE = (rb_pull_idx r + 0) mod RING_SIZE"
      using that wf rb_next_push [OF wf] by (simp add: rb_full_def rb_wf_def)
    ultimately show False
      using mod_add_inj [of "Suc (rb_count r)" RING_SIZE 0 "rb_pull_idx r"] ring_pos by simp
  qed
  moreover have "rb_full r" if "Suc (rb_count r) = RING_SIZE"
    using wf rb_next_push [OF wf] unfolding that by (simp add: rb_full_def rb_wf_def)
  ultimately show ?thesis by blast
qed

lemma rb_empty_iff: "rb_wf r \<Longrightarrow> rb_empty r \<longleftrightarrow> rb_count r = 0"
proof -
  assume wf: "rb_wf r"
  have "rb_empty r \<longleftrightarrow>
      (rb_pull_idx r + 1) mod RING_SIZE = (rb_pull_idx r + Suc (rb_count r)) mod RING_SIZE"
    using rb_next_push [OF wf] by (simp add: rb_empty_def rb_next_def)
  also have "\<dots> \<longleftrightarrow> (Suc (rb_pull_idx r) + 0) mod RING_SIZE = (Suc (rb_pull_idx r) + rb_count r) mod RING_SIZE"
    by simp
  also have "\<dots> \<longleftrightarrow> rb_count r = 0"
    using mod_add_inj [OF ring_pos rb_count_less, of "Suc (rb_pull_idx r)" r] by auto
  finally show ?thesis .
qed

lemma rb_push_wf: "rb_wf r \<Longrightarrow> rb_wf (rb_push x r)"
  using ring_pos by (simp add: rb_wf_def rb_push_def rb_next_def Let_def)

lemma rb_push_count: "rb_wf r \<Longrightarrow> \<not> rb_full r \<Longrightarrow> rb_count (rb_push x r) = Suc (rb_count r)"
proof -
  assume wf: "rb_wf r" and "\<not> rb_full r"
  then have "Suc (rb_count r) < RING_SIZE"
    using rb_count_less [of r] by (simp add: rb_full_iff)
  then show ?thesis
    using rb_push_wf [OF wf] rb_next_push [OF wf]
    by (intro count_unique) (simp_all add: rb_push_def Let_def)
qed

lemma rb_push_slot_fresh:
  assumes "rb_wf r" "\<not> rb_full r" "i < rb_count r"
  shows "(rb_pull_idx r + Suc i) mod RING_SIZE \<noteq> rb_next (rb_push_idx r)"
proof
  assume "(rb_pull_idx r + Suc i) mod RING_SIZE = rb_next (rb_push_idx r)"
  then have "(rb_pull_idx r + Suc i) mod RING_SIZE = (rb_pull_idx r + Suc (rb_count r)) mod RING_SIZE"
    using rb_next_push [OF assms(1)] by simp
  moreover have "Suc (rb_count r) < RING_SIZE"
    using assms(1,2) rb_count_less [of r] by (simp add: rb_full_iff)
  ultimately have "Suc i = Suc (rb_count r)"
    using assms(3) by (intro mod_add_inj [of "Suc i" RING_SIZE _ "rb_pull_idx r"]) simp_all
  with assms(3) show False by simp
qed

lemma rb_push_contents:
  assumes "rb_wf r" "\<not> rb_full r"
  shows "rb_contents (rb_push x r) = rb_contents r @ [x]"
proof -
  let ?n = "rb_next (rb_push_idx r)"
  have "rb_contents (rb_push x r)
      = map (\<lambda>i. ((rb_ring r)(?n := x)) ((rb_pull_idx r + Suc i) mod RING_SIZE)) [0..<Suc (rb_count r)]"
    by (simp add: rb_contents_def rb_push_count [OF assms]) (simp add: rb_push_def Let_def)
  also have "\<dots> = rb_contents r @ [x]"
    using rb_push_slot_fresh [OF assms] rb_next_push [OF assms(1)]
    by (auto simp: rb_contents_def)
  finally show ?thesis .
qed

lemma rb_take_count:
  assumes "rb_wf r" "rb_count r = Suc c"
  shows "rb_wf (snd (rb_take r))" "rb_count (snd (rb_take r)) = c"
proof -
  show wf: "rb_wf (snd (rb_take r))"
    using assms ring_pos by (simp add: rb_wf_def rb_take_def rb_next_def Let_def)
  show "rb_count (snd (rb_take r)) = c"
    using wf push_idx_count [OF assms(1)] assms(2) rb_count_less [of r]
    by (intro count_unique) (simp_all add: rb_take_def rb_next_def Let_def mod_add_left_eq)
qed

lemma next_slot: "Suc (Suc a mod n + i) mod n = Suc (Suc (a + i)) mod (n :: nat)"
  by (metis add_Suc mod_Suc_eq mod_add_left_eq)

lemma rb_take_contents:
  assumes "rb_wf r" "rb_count r = Suc c"
  shows "rb_contents r = fst (rb_take r) # rb_contents (snd (rb_take r))"
proof -
  have "rb_contents (snd (rb_take r))
      = map (\<lambda>i. rb_ring r ((rb_pull_idx r + Suc (Suc i)) mod RING_SIZE)) [0..<c]"
    by (simp add: rb_contents_def rb_take_count(2) [OF assms])
      (simp add: rb_take_def rb_next_def Let_def next_slot)
  moreover have "fst (rb_take r) = rb_ring r ((rb_pull_idx r + Suc 0) mod RING_SIZE)"
    by (simp add: rb_take_def rb_next_def Let_def)
  ultimately show ?thesis
    using assms(2) by (simp add: rb_contents_def upt_conv_Cons map_Suc_upt [symmetric] del: upt_Suc)
qed

interpretation rb: fifo rb_contents "\<lambda>r. \<not> rb_full r" rb_push rb_pull rb_wf
proof (unfold_locales, goal_cases)
  case (3 r)
  then have "rb_count r = 0" by (simp add: rb_contents_def)
  with 3 show ?case by (simp add: rb_pull_def rb_empty_iff)
next
  case (4 r x xs)
  then obtain c where c: "rb_count r = Suc c"
    by (cases "rb_count r") (simp_all add: rb_contents_def)
  with 4 rb_take_contents [OF 4(1) c] rb_take_count(1) [OF 4(1) c] show ?case
    by (simp add: rb_pull_def rb_empty_iff) (metis prod.collapse)
qed (simp_all add: rb_push_contents rb_push_wf)

lemma rb_contents_length [simp]: "length (rb_contents r) = rb_count r"
  by (simp add: rb_contents_def)

lemma RingBuffer_new_wf: "rb_wf (RingBuffer_new objs)" "rb_contents (RingBuffer_new objs) = []"
  using ring_pos by (simp_all add: RingBuffer_new_def rb_wf_def rb_contents_def rb_count_def)

lemma rb_view_frame [simp]:
  "rb_contents (rb_close r) = rb_contents r" "rb_wf (rb_close r) = rb_wf r"
  "rb_contents (snd (rb_retain_wait (w, r))) = rb_contents r"
  "rb_wf (snd (rb_retain_wait (w, r))) = rb_wf r"
  "rb_contents (snd (rb_pull_turn (w, r))) = rb_contents r"
  "rb_wf (snd (rb_pull_turn (w, r))) = rb_wf r"
  by (simp_all add: rb_close_def rb_retain_wait_def rb_pull_turn_def rb_contents_def rb_wf_def
      rb_count_def)

text \<open>The sleeping times: both loops reach a longest time after ten, respectively twenty, turns and keep it.\<close>

definition retain_sleep :: "nat \<Rightarrow> 'a ring \<Rightarrow> 32 word" where
  "retain_sleep n r = fst ((rb_retain_wait ^^ n) (100, r))"

definition pull_sleep :: "nat \<Rightarrow> 'a ring \<Rightarrow> 32 word" where
  "pull_sleep n r = fst ((rb_pull_turn ^^ n) (1, r))"

lemma retain_sleep_Suc:
  "retain_sleep (Suc n) r = (if retain_sleep n r < 0xffff then retain_sleep n r * 2 else retain_sleep n r)"
  by (simp add: retain_sleep_def rb_retain_wait_def split: prod.splits)

lemma pull_sleep_Suc:
  "pull_sleep (Suc n) r =
     (if pull_sleep n r AND 0xfffff \<noteq> 0 then push_bit 1 (pull_sleep n r) else pull_sleep n r)"
  by (simp add: pull_sleep_def rb_pull_turn_def split: prod.splits)

lemma retain_sleep_eq: "retain_sleep n r = 100 * 2 ^ min n 10"
proof (induction n)
  case 0
  show ?case by (simp add: retain_sleep_def)
next
  case (Suc n)
  consider "n \<in> set [0..<10]" | "10 \<le> n" by fastforce
  then show ?case
  proof cases
    case 1
    then show ?thesis
      using Suc by (auto simp: retain_sleep_Suc upt_conv_Cons)
  next
    case 2
    then show ?thesis
      using Suc by (simp add: retain_sleep_Suc min_def)
  qed
qed

lemma pull_sleep_eq: "pull_sleep n r = 2 ^ min n 20"
proof (induction n)
  case 0
  show ?case by (simp add: pull_sleep_def)
next
  case (Suc n)
  consider "n \<in> set [0..<20]" | "20 \<le> n" by fastforce
  then show ?case
  proof cases
    case 1
    then show ?thesis
      using Suc by (auto simp: pull_sleep_Suc upt_conv_Cons)
  next
    case 2
    then show ?thesis
      using Suc by (simp add: pull_sleep_Suc min_def)
  qed
qed

subsection \<open>The message queue\<close>

lemma mq_push_wf: "mq_wf q \<Longrightarrow> mq_wf (the (mq_push x q))"
  by (simp add: mq_wf_def mq_push_def Let_def)

interpretation mq: fifo mq_queue "\<lambda>_. True" "\<lambda>x q. the (mq_push x q)" mq_next mq_wf
  by unfold_locales
    (auto simp: mq_wf_def mq_push_def mq_next_def mq_pull_def Let_def split: list.splits)

subsection \<open>Properties\<close>

text \<open>
  C38: \<^verbatim>\<open>MsgQueue::pull\<close> on an empty queue raises a \<^verbatim>\<open>RunTimeError\<close> and leaves the mutex locked: no later \<^verbatim>\<open>push\<close>
  or \<^verbatim>\<open>pull\<close> returns. On a queue that holds a message it returns the oldest one and unlocks, and \<^verbatim>\<open>has_msg_\<close> says
  whether another one is there.
\<close>

theorem msgq_pull_behaviour:
  assumes "mq_wf q"
  shows "(mq_queue q = [] \<longrightarrow>
            (\<exists>q'. mq_pull q = Some (Inl (RunTimeError ''no data in queue''), q')
                 \<and> (\<forall>x. mq_push x q' = None) \<and> mq_pull q' = None))
       \<and> (\<forall>x xs. mq_queue q = x # xs \<longrightarrow>
            (\<exists>q'. mq_pull q = Some (Inr x, q') \<and> mq_queue q' = xs \<and> mq_wf q'
                 \<and> (mq_has_msg q' \<longleftrightarrow> xs \<noteq> [])))"
  using assms by (auto simp: mq_wf_def mq_pull_def mq_push_def Let_def)

theorem msgq_pull_behaviour_witness:
  "\<exists>q'. mq_pull (MsgQueue_new :: nat msgq) = Some (Inl (RunTimeError ''no data in queue''), q')
     \<and> mq_pull q' = None"
  using msgq_pull_behaviour [of "MsgQueue_new :: nat msgq"] by (auto simp: mq_wf_def MsgQueue_new_def)

text \<open>
  The waiting loops of the ring back off exponentially and then keep their period: after \<open>n\<close> turns \<^verbatim>\<open>retain\<close>
  sleeps \<open>100 * 2^min n 10\<close> microseconds, 102400 at most, and \<^verbatim>\<open>pull\<close> sleeps \<open>2^min n 20\<close>, 1048576 at most;
  the 32-bit counters do not wrap.
\<close>

theorem ring_backoff:
  "unat (retain_sleep n r) = 100 * 2 ^ min n 10 \<and> unat (pull_sleep n r) = 2 ^ min n 20"
proof -
  have "(2 :: nat) ^ min n 10 \<le> 2 ^ 10" "(2 :: nat) ^ min n 20 \<le> 2 ^ 20"
    by (rule power_increasing; simp)+
  then have le: "100 * 2 ^ min n 10 < (2 :: nat) ^ 32" "2 ^ min n 20 < (2 :: nat) ^ 32"
    by simp_all
  have "unat (of_nat (100 * 2 ^ min n 10) :: 32 word) = 100 * 2 ^ min n 10"
    "unat (of_nat (2 ^ min n 20) :: 32 word) = 2 ^ min n 20"
    using le by (simp_all only: unat_of_nat len_num1 len_bit0 len_bit1 mod_less) simp_all
  then show ?thesis
    by (simp add: retain_sleep_eq pull_sleep_eq)
qed

end
