(* ===== verification/PM_Kernel.thy ===== *)
theory PM_Kernel
  imports PM_Channel PM_Decoder "HOL-Library.Sublist"
begin

text \<open>
  \<^verbatim>\<open>src/kernel.hpp\<close>, \<^verbatim>\<open>src/kernel.cc\<close> and the class \<^verbatim>\<open>Handler\<close> of \<^verbatim>\<open>src/packetmachine.cc\<close>: registration of event handlers
  and their dispatch after each packet. A \<^verbatim>\<open>HandlerPtr\<close> is the id of its \<^verbatim>\<open>HandlerEntity\<close>, which is unique because
  \<^verbatim>\<open>on\<close> takes it from a counter; \<open>kn_ents\<close> holds the objects. While the kernel runs, registrations and removals
  are requests in the message queue, carried out between two packets. A callback is user code: the parameter
  \<open>cb\<close> says what the callback of a handler does to the kernel. \<open>kn_calls\<close> records which callbacks were called.
\<close>

subsection \<open>State\<close>

record entity =
  he_ev_id :: event_id
  he_active :: bool
  he_destroyed :: bool

datatype change_request = AddHandler hdlr_id | DeleteHandler hdlr_id

record kernel =
  kn_handlers :: "hdlr_id option list list"
  kn_map :: "(hdlr_id, hdlr_id) smap"
  kn_ents :: "hdlr_id \<Rightarrow> entity option"
  kn_global_id :: hdlr_id
  kn_running :: bool
  kn_msgs :: "change_request msgq"
  kn_recv_pkt :: "64 word"
  kn_recv_size :: "64 word"
  kn_calls :: "hdlr_id list"

definition Kernel_new :: "nat \<Rightarrow> kernel" where
  "Kernel_new event_size =
     \<lparr>kn_handlers = replicate event_size [], kn_map = [], kn_ents = (\<lambda>_. None), kn_global_id = 0,
      kn_running = False, kn_msgs = MsgQueue_new, kn_recv_pkt = 0, kn_recv_size = 0, kn_calls = []\<rparr>"

subsection \<open>HandlerEntity\<close>

definition HandlerEntity_new :: "event_id \<Rightarrow> entity" where
  "HandlerEntity_new ev = \<lparr>he_ev_id = ev, he_active = True, he_destroyed = False\<rparr>"

definition entity_activate :: "entity \<Rightarrow> bool \<times> entity" where
  "entity_activate e =
     (if he_destroyed e \<or> he_active e then (False, e) else (True, e\<lparr>he_active := True\<rparr>))"

definition entity_deactivate :: "entity \<Rightarrow> bool \<times> entity" where
  "entity_deactivate e =
     (if he_destroyed e \<or> \<not> he_active e then (False, e) else (True, e\<lparr>he_active := False\<rparr>))"

definition entity_destroy :: "entity \<Rightarrow> bool \<times> entity" where
  "entity_destroy e =
     (if he_destroyed e then (False, e) else (True, e\<lparr>he_active := False, he_destroyed := True\<rparr>))"

text \<open>A member call through a \<^verbatim>\<open>HandlerPtr\<close>.\<close>

definition call_entity :: "(entity \<Rightarrow> bool \<times> entity) \<Rightarrow> hdlr_id \<Rightarrow> kernel \<Rightarrow> (bool \<times> kernel) res" where
  "call_entity f h k =
     (case kn_ents k h of
        None \<Rightarrow> Inl UndefinedBehaviour
      | Some e \<Rightarrow> (case f e of (b, e') \<Rightarrow> Inr (b, k\<lparr>kn_ents := (kn_ents k)(h \<mapsto> e')\<rparr>)))"

subsection \<open>Adding and removing handlers\<close>

definition event_slot :: "event_id \<Rightarrow> kernel \<Rightarrow> nat res" where
  "event_slot ev k =
     (if 0 \<le> ev \<and> nat ev < length (kn_handlers k) then Inr (nat ev) else Inl UndefinedBehaviour)"

definition add_handler :: "hdlr_id \<Rightarrow> kernel \<Rightarrow> (bool \<times> kernel) res" where
  "add_handler h k =
     (case kn_ents k h of
        None \<Rightarrow> Inl UndefinedBehaviour
      | Some e \<Rightarrow>
          bind_res (event_slot (he_ev_id e) k) (\<lambda>i.
            Inr (True, k\<lparr>kn_map := smap_insert h h (kn_map k),
                         kn_handlers := (kn_handlers k)[i := kn_handlers k ! i @ [Some h]]\<rparr>)))"

definition delete_handler :: "hdlr_id \<Rightarrow> kernel \<Rightarrow> (bool \<times> kernel) res" where
  "delete_handler h k =
     (case kn_ents k h of
        None \<Rightarrow> Inl UndefinedBehaviour
      | Some e \<Rightarrow>
          bind_res (event_slot (he_ev_id e) k) (\<lambda>i.
            if Some h \<notin> set (kn_handlers k ! i) then Inr (False, k)
            else
              bind_res (call_entity entity_destroy h k) (\<lambda>(_, k).
                Inr (True, k\<lparr>kn_handlers := (kn_handlers k)[i := remove1 (Some h) (kn_handlers k ! i)]\<rparr>))))"

text \<open>The loop of \<^verbatim>\<open>clear(hdlr_id)\<close>: the first entry with the id becomes \<^verbatim>\<open>nullptr\<close>.\<close>

fun clear_entry :: "hdlr_id \<Rightarrow> hdlr_id option list \<Rightarrow> hdlr_id option list" where
  "clear_entry h [] = []"
| "clear_entry h (x # xs) = (if x = Some h then None # xs else x # clear_entry h xs)"

definition clear_hid :: "hdlr_id \<Rightarrow> kernel \<Rightarrow> (bool \<times> kernel) res" where
  "clear_hid h k =
     (case smap_find (kn_map k) h of
        None \<Rightarrow> Inr (False, k)
      | Some p \<Rightarrow>
          (case kn_ents k p of
             None \<Rightarrow> Inl UndefinedBehaviour
           | Some e \<Rightarrow>
               bind_res (event_slot (he_ev_id e) k) (\<lambda>i.
                 Inr (True, k\<lparr>kn_map := smap_erase h (kn_map k),
                              kn_handlers := (kn_handlers k)[i := clear_entry p (kn_handlers k ! i)]\<rparr>))))"

text \<open>A push into the message queue; \<open>None\<close>: the call does not return.\<close>

definition send_request :: "change_request \<Rightarrow> kernel \<Rightarrow> kernel option" where
  "send_request r k = map_option (\<lambda>q. k\<lparr>kn_msgs := q\<rparr>) (mq_push r (kn_msgs k))"

definition clear_ptr :: "hdlr_id \<Rightarrow> kernel \<Rightarrow> (bool \<times> kernel) res option" where
  "clear_ptr h k =
     (if kn_running k then map_option (\<lambda>k'. Inr (True, k')) (send_request (DeleteHandler h) k)
      else Some (delete_handler h k))"

definition kernel_on :: "(string \<Rightarrow> event_id) \<Rightarrow> string \<Rightarrow> kernel \<Rightarrow> (hdlr_id \<times> kernel) res option" where
  "kernel_on lookup event_name k =
     (let eid = lookup event_name
      in if eid = Event_NONE then Some (Inl (RunTimeError (''no such event: '' @ event_name)))
         else
           let hid = kn_global_id k + 1;
               k = k\<lparr>kn_global_id := hid, kn_ents := (kn_ents k)(hid \<mapsto> HandlerEntity_new eid)\<rparr>
           in if kn_running k then map_option (\<lambda>k'. Inr (hid, k')) (send_request (AddHandler hid) k)
              else Some (bind_res (add_handler hid k) (\<lambda>(_, k'). Inr (hid, k'))))"

subsection \<open>The main loop\<close>

fun change :: "change_request \<Rightarrow> kernel \<Rightarrow> (bool \<times> kernel) res" where
  "change (AddHandler h) k = add_handler h k"
| "change (DeleteHandler h) k = delete_handler h k"

text \<open>The loop over the queue. Each turn takes one request, so there are at most as many turns as requests;
  \<open>None\<close>: the mutex is held and \<^verbatim>\<open>pull\<close> does not return.\<close>

fun handle_requests :: "nat \<Rightarrow> kernel \<Rightarrow> kernel res option" where
  "handle_requests fuel k =
     (if \<not> mq_has_msg (kn_msgs k) then Some (Inr k)
      else
        (case fuel of
           0 \<Rightarrow> None
         | Suc fuel \<Rightarrow>
             (case mq_pull (kn_msgs k) of
                None \<Rightarrow> None
              | Some (Inl e, q) \<Rightarrow> Some (Inl e)
              | Some (Inr r, q) \<Rightarrow>
                  (case change r (k\<lparr>kn_msgs := q\<rparr>) of
                     Inl e \<Rightarrow> Some (Inl e)
                   | Inr (_, k) \<Rightarrow> handle_requests fuel k))))"

fun run_entries :: "(hdlr_id \<Rightarrow> kernel \<Rightarrow> kernel) \<Rightarrow> hdlr_id option list \<Rightarrow> kernel \<Rightarrow> kernel res" where
  "run_entries cb [] k = Inr k"
| "run_entries cb (None # hs) k = run_entries cb hs k"
| "run_entries cb (Some h # hs) k =
     (case kn_ents k h of
        None \<Rightarrow> Inl UndefinedBehaviour
      | Some e \<Rightarrow>
          run_entries cb hs (if he_active e then (cb h k)\<lparr>kn_calls := kn_calls k @ [h]\<rparr> else k))"

fun run_events :: "(hdlr_id \<Rightarrow> kernel \<Rightarrow> kernel) \<Rightarrow> event_id list \<Rightarrow> kernel \<Rightarrow> kernel res" where
  "run_events cb [] k = Inr k"
| "run_events cb (ev # evs) k =
     bind_res (event_slot ev k) (\<lambda>i. bind_res (run_entries cb (kn_handlers k ! i) k) (run_events cb evs))"

text \<open>One turn of \<^verbatim>\<open>thread_main\<close>, for a packet of captured length \<open>cap_len\<close> whose decoding pushed \<open>evs\<close>.\<close>

definition kernel_turn ::
  "(hdlr_id \<Rightarrow> kernel \<Rightarrow> kernel) \<Rightarrow> 64 word \<Rightarrow> event_id list \<Rightarrow> kernel \<Rightarrow> kernel res option" where
  "kernel_turn cb cap_len evs k =
     (case run_events cb evs (k\<lparr>kn_recv_pkt := kn_recv_pkt k + 1, kn_recv_size := kn_recv_size k + cap_len\<rparr>) of
        Inl e \<Rightarrow> Some (Inl e)
      | Inr k \<Rightarrow> handle_requests (length (mq_queue (kn_msgs k))) k)"

text \<open>\<^verbatim>\<open>thread_main\<close> over the packets that \<^verbatim>\<open>pull\<close> gives before it gives \<^verbatim>\<open>nullptr\<close>: a packet is its captured length
  and the events its decoding pushed.\<close>

fun kernel_turns ::
  "(hdlr_id \<Rightarrow> kernel \<Rightarrow> kernel) \<Rightarrow> (64 word \<times> event_id list) list \<Rightarrow> kernel \<Rightarrow> kernel res option" where
  "kernel_turns cb [] k = Some (Inr k)"
| "kernel_turns cb ((cap_len, evs) # pkts) k =
     (case kernel_turn cb cap_len evs k of
        Some (Inr k) \<Rightarrow> kernel_turns cb pkts k
      | r \<Rightarrow> r)"

definition kernel_thread_main ::
  "(hdlr_id \<Rightarrow> kernel \<Rightarrow> kernel) \<Rightarrow> (64 word \<times> event_id list) list \<Rightarrow> kernel \<Rightarrow> kernel res option" where
  "kernel_thread_main cb pkts k =
     (case kernel_turns cb pkts (k\<lparr>kn_running := True\<rparr>) of
        Some (Inr k) \<Rightarrow> Some (Inr (k\<lparr>kn_running := False\<rparr>))
      | r \<Rightarrow> r)"

subsection \<open>Handler\<close>

text \<open>
  The user's \<^verbatim>\<open>Handler\<close> holds weak pointers. The entity lives as long as the map, an event's list or a request refers to
  it, and the kernel as long as its machine; \<open>None\<close> is a kernel that is gone.
\<close>

definition request_of :: "change_request \<Rightarrow> hdlr_id" where
  "request_of r = (case r of AddHandler h \<Rightarrow> h | DeleteHandler h \<Rightarrow> h)"

definition entity_alive :: "hdlr_id \<Rightarrow> kernel \<Rightarrow> bool" where
  "entity_alive h k \<longleftrightarrow> kn_ents k h \<noteq> None
     \<and> (h \<in> snd ` set (kn_map k) \<or> (\<exists>hs \<in> set (kn_handlers k). Some h \<in> set hs)
         \<or> h \<in> request_of ` set (mq_queue (kn_msgs k)))"

definition Handler_is_active :: "hdlr_id \<Rightarrow> kernel option \<Rightarrow> bool" where
  "Handler_is_active h ko =
     (case ko of
        None \<Rightarrow> False
      | Some k \<Rightarrow> entity_alive h k \<and> (case kn_ents k h of None \<Rightarrow> False | Some e \<Rightarrow> he_active e))"

definition Handler_call :: "(entity \<Rightarrow> bool \<times> entity) \<Rightarrow> hdlr_id \<Rightarrow> kernel \<Rightarrow> (bool \<times> kernel) res" where
  "Handler_call f h k = (if entity_alive h k then call_entity f h k else Inr (False, k))"

definition Handler_destroy :: "hdlr_id \<Rightarrow> kernel \<Rightarrow> (bool \<times> kernel) res option" where
  "Handler_destroy h k = (if entity_alive h k then clear_ptr h k else Some (Inr (False, k)))"

subsection \<open>The user's calls\<close>

text \<open>A callback, and the threads that hold a \<^verbatim>\<open>Machine\<close>, act on the kernel by these calls; an exception of \<^verbatim>\<open>on\<close> leaves the
  kernel unchanged.\<close>

datatype user_op = UOn string | UDestroy hdlr_id | UActivate hdlr_id | UDeactivate hdlr_id

fun user_step :: "(string \<Rightarrow> event_id) \<Rightarrow> user_op \<Rightarrow> kernel \<Rightarrow> kernel" where
  "user_step lookup (UOn name) k = (case kernel_on lookup name k of Some (Inr (_, k')) \<Rightarrow> k' | _ \<Rightarrow> k)"
| "user_step lookup (UDestroy h) k = (case Handler_destroy h k of Some (Inr (_, k')) \<Rightarrow> k' | _ \<Rightarrow> k)"
| "user_step lookup (UActivate h) k = (case Handler_call entity_activate h k of Inr (_, k') \<Rightarrow> k' | Inl _ \<Rightarrow> k)"
| "user_step lookup (UDeactivate h) k = (case Handler_call entity_deactivate h k of Inr (_, k') \<Rightarrow> k' | Inl _ \<Rightarrow> k)"

definition user_prog :: "(string \<Rightarrow> event_id) \<Rightarrow> (hdlr_id \<Rightarrow> user_op list) \<Rightarrow> hdlr_id \<Rightarrow> kernel \<Rightarrow> kernel" where
  "user_prog lookup prog h k = fold (user_step lookup) (prog h) k"

subsection \<open>The invariant\<close>

fun is_add :: "change_request \<Rightarrow> bool" where
  "is_add (AddHandler _) = True"
| "is_add (DeleteHandler _) = False"

text \<open>The entities: numbered by the counter, for an existing event, never active once destroyed.\<close>

definition ents_ok :: "nat \<Rightarrow> kernel \<Rightarrow> bool" where
  "ents_ok n k \<longleftrightarrow> (\<forall>h e. kn_ents k h = Some e \<longrightarrow>
     h \<le> kn_global_id k \<and> 0 \<le> he_ev_id e \<and> nat (he_ev_id e) < n \<and> \<not> (he_active e \<and> he_destroyed e))"

text \<open>The event of a handler that is not destroyed.\<close>

definition live_event :: "kernel \<Rightarrow> hdlr_id \<Rightarrow> nat option" where
  "live_event k h =
     (case kn_ents k h of None \<Rightarrow> None | Some e \<Rightarrow> if he_destroyed e then None else Some (nat (he_ev_id e)))"

text \<open>The lists: handlers of the right event, not destroyed, each once.\<close>

definition lists_ok :: "nat \<Rightarrow> kernel \<Rightarrow> bool" where
  "lists_ok n k \<longleftrightarrow> length (kn_handlers k) = n
     \<and> (\<forall>i < n. \<forall>h. Some h \<in> set (kn_handlers k ! i) \<longrightarrow> live_event k h = Some i)
     \<and> (\<forall>i < n. distinct (filter (\<lambda>x. x \<noteq> None) (kn_handlers k ! i)))"

text \<open>The requests: about existing entities; one to be added is not in a list, not destroyed, and asked for once.\<close>

definition queue_ok :: "kernel \<Rightarrow> bool" where
  "queue_ok k \<longleftrightarrow> mq_wf (kn_msgs k)
     \<and> (\<forall>r \<in> set (mq_queue (kn_msgs k)). kn_ents k (request_of r) \<noteq> None)
     \<and> (\<forall>h. AddHandler h \<in> set (mq_queue (kn_msgs k)) \<longrightarrow>
          (\<forall>i < length (kn_handlers k). Some h \<notin> set (kn_handlers k ! i))
          \<and> live_event k h \<noteq> None)
     \<and> distinct (filter is_add (mq_queue (kn_msgs k)))"

definition kernel_inv :: "nat \<Rightarrow> kernel \<Rightarrow> bool" where
  "kernel_inv n k \<longleftrightarrow> ents_ok n k \<and> lists_ok n k \<and> queue_ok k"

lemmas kernel_inv_defs = kernel_inv_def ents_ok_def lists_ok_def queue_ok_def

lemma Kernel_new_inv: "kernel_inv n (Kernel_new n)"
  by (simp add: kernel_inv_defs Kernel_new_def MsgQueue_new_def mq_wf_def)

lemma live_event_upd [simp]:
  "live_event (k\<lparr>kn_calls := cs\<rparr>) = live_event k" "live_event (k\<lparr>kn_running := b\<rparr>) = live_event k"
  "live_event (k\<lparr>kn_recv_pkt := c\<rparr>) = live_event k" "live_event (k\<lparr>kn_recv_size := d\<rparr>) = live_event k"
  "live_event (k\<lparr>kn_map := m\<rparr>) = live_event k" "live_event (k\<lparr>kn_handlers := hs\<rparr>) = live_event k"
  "live_event (k\<lparr>kn_msgs := q\<rparr>) = live_event k" "live_event (k\<lparr>kn_global_id := g\<rparr>) = live_event k"
  by (simp_all add: live_event_def fun_eq_iff)

lemma live_event_ents:
  "live_event (k\<lparr>kn_ents := (kn_ents k)(h \<mapsto> e)\<rparr>) =
     (live_event k)(h := if he_destroyed e then None else Some (nat (he_ev_id e)))"
  by (simp add: live_event_def fun_eq_iff)

lemma kernel_inv_upd [simp]:
  "kernel_inv n (k\<lparr>kn_calls := cs\<rparr>) = kernel_inv n k" "kernel_inv n (k\<lparr>kn_running := b\<rparr>) = kernel_inv n k"
  "kernel_inv n (k\<lparr>kn_recv_pkt := c\<rparr>) = kernel_inv n k" "kernel_inv n (k\<lparr>kn_recv_size := d\<rparr>) = kernel_inv n k"
  "kernel_inv n (k\<lparr>kn_map := m\<rparr>) = kernel_inv n k"
  by (simp_all add: kernel_inv_defs)

text \<open>Setting the flags of an entity, as \<^verbatim>\<open>activate\<close> and \<^verbatim>\<open>deactivate\<close> do.\<close>

lemma entity_flags_inv:
  assumes "kernel_inv n k" "kn_ents k h = Some e" "he_ev_id e' = he_ev_id e" "he_destroyed e' = he_destroyed e"
    "\<not> (he_active e' \<and> he_destroyed e')"
  shows "kernel_inv n (k\<lparr>kn_ents := (kn_ents k)(h \<mapsto> e')\<rparr>)"
proof -
  let ?k = "k\<lparr>kn_ents := (kn_ents k)(h \<mapsto> e')\<rparr>"
  have "live_event ?k = live_event k"
    using assms(2-4) by (auto simp: live_event_ents fun_eq_iff) (simp_all add: live_event_def)
  then have "lists_ok n ?k" "queue_ok ?k"
    using assms(1) by (auto simp: kernel_inv_def lists_ok_def queue_ok_def)
  moreover have "ents_ok n ?k"
    using assms by (auto simp: kernel_inv_def ents_ok_def)
  ultimately show ?thesis by (simp add: kernel_inv_def)
qed

lemma Handler_call_inv:
  assumes "kernel_inv n k" "f \<in> {entity_activate, entity_deactivate}" "Handler_call f h k = Inr (b, k')"
  shows "kernel_inv n k'"
proof (cases "entity_alive h k")
  case True
  with assms(3) obtain e where e: "kn_ents k h = Some e" "k' = k\<lparr>kn_ents := (kn_ents k)(h \<mapsto> snd (f e))\<rparr>"
    by (auto simp: Handler_call_def call_entity_def split: option.splits prod.splits)
  have "\<not> (he_active e \<and> he_destroyed e)"
    using assms(1) e(1) by (auto simp: kernel_inv_def ents_ok_def)
  then show ?thesis
    unfolding e(2) using assms(2)
    by (intro entity_flags_inv [OF assms(1) e(1)])
      (auto simp: entity_activate_def entity_deactivate_def split: if_splits)
qed (use assms in \<open>simp add: Handler_call_def\<close>)

text \<open>The counters, the running flag and the record of the calls.\<close>

definition same_run :: "kernel \<Rightarrow> kernel \<Rightarrow> bool" where
  "same_run k k' \<longleftrightarrow> kn_global_id k' = kn_global_id k \<and> kn_calls k' = kn_calls k \<and> kn_running k' = kn_running k
     \<and> kn_recv_pkt k' = kn_recv_pkt k \<and> kn_recv_size k' = kn_recv_size k"

lemma same_run_trans: "same_run k k' \<Longrightarrow> same_run k' k'' \<Longrightarrow> same_run k k''"
  by (simp add: same_run_def)

lemma add_handler_inv:
  assumes "kernel_inv n k" "kn_ents k h = Some e" "\<not> he_destroyed e"
    "\<And>i. i < n \<Longrightarrow> Some h \<notin> set (kn_handlers k ! i)" "AddHandler h \<notin> set (mq_queue (kn_msgs k))"
  shows "\<exists>k'. add_handler h k = Inr (True, k') \<and> kernel_inv n k' \<and> kn_msgs k' = kn_msgs k \<and> kn_ents k' = kn_ents k
    \<and> same_run k k'
    \<and> kn_handlers k' = (kn_handlers k)[nat (he_ev_id e) := kn_handlers k ! nat (he_ev_id e) @ [Some h]]"
proof -
  let ?i = "nat (he_ev_id e)"
  let ?k = "k\<lparr>kn_map := smap_insert h h (kn_map k), kn_handlers := (kn_handlers k)[?i := kn_handlers k ! ?i @ [Some h]]\<rparr>"
  have i: "0 \<le> he_ev_id e" "?i < n" "length (kn_handlers k) = n"
    using assms(1,2) by (auto simp: kernel_inv_defs)
  have "live_event k h = Some ?i"
    using assms(2,3) by (simp add: live_event_def)
  then have "lists_ok n ?k"
    using assms i by (auto simp: kernel_inv_def lists_ok_def nth_list_update)
  moreover have "queue_ok ?k"
    using assms i by (auto simp: kernel_inv_def queue_ok_def nth_list_update)
  moreover have "ents_ok n ?k"
    using assms(1) by (simp add: kernel_inv_def ents_ok_def)
  ultimately show ?thesis
    using assms(2) i by (simp add: add_handler_def event_slot_def kernel_inv_def same_run_def)
qed

lemma remove1_gone: "distinct (filter (\<lambda>x. x \<noteq> None) xs) \<Longrightarrow> Some h \<notin> set (remove1 (Some h) xs)"
  by (induction xs) (auto split: if_splits)

lemma remove1_distinct: "distinct (filter P xs) \<Longrightarrow> distinct (filter P (remove1 y xs))"
  by (induction xs) (auto dest: subsetD [OF set_remove1_subset])

lemma delete_handler_inv:
  assumes "kernel_inv n k" "kn_ents k h = Some e"
  shows "\<exists>b k'. delete_handler h k = Inr (b, k') \<and> kernel_inv n k' \<and> kn_msgs k' = kn_msgs k
    \<and> same_run k k'
    \<and> kn_handlers k' = (kn_handlers k)[nat (he_ev_id e) := remove1 (Some h) (kn_handlers k ! nat (he_ev_id e))]
    \<and> (\<exists>e'. kn_ents k' = (kn_ents k)(h \<mapsto> e') \<and> he_ev_id e' = he_ev_id e \<and> (he_destroyed e \<longrightarrow> he_destroyed e'))
    \<and> (\<forall>i < n. set (kn_handlers k' ! i) \<subseteq> set (kn_handlers k ! i) - {Some h})
    \<and> (b \<longrightarrow> (\<exists>e'. kn_ents k' h = Some e' \<and> he_destroyed e')) \<and> (\<not> b \<longrightarrow> k' = k)"
proof -
  let ?i = "nat (he_ev_id e)"
  have i: "0 \<le> he_ev_id e" "?i < n" "length (kn_handlers k) = n"
    using assms by (auto simp: kernel_inv_defs)
  then have slot: "event_slot (he_ev_id e) k = Inr ?i"
    by (simp add: event_slot_def)
  have other: "Some h \<notin> set (kn_handlers k ! j)" if "j < n" "j \<noteq> ?i" for j
    using assms that by (fastforce simp: kernel_inv_def lists_ok_def live_event_def split: if_splits)
  show ?thesis
  proof (cases "Some h \<in> set (kn_handlers k ! ?i)")
    case False
    then have "delete_handler h k = Inr (False, k)"
      using assms(2) slot by (simp add: delete_handler_def)
    moreover have "\<forall>j < n. Some h \<notin> set (kn_handlers k ! j)"
      using False other by metis
    moreover have "kn_ents k = (kn_ents k)(h \<mapsto> e)"
      using assms(2) by (simp add: fun_upd_idem)
    ultimately show ?thesis
      using assms(1) False by (intro exI [of _ False] exI [of _ k]) (auto simp: same_run_def remove1_idem)
  next
    case True
    let ?e = "e\<lparr>he_active := False, he_destroyed := True\<rparr>"
    let ?k = "k\<lparr>kn_ents := (kn_ents k)(h \<mapsto> ?e), kn_handlers := (kn_handlers k)[?i := remove1 (Some h) (kn_handlers k ! ?i)]\<rparr>"
    have nd: "\<not> he_destroyed e"
      using assms True i by (fastforce simp: kernel_inv_def lists_ok_def live_event_def split: if_splits)
    have dist: "distinct (filter (\<lambda>x. x \<noteq> None) (kn_handlers k ! ?i))"
      using assms i by (simp add: kernel_inv_def lists_ok_def)
    note gone = remove1_gone [OF dist, of h]
    have "lists_ok n ?k"
      unfolding lists_ok_def
    proof (intro conjI allI impI)
      show "length (kn_handlers ?k) = n" using i by simp
    next
      fix j g assume j: "j < n" "Some g \<in> set (kn_handlers ?k ! j)"
      then have "Some g \<in> set (kn_handlers k ! j)" "g \<noteq> h"
        using gone other [of j] i
        by (auto simp: nth_list_update split: if_splits dest: subsetD [OF set_remove1_subset])
      then show "live_event ?k g = Some j"
        using assms(1) j(1) by (simp add: kernel_inv_def lists_ok_def live_event_ents)
    next
      fix j assume "j < n"
      then show "distinct (filter (\<lambda>x. x \<noteq> None) (kn_handlers ?k ! j))"
        using assms(1) i by (auto simp: kernel_inv_def lists_ok_def nth_list_update remove1_distinct)
    qed
    moreover have "AddHandler h \<notin> set (mq_queue (kn_msgs k))"
      using assms(1) True i by (auto simp: kernel_inv_def queue_ok_def)
    then have "queue_ok ?k"
      using assms(1) i
      by (auto simp: kernel_inv_def queue_ok_def nth_list_update live_event_ents dest: subsetD [OF set_remove1_subset])
    moreover have "ents_ok n ?k"
      using assms by (auto simp: kernel_inv_def ents_ok_def)
    moreover have "delete_handler h k = Inr (True, ?k)"
      using assms(2) True nd slot by (simp add: delete_handler_def call_entity_def entity_destroy_def)
    moreover have "set (kn_handlers ?k ! j) \<subseteq> set (kn_handlers k ! j) - {Some h}" if "j < n" for j
      using that gone other [OF that] i by (auto simp: nth_list_update dest: subsetD [OF set_remove1_subset])
    ultimately show ?thesis
      by (intro exI [of _ True] exI [of _ ?k]) (auto simp: kernel_inv_def same_run_def)
  qed
qed

subsection \<open>The user's calls keep the invariant\<close>

lemma fresh_id:
  assumes "kernel_inv n k" "kn_global_id k < h"
  shows "kn_ents k h = None" "live_event k h = None"
    "i < n \<Longrightarrow> Some h \<notin> set (kn_handlers k ! i)" "AddHandler h \<notin> set (mq_queue (kn_msgs k))"
proof -
  show none: "kn_ents k h = None"
    using assms by (cases "kn_ents k h") (fastforce simp: kernel_inv_def ents_ok_def)+
  then show live: "live_event k h = None"
    by (simp add: live_event_def)
  show "i < n \<Longrightarrow> Some h \<notin> set (kn_handlers k ! i)"
    using assms(1) live by (auto simp: kernel_inv_def lists_ok_def)
  show "AddHandler h \<notin> set (mq_queue (kn_msgs k))"
    using assms(1) live by (auto simp: kernel_inv_def queue_ok_def)
qed

lemma new_entity_inv:
  assumes "kernel_inv n k" "0 \<le> ev" "nat ev < n"
  shows "kernel_inv n (k\<lparr>kn_global_id := kn_global_id k + 1,
    kn_ents := (kn_ents k)(kn_global_id k + 1 \<mapsto> HandlerEntity_new ev)\<rparr>)" (is "kernel_inv n ?k")
proof -
  let ?h = "kn_global_id k + 1"
  note fresh = fresh_id [OF assms(1), of ?h, simplified]
  have live: "live_event ?k = (live_event k)(?h := Some (nat ev))"
    by (simp add: live_event_def HandlerEntity_new_def fun_eq_iff)
  have "ents_ok n ?k"
    using assms by (force simp: kernel_inv_def ents_ok_def HandlerEntity_new_def)
  moreover have "lists_ok n ?k"
    using assms(1) fresh unfolding kernel_inv_def lists_ok_def live by auto
  moreover have "queue_ok ?k"
    using assms(1) fresh unfolding kernel_inv_def queue_ok_def live by auto
  ultimately show ?thesis by (simp add: kernel_inv_def)
qed

text \<open>Sending a request: to delete any entity, or to add one that is new.\<close>

lemma send_request_inv:
  assumes "kernel_inv n k" "kn_ents k (request_of r) \<noteq> None"
    "\<And>h. r = AddHandler h \<Longrightarrow> (\<forall>i < n. Some h \<notin> set (kn_handlers k ! i)) \<and> live_event k h \<noteq> None
       \<and> AddHandler h \<notin> set (mq_queue (kn_msgs k))"
  shows "\<exists>q. send_request r k = Some (k\<lparr>kn_msgs := q\<rparr>) \<and> mq_queue q = mq_queue (kn_msgs k) @ [r]
    \<and> kernel_inv n (k\<lparr>kn_msgs := q\<rparr>)"
proof -
  have wf: "mq_wf (kn_msgs k)" and len: "length (kn_handlers k) = n"
    using assms(1) by (auto simp: kernel_inv_defs)
  then obtain q where q: "mq_push r (kn_msgs k) = Some q"
    by (auto simp: mq_push_def mq_wf_def Let_def)
  then have "mq_queue q = mq_queue (kn_msgs k) @ [r]" "mq_wf q"
    using wf by (auto simp: mq_push_def mq_wf_def Let_def)
  moreover from this have "queue_ok (k\<lparr>kn_msgs := q\<rparr>)"
    using assms len by (cases r) (auto simp: kernel_inv_def queue_ok_def)
  ultimately show ?thesis
    using assms(1) q by (intro exI [of _ q]) (simp add: send_request_def kernel_inv_def ents_ok_def lists_ok_def)
qed

text \<open>What a user's call leaves as it was, while the kernel runs.\<close>

definition still :: "kernel \<Rightarrow> kernel \<Rightarrow> bool" where
  "still k k' \<longleftrightarrow> kn_handlers k' = kn_handlers k \<and> kn_running k' = kn_running k
     \<and> (\<forall>h. kn_ents k h \<noteq> None \<longrightarrow> kn_ents k' h \<noteq> None)
     \<and> (\<forall>h. h \<le> kn_global_id k \<longrightarrow> live_event k' h = live_event k h)
     \<and> kn_global_id k \<le> kn_global_id k'
     \<and> kn_recv_pkt k' = kn_recv_pkt k \<and> kn_recv_size k' = kn_recv_size k"

lemma still_refl [simp]: "still k k"
  by (simp add: still_def)

lemma still_trans: "still k k' \<Longrightarrow> still k' k'' \<Longrightarrow> still k k''"
  by (auto simp: still_def)

lemma still_calls [simp]: "still k (k'\<lparr>kn_calls := cs\<rparr>) = still k k'" "still k (k'\<lparr>kn_msgs := q\<rparr>) = still k k'"
  by (simp_all add: still_def)

lemma kernel_on_running:
  assumes "kernel_inv n k" "kn_running k" "0 \<le> lookup name" "nat (lookup name) < n"
  shows "\<exists>k'. kernel_on lookup name k = Some (Inr (kn_global_id k + 1, k')) \<and> kernel_inv n k' \<and> still k k'
    \<and> mq_queue (kn_msgs k') = mq_queue (kn_msgs k) @ [AddHandler (kn_global_id k + 1)]
    \<and> kn_ents k' = (kn_ents k)(kn_global_id k + 1 \<mapsto> HandlerEntity_new (lookup name))"
proof -
  let ?h = "kn_global_id k + 1"
  let ?k = "k\<lparr>kn_global_id := ?h, kn_ents := (kn_ents k)(?h \<mapsto> HandlerEntity_new (lookup name))\<rparr>"
  note fresh = fresh_id [OF assms(1), of ?h, simplified]
  have "still k ?k"
    by (simp add: still_def live_event_def)
  moreover have "live_event ?k ?h \<noteq> None"
    by (simp add: live_event_def HandlerEntity_new_def)
  then have "\<exists>q. send_request (AddHandler ?h) ?k = Some (?k\<lparr>kn_msgs := q\<rparr>)
    \<and> mq_queue q = mq_queue (kn_msgs ?k) @ [AddHandler ?h] \<and> kernel_inv n (?k\<lparr>kn_msgs := q\<rparr>)"
    using fresh assms(1) by (intro send_request_inv [OF new_entity_inv]) (auto simp: request_of_def assms)
  ultimately show ?thesis
    using assms(2-4) by (auto simp: kernel_on_def Let_def Event_NONE_def)
qed

lemma Handler_destroy_running:
  assumes "kernel_inv n k" "kn_running k" "entity_alive h k"
  shows "\<exists>k'. Handler_destroy h k = Some (Inr (True, k')) \<and> kernel_inv n k' \<and> still k k'
    \<and> mq_queue (kn_msgs k') = mq_queue (kn_msgs k) @ [DeleteHandler h] \<and> kn_ents k' = kn_ents k"
  using send_request_inv [OF assms(1), of "DeleteHandler h"] assms
  by (auto simp: Handler_destroy_def clear_ptr_def request_of_def entity_alive_def)

lemma Handler_call_still:
  assumes "f \<in> {entity_activate, entity_deactivate}" "Handler_call f h k = Inr (b, k')"
  shows "still k k'"
  using assms
  by (auto simp: Handler_call_def call_entity_def entity_activate_def entity_deactivate_def still_def live_event_def
      split: if_splits option.splits prod.splits)

definition good_lookup :: "nat \<Rightarrow> (string \<Rightarrow> event_id) \<Rightarrow> bool" where
  "good_lookup n lookup \<longleftrightarrow> (\<forall>name. lookup name = Event_NONE \<or> (0 \<le> lookup name \<and> nat (lookup name) < n))"

lemma user_step_still:
  assumes "kernel_inv n k" "kn_running k" "good_lookup n lookup"
  shows "kernel_inv n (user_step lookup u k) \<and> still k (user_step lookup u k)"
proof (cases u)
  case (UOn name)
  show ?thesis
  proof (cases "lookup name = Event_NONE")
    case True
    then show ?thesis using UOn assms by (simp add: kernel_on_def)
  next
    case False
    then have "0 \<le> lookup name" "nat (lookup name) < n"
      using assms(3) by (auto simp: good_lookup_def)
    from kernel_on_running [of n k lookup name, OF assms(1,2) this] show ?thesis
      using UOn by auto
  qed
next
  case (UDestroy h)
  then show ?thesis
    using Handler_destroy_running [OF assms(1,2), of h] assms(1)
    by (cases "entity_alive h k") (auto simp: Handler_destroy_def)
next
  case (UActivate h)
  then show ?thesis
    using Handler_call_inv [OF assms(1), of entity_activate h] Handler_call_still [of entity_activate h k] assms
    by (cases "Handler_call entity_activate h k") (auto split: prod.splits)
next
  case (UDeactivate h)
  then show ?thesis
    using Handler_call_inv [OF assms(1), of entity_deactivate h] Handler_call_still [of entity_deactivate h k] assms
    by (cases "Handler_call entity_deactivate h k") (auto split: prod.splits)
qed

subsection \<open>Carrying out the requests\<close>

text \<open>The abstract state: for each event, the handlers in the order of their registration.\<close>

definition handlers_of :: "kernel \<Rightarrow> nat \<Rightarrow> hdlr_id list" where
  "handlers_of k i = (if i < length (kn_handlers k) then List.map_filter (\<lambda>x. x) (kn_handlers k ! i) else [])"

definition event_of :: "kernel \<Rightarrow> hdlr_id \<Rightarrow> nat" where
  "event_of k h = (case kn_ents k h of None \<Rightarrow> 0 | Some e \<Rightarrow> nat (he_ev_id e))"

definition destroyed :: "kernel \<Rightarrow> hdlr_id \<Rightarrow> bool" where
  "destroyed k h \<longleftrightarrow> (case kn_ents k h of None \<Rightarrow> False | Some e \<Rightarrow> he_destroyed e)"

fun spec_change :: "(hdlr_id \<Rightarrow> nat) \<Rightarrow> change_request \<Rightarrow> (nat \<Rightarrow> hdlr_id list) \<Rightarrow> nat \<Rightarrow> hdlr_id list" where
  "spec_change ev (AddHandler h) A = A(ev h := A (ev h) @ [h])"
| "spec_change ev (DeleteHandler h) A = A(ev h := remove1 h (A (ev h)))"

lemma map_filter_remove1:
  "List.map_filter (\<lambda>x. x) (remove1 (Some h) xs) = remove1 h (List.map_filter (\<lambda>x. x) xs)"
  by (induction xs) (auto simp: List.map_filter_simps split: option.splits)

lemma map_filter_snoc: "List.map_filter (\<lambda>x. x) (xs @ [Some h]) = List.map_filter (\<lambda>x. x) xs @ [h]"
  by (simp add: List.map_filter_def)

lemma change_refines:
  assumes inv: "kernel_inv n k" and q: "mq_queue (kn_msgs k) = r # rs"
  shows "\<exists>q b k'. mq_pull (kn_msgs k) = Some (Inr r, q) \<and> change r (k\<lparr>kn_msgs := q\<rparr>) = Inr (b, k') \<and> kernel_inv n k'
    \<and> mq_queue (kn_msgs k') = rs \<and> handlers_of k' = spec_change (event_of k) r (handlers_of k)
    \<and> event_of k' = event_of k \<and> same_run k k' \<and> (\<forall>h. destroyed k h \<longrightarrow> destroyed k' h)"
proof -
  have wf: "mq_wf (kn_msgs k)" and len: "length (kn_handlers k) = n"
    using inv by (auto simp: kernel_inv_defs)
  from wf q have "\<exists>q'. mq_pull (kn_msgs k) = Some (Inr r, q') \<and> mq_queue q' = rs \<and> mq_wf q'"
    by (simp add: mq_wf_def mq_pull_def Let_def)
  then obtain q' where q': "mq_pull (kn_msgs k) = Some (Inr r, q')" "mq_queue q' = rs" "mq_wf q'"
    by blast
  let ?k = "k\<lparr>kn_msgs := q'\<rparr>"
  obtain e where e: "kn_ents k (request_of r) = Some e"
    using inv q by (auto simp: kernel_inv_def queue_ok_def)
  then have ev: "event_of k (request_of r) = nat (he_ev_id e)" "nat (he_ev_id e) < n"
    using inv by (auto simp: event_of_def kernel_inv_def ents_ok_def)
  have inv': "kernel_inv n ?k"
    using inv q q' unfolding kernel_inv_def ents_ok_def lists_ok_def queue_ok_def by (auto split: if_splits)
  have up: "handlers_of k' = spec_change (event_of k) r (handlers_of k)"
    if "kn_handlers k' = (kn_handlers k)[nat (he_ev_id e) := ys]"
      "List.map_filter (\<lambda>x. x) ys = spec_change (event_of k) r (handlers_of k) (nat (he_ev_id e))" for k' ys
    using that len ev by (cases r) (auto simp: handlers_of_def fun_eq_iff nth_list_update request_of_def)
  show ?thesis
  proof (cases r)
    case (AddHandler h)
    then have h: "\<not> he_destroyed e" "\<And>i. i < n \<Longrightarrow> Some h \<notin> set (kn_handlers ?k ! i)"
      "AddHandler h \<notin> set (mq_queue (kn_msgs ?k))"
      using inv q q' e len by (auto simp: kernel_inv_def queue_ok_def request_of_def live_event_def split: if_splits)
    obtain k' where k': "add_handler h ?k = Inr (True, k')" "kernel_inv n k'" "kn_msgs k' = q'" "kn_ents k' = kn_ents k"
      "same_run ?k k'" "kn_handlers k' = (kn_handlers k)[nat (he_ev_id e) := kn_handlers k ! nat (he_ev_id e) @ [Some h]]"
      using add_handler_inv [OF inv', of h e] h e AddHandler by (auto simp: request_of_def)
    moreover have "handlers_of k' = spec_change (event_of k) r (handlers_of k)"
      using ev len AddHandler by (intro up [OF k'(6)]) (simp add: map_filter_snoc handlers_of_def request_of_def)
    ultimately show ?thesis
      using q' AddHandler by (auto simp: same_run_def event_of_def destroyed_def fun_eq_iff)
  next
    case (DeleteHandler h)
    obtain b k' e' where k': "delete_handler h ?k = Inr (b, k')" "kernel_inv n k'" "kn_msgs k' = q'" "same_run ?k k'"
      "kn_handlers k' = (kn_handlers k)[nat (he_ev_id e) := remove1 (Some h) (kn_handlers k ! nat (he_ev_id e))]"
      "kn_ents k' = (kn_ents k)(h \<mapsto> e')" "he_ev_id e' = he_ev_id e" "he_destroyed e \<longrightarrow> he_destroyed e'"
      using delete_handler_inv [OF inv', of h e] e DeleteHandler by (auto simp: request_of_def)
    moreover have "handlers_of k' = spec_change (event_of k) r (handlers_of k)"
      using ev len DeleteHandler by (intro up [OF k'(5)]) (simp add: map_filter_remove1 handlers_of_def request_of_def)
    ultimately show ?thesis
      using q' e DeleteHandler by (auto simp: same_run_def event_of_def destroyed_def fun_eq_iff request_of_def)
  qed
qed

lemma handle_requests_refines:
  assumes "kernel_inv n k" "length (mq_queue (kn_msgs k)) \<le> fuel"
  shows "\<exists>k'. handle_requests fuel k = Some (Inr k') \<and> kernel_inv n k' \<and> mq_queue (kn_msgs k') = []
    \<and> handlers_of k' = fold (spec_change (event_of k)) (mq_queue (kn_msgs k)) (handlers_of k)
    \<and> event_of k' = event_of k \<and> same_run k k' \<and> (\<forall>h. destroyed k h \<longrightarrow> destroyed k' h)"
  using assms
proof (induction fuel arbitrary: k)
  case 0
  then show ?case by (auto simp: kernel_inv_def queue_ok_def mq_wf_def same_run_def)
next
  case (Suc fuel)
  show ?case
  proof (cases "mq_queue (kn_msgs k)")
    case Nil
    then show ?thesis using Suc.prems by (auto simp: kernel_inv_def queue_ok_def mq_wf_def same_run_def)
  next
    case (Cons r rs)
    then have "mq_has_msg (kn_msgs k)"
      using Suc.prems by (auto simp: kernel_inv_def queue_ok_def mq_wf_def)
    moreover from change_refines [OF Suc.prems(1) Cons] obtain q b k1 where k1:
      "mq_pull (kn_msgs k) = Some (Inr r, q)" "change r (k\<lparr>kn_msgs := q\<rparr>) = Inr (b, k1)" "kernel_inv n k1"
      "mq_queue (kn_msgs k1) = rs" "handlers_of k1 = spec_change (event_of k) r (handlers_of k)"
      "event_of k1 = event_of k" "same_run k k1" "\<And>h. destroyed k h \<Longrightarrow> destroyed k1 h"
      by blast
    moreover obtain k' where "handle_requests fuel k1 = Some (Inr k')" "kernel_inv n k'" "mq_queue (kn_msgs k') = []"
      "handlers_of k' = fold (spec_change (event_of k1)) rs (handlers_of k1)" "event_of k' = event_of k1"
      "same_run k1 k'" "\<And>h. destroyed k1 h \<Longrightarrow> destroyed k' h"
      using Suc.IH [OF k1(3)] k1(4) Suc.prems(2) Cons by auto
    ultimately show ?thesis
      using Cons same_run_trans by auto
  qed
qed

subsection \<open>Dispatch\<close>

lemma user_prog_still:
  assumes "kernel_inv n k" "kn_running k" "good_lookup n lookup"
  shows "kernel_inv n (user_prog lookup prog h k) \<and> still k (user_prog lookup prog h k)"
proof -
  have "kernel_inv n (fold (user_step lookup) us k) \<and> still k (fold (user_step lookup) us k)" for us
    using assms(1,2)
  proof (induction us arbitrary: k)
    case (Cons u us)
    then have "kernel_inv n (user_step lookup u k)" "still k (user_step lookup u k)"
      using user_step_still assms(3) by auto
    then show ?case
      using Cons.IH [of "user_step lookup u k"] Cons.prems(2) by (auto simp: still_def)
  qed simp
  then show ?thesis by (simp add: user_prog_def)
qed

text \<open>A list of an event is run to its end; only its own handlers are called, in the order of the list.\<close>

lemma run_entries_safe:
  assumes "kernel_inv n k" "kn_running k" "good_lookup n lookup"
    "\<And>h. Some h \<in> set hs \<Longrightarrow> kn_ents k h \<noteq> None"
  shows "\<exists>k' cs. run_entries (user_prog lookup prog) hs k = Inr k' \<and> kernel_inv n k' \<and> still k k'
    \<and> kn_calls k' = kn_calls k @ cs \<and> subseq cs (List.map_filter (\<lambda>x. x) hs)"
  using assms
proof (induction hs arbitrary: k)
  case Nil
  then show ?case by (auto simp: List.map_filter_simps)
next
  case (Cons x hs)
  show ?case
  proof (cases x)
    case None
    then show ?thesis using Cons by (auto simp: List.map_filter_simps)
  next
    case (Some h)
    then obtain e where e: "kn_ents k h = Some e"
      using Cons.prems(4) by force
    let ?k = "if he_active e then (user_prog lookup prog h k)\<lparr>kn_calls := kn_calls k @ [h]\<rparr> else k"
    have k: "kernel_inv n ?k" "still k ?k"
      using user_prog_still [OF Cons.prems(1-3)] Cons.prems(1) by auto
    then have "\<exists>k' cs. run_entries (user_prog lookup prog) hs ?k = Inr k' \<and> kernel_inv n k' \<and> still ?k k'
      \<and> kn_calls k' = kn_calls ?k @ cs \<and> subseq cs (List.map_filter (\<lambda>x. x) hs)"
      using Cons.prems by (intro Cons.IH) (auto simp: still_def)
    then obtain k' cs where k': "run_entries (user_prog lookup prog) hs ?k = Inr k'" "kernel_inv n k'" "still ?k k'"
      "kn_calls k' = kn_calls ?k @ cs" "subseq cs (List.map_filter (\<lambda>x. x) hs)"
      by blast
    then have "kn_calls k' = kn_calls k @ ((if he_active e then [h] else []) @ cs)"
      by simp
    moreover have "subseq ((if he_active e then [h] else []) @ cs) (List.map_filter (\<lambda>x. x) (x # hs))"
      using k'(5) Some by (auto simp: List.map_filter_simps)
    moreover have "run_entries (user_prog lookup prog) (x # hs) k = Inr k'"
      using k'(1) Some e by (simp split del: if_split)
    ultimately show ?thesis
      using k' still_trans [OF k(2) k'(3)] by blast
  qed
qed

definition events_ok :: "nat \<Rightarrow> event_id list \<Rightarrow> bool" where
  "events_ok n evs \<longleftrightarrow> (\<forall>ev \<in> set evs. 0 \<le> ev \<and> nat ev < n)"

lemma still_handlers_of: "still k k' \<Longrightarrow> handlers_of k' = handlers_of k"
  by (simp add: still_def handlers_of_def fun_eq_iff)

lemma run_events_safe:
  assumes "kernel_inv n k" "kn_running k" "good_lookup n lookup" "events_ok n evs"
  shows "\<exists>k' cs. run_events (user_prog lookup prog) evs k = Inr k' \<and> kernel_inv n k' \<and> still k k'
    \<and> kn_calls k' = kn_calls k @ cs \<and> subseq cs (concat (map (\<lambda>ev. handlers_of k (nat ev)) evs))"
  using assms
proof (induction evs arbitrary: k)
  case Nil
  then show ?case by auto
next
  case (Cons ev evs)
  then have slot: "event_slot ev k = Inr (nat ev)" "nat ev < length (kn_handlers k)"
    by (auto simp: event_slot_def events_ok_def kernel_inv_defs)
  have "kn_ents k h \<noteq> None" if "Some h \<in> set (kn_handlers k ! nat ev)" for h
    using Cons.prems(1,4) that
    by (fastforce simp: kernel_inv_def lists_ok_def live_event_def events_ok_def split: option.splits)
  then obtain k1 cs where k1: "run_entries (user_prog lookup prog) (kn_handlers k ! nat ev) k = Inr k1" "kernel_inv n k1"
    "still k k1" "kn_calls k1 = kn_calls k @ cs" "subseq cs (handlers_of k (nat ev))"
    using run_entries_safe [OF Cons.prems(1-3), of "kn_handlers k ! nat ev" prog] slot(2)
    by (auto simp: handlers_of_def)
  moreover obtain k' cs' where k': "run_events (user_prog lookup prog) evs k1 = Inr k'" "kernel_inv n k'" "still k1 k'"
    "kn_calls k' = kn_calls k1 @ cs'" "subseq cs' (concat (map (\<lambda>ev. handlers_of k1 (nat ev)) evs))"
    using Cons.IH [of k1] k1 Cons.prems by (auto simp: still_def events_ok_def)
  ultimately show ?case
    using slot still_trans [OF k1(3) k'(3)] list_emb_append_mono [OF k1(5), of cs'] still_handlers_of [OF k1(3)]
    by auto
qed

lemma live_event_destroyed: "live_event k h = None \<Longrightarrow> kn_ents k h \<noteq> None \<Longrightarrow> destroyed k h"
  "destroyed k h \<Longrightarrow> live_event k h = None \<and> kn_ents k h \<noteq> None"
  by (auto simp: live_event_def destroyed_def split: option.splits if_splits)

lemma still_destroyed:
  assumes "kernel_inv n k" "still k k'" "destroyed k h"
  shows "destroyed k' h"
proof -
  have "live_event k h = None" "kn_ents k h \<noteq> None"
    using live_event_destroyed(2) [OF assms(3)] by simp_all
  moreover from this have "h \<le> kn_global_id k"
    using assms(1) by (auto simp: kernel_inv_def ents_ok_def)
  ultimately show ?thesis
    using assms(2) by (intro live_event_destroyed(1)) (auto simp: still_def)
qed

lemma handlers_of_live:
  assumes "kernel_inv n k" "h \<in> set (handlers_of k i)"
  shows "live_event k h = Some i" "h \<le> kn_global_id k" "\<not> destroyed k h"
proof -
  show live: "live_event k h = Some i"
    using assms
    by (auto simp: handlers_of_def kernel_inv_def lists_ok_def List.map_filter_def split: if_splits)
  then show "\<not> destroyed k h"
    using live_event_destroyed(2) by fastforce
  show "h \<le> kn_global_id k"
    using assms(1) live by (auto simp: kernel_inv_def ents_ok_def live_event_def split: option.splits)
qed

lemma called_live:
  assumes "kernel_inv n k" "subseq cs (concat (map (\<lambda>ev. handlers_of k (nat ev)) evs))" "h \<in> set cs"
  shows "\<exists>ev \<in> set evs. live_event k h = Some (nat ev)" "h \<le> kn_global_id k" "\<not> destroyed k h"
proof -
  have "set cs \<subseteq> set (concat (map (\<lambda>ev. handlers_of k (nat ev)) evs))"
    using assms(2) by (induction rule: list_emb.induct) auto
  then obtain ev where ev: "ev \<in> set evs" "h \<in> set (handlers_of k (nat ev))"
    using assms(3) by auto
  note live = handlers_of_live [OF assms(1) ev(2)]
  show "\<exists>ev \<in> set evs. live_event k h = Some (nat ev)" using live(1) ev(1) by auto
  show "h \<le> kn_global_id k" "\<not> destroyed k h" using live by auto
qed

lemma kernel_turn_safe:
  assumes "kernel_inv n k" "kn_running k" "good_lookup n lookup" "events_ok n evs"
  shows "\<exists>k' cs. kernel_turn (user_prog lookup prog) len evs k = Some (Inr k') \<and> kernel_inv n k' \<and> kn_running k'
    \<and> mq_queue (kn_msgs k') = [] \<and> kn_calls k' = kn_calls k @ cs
    \<and> subseq cs (concat (map (\<lambda>ev. handlers_of k (nat ev)) evs))
    \<and> kn_recv_pkt k' = kn_recv_pkt k + 1 \<and> kn_recv_size k' = kn_recv_size k + len
    \<and> (\<forall>h. destroyed k h \<longrightarrow> destroyed k' h)"
proof -
  let ?k = "k\<lparr>kn_recv_pkt := kn_recv_pkt k + 1, kn_recv_size := kn_recv_size k + len\<rparr>"
  have eqs: "handlers_of ?k = handlers_of k" "destroyed ?k = destroyed k"
    by (simp_all add: handlers_of_def destroyed_def fun_eq_iff)
  obtain k1 cs where k1: "run_events (user_prog lookup prog) evs ?k = Inr k1" "kernel_inv n k1" "still ?k k1"
    "kn_calls k1 = kn_calls k @ cs" "subseq cs (concat (map (\<lambda>ev. handlers_of k (nat ev)) evs))"
    using run_events_safe [of n ?k lookup evs prog] assms by (auto simp: eqs)
  obtain k' where k': "handle_requests (length (mq_queue (kn_msgs k1))) k1 = Some (Inr k')" "kernel_inv n k'"
    "mq_queue (kn_msgs k') = []" "same_run k1 k'" "\<And>h. destroyed k1 h \<Longrightarrow> destroyed k' h"
    using handle_requests_refines [OF k1(2), of "length (mq_queue (kn_msgs k1))"] by auto
  have "destroyed k1 h" if "destroyed k h" for h
    using still_destroyed [of n ?k k1] assms(1) k1(3) that by (simp add: eqs)
  then show ?thesis
    using k1 k' assms(2) by (auto simp: kernel_turn_def still_def same_run_def simp del: handle_requests.simps)
qed

lemma kernel_turns_safe:
  assumes "kernel_inv n k" "kn_running k" "good_lookup n lookup" "\<forall>p \<in> set pkts. events_ok n (snd p)"
  shows "\<exists>k' cs. kernel_turns (user_prog lookup prog) pkts k = Some (Inr k') \<and> kernel_inv n k'
    \<and> (pkts \<noteq> [] \<longrightarrow> mq_queue (kn_msgs k') = []) \<and> kn_calls k' = kn_calls k @ cs
    \<and> (\<forall>h. destroyed k h \<longrightarrow> h \<notin> set cs \<and> destroyed k' h)
    \<and> kn_recv_pkt k' = kn_recv_pkt k + word_of_nat (length pkts)
    \<and> kn_recv_size k' = kn_recv_size k + sum_list (map fst pkts)"
  using assms
proof (induction pkts arbitrary: k)
  case Nil
  then show ?case by auto
next
  case (Cons p pkts)
  obtain len evs where p: "p = (len, evs)" by force
  obtain k1 cs where k1: "kernel_turn (user_prog lookup prog) len evs k = Some (Inr k1)" "kernel_inv n k1"
    "kn_running k1" "mq_queue (kn_msgs k1) = []" "kn_calls k1 = kn_calls k @ cs"
    "subseq cs (concat (map (\<lambda>ev. handlers_of k (nat ev)) evs))"
    "kn_recv_pkt k1 = kn_recv_pkt k + 1" "kn_recv_size k1 = kn_recv_size k + len"
    "\<And>h. destroyed k h \<Longrightarrow> destroyed k1 h"
    using kernel_turn_safe [of n k lookup evs prog len] Cons.prems p by auto
  obtain k' cs' where k': "kernel_turns (user_prog lookup prog) pkts k1 = Some (Inr k')" "kernel_inv n k'"
    "pkts \<noteq> [] \<longrightarrow> mq_queue (kn_msgs k') = []" "kn_calls k' = kn_calls k1 @ cs'"
    "\<And>h. destroyed k1 h \<Longrightarrow> h \<notin> set cs' \<and> destroyed k' h"
    "kn_recv_pkt k' = kn_recv_pkt k1 + word_of_nat (length pkts)"
    "kn_recv_size k' = kn_recv_size k1 + sum_list (map fst pkts)"
    using Cons.IH [OF k1(2,3) Cons.prems(3)] Cons.prems(4) by auto
  have "h \<notin> set cs" if "destroyed k h" for h
    using called_live(3) [OF Cons.prems(1) k1(6)] that by blast
  moreover have "pkts = [] \<Longrightarrow> k' = k1"
    using k'(1) by simp
  ultimately show ?case
    using k1 k' p by (intro exI [of _ k'] exI [of _ "cs @ cs'"]) auto
qed

lemma run_entries_quiet:
  assumes "\<And>h. Some h \<in> set hs \<Longrightarrow> kn_ents k h \<noteq> None"
  shows "run_entries (\<lambda>_ k. k) hs (k\<lparr>kn_calls := cs\<rparr>) = Inr (k\<lparr>kn_calls := cs @
      filter (\<lambda>h. he_active (the (kn_ents k h))) (List.map_filter (\<lambda>x. x) hs)\<rparr>)"
  using assms
proof (induction hs arbitrary: cs)
  case Nil
  then show ?case by (simp add: List.map_filter_simps)
next
  case (Cons x hs)
  have ih: "run_entries (\<lambda>_ k. k) hs (k\<lparr>kn_calls := cs\<rparr>) = Inr (k\<lparr>kn_calls := cs @
      filter (\<lambda>h. he_active (the (kn_ents k h))) (List.map_filter (\<lambda>x. x) hs)\<rparr>)" for cs
    using Cons by auto
  show ?case
  proof (cases x)
    case None
    then show ?thesis using ih by (simp add: List.map_filter_simps)
  next
    case (Some h)
    then obtain e where "kn_ents k h = Some e" using Cons.prems by force
    then show ?thesis using ih Some by (simp add: List.map_filter_simps)
  qed
qed

lemma run_events_quiet:
  assumes "kernel_inv n k" "events_ok n evs"
  shows "run_events (\<lambda>_ k. k) evs (k\<lparr>kn_calls := cs\<rparr>) = Inr (k\<lparr>kn_calls := cs @
      concat (map (\<lambda>ev. filter (\<lambda>h. he_active (the (kn_ents k h))) (handlers_of k (nat ev))) evs)\<rparr>)"
  using assms(2)
proof (induction evs arbitrary: cs)
  case Nil
  then show ?case by simp
next
  case (Cons ev evs)
  have ev: "0 \<le> ev" "nat ev < n" "length (kn_handlers k) = n"
    using Cons.prems assms(1) by (auto simp: events_ok_def kernel_inv_defs)
  then have "kn_ents k h \<noteq> None" if "Some h \<in> set (kn_handlers k ! nat ev)" for h
    using assms(1) that by (fastforce simp: kernel_inv_def lists_ok_def live_event_def split: option.splits)
  then show ?case
    using run_entries_quiet [of "kn_handlers k ! nat ev" k cs] Cons ev
    by (simp add: event_slot_def handlers_of_def events_ok_def)
qed

lemma kernel_on_idle:
  assumes "kernel_inv n k" "\<not> kn_running k" "0 \<le> lookup name" "nat (lookup name) < n"
  shows "\<exists>k'. kernel_on lookup name k = Some (Inr (kn_global_id k + 1, k')) \<and> kernel_inv n k'
    \<and> handlers_of k' = (handlers_of k)(nat (lookup name) := handlers_of k (nat (lookup name)) @ [kn_global_id k + 1])
    \<and> \<not> kn_running k'"
proof -
  let ?h = "kn_global_id k + 1"
  let ?e = "HandlerEntity_new (lookup name)"
  let ?k = "k\<lparr>kn_global_id := ?h, kn_ents := (kn_ents k)(?h \<mapsto> ?e)\<rparr>"
  note fresh = fresh_id [OF assms(1), of ?h, simplified]
  have e: "he_ev_id ?e = lookup name" "\<not> he_destroyed ?e"
    by (simp_all add: HandlerEntity_new_def)
  have len: "length (kn_handlers k) = n"
    using assms(1) by (simp add: kernel_inv_def lists_ok_def)
  have "\<exists>k'. add_handler ?h ?k = Inr (True, k') \<and> kernel_inv n k' \<and> kn_msgs k' = kn_msgs ?k \<and> kn_ents k' = kn_ents ?k
    \<and> same_run ?k k'
    \<and> kn_handlers k' = (kn_handlers ?k)[nat (he_ev_id ?e) := kn_handlers ?k ! nat (he_ev_id ?e) @ [Some ?h]]"
    using fresh e(2) by (intro add_handler_inv new_entity_inv assms) auto
  then obtain k' where k': "add_handler ?h ?k = Inr (True, k')" "kernel_inv n k'" "same_run ?k k'"
    "kn_handlers k' = (kn_handlers k)[nat (lookup name) := kn_handlers k ! nat (lookup name) @ [Some ?h]]"
    using e(1) by auto
  moreover have "handlers_of k' = (handlers_of k)(nat (lookup name) := handlers_of k (nat (lookup name)) @ [?h])"
    using k'(4) len assms(4) by (auto simp: handlers_of_def fun_eq_iff nth_list_update map_filter_snoc)
  ultimately show ?thesis
    using assms(2,3) by (auto simp: kernel_on_def Let_def Event_NONE_def same_run_def)
qed

subsection \<open>A concrete kernel\<close>

text \<open>Two events; the first has handlers 1 and 2, the second handler 3, destroyed before the kernel starts.\<close>

definition demo_lookup :: "string \<Rightarrow> event_id" where
  "demo_lookup name = (if name = ''A'' then 0 else if name = ''B'' then 1 else Event_NONE)"

definition demo_kernel0 :: kernel where
  "demo_kernel0 = fold (user_step demo_lookup) [UOn ''A'', UOn ''A'', UOn ''B''] (Kernel_new 2)"

definition demo_kernel :: kernel where
  "demo_kernel = user_step demo_lookup (UDestroy 3) demo_kernel0"

definition demo_prog :: "hdlr_id \<Rightarrow> user_op list" where
  "demo_prog h = (if h = 1 then [UDeactivate 2, UOn ''A'', UDestroy 1] else [])"

lemma demo_lookup_good: "good_lookup 2 demo_lookup"
  by (simp add: good_lookup_def demo_lookup_def)

lemma user_on_idle:
  assumes "kernel_inv n k \<and> \<not> kn_running k" "0 \<le> lookup name" "nat (lookup name) < n"
  shows "kernel_inv n (user_step lookup (UOn name) k) \<and> \<not> kn_running (user_step lookup (UOn name) k)"
  using kernel_on_idle [of n k lookup name] assms by auto

lemma demo_kernel0_inv: "kernel_inv 2 demo_kernel0 \<and> \<not> kn_running demo_kernel0"
proof -
  have new: "kernel_inv 2 (Kernel_new 2) \<and> \<not> kn_running (Kernel_new 2)"
    using Kernel_new_inv by (simp add: Kernel_new_def)
  show ?thesis
    unfolding demo_kernel0_def fold_simps
    by (intro user_on_idle new) (simp_all add: demo_lookup_def)
qed

lemma user_destroy_idle:
  assumes "kernel_inv n k \<and> \<not> kn_running k"
  shows "kernel_inv n (user_step lookup (UDestroy h) k) \<and> \<not> kn_running (user_step lookup (UDestroy h) k)"
proof (cases "entity_alive h k")
  case True
  then obtain e where "kn_ents k h = Some e"
    by (auto simp: entity_alive_def)
  then show ?thesis
    using delete_handler_inv [of n k h e] assms True
    by (auto simp: Handler_destroy_def clear_ptr_def same_run_def)
qed (use assms in \<open>simp add: Handler_destroy_def\<close>)

lemma demo_kernel_inv: "kernel_inv 2 demo_kernel"
  unfolding demo_kernel_def using user_destroy_idle [OF demo_kernel0_inv] by blast

lemma demo_kernel_state:
  "destroyed demo_kernel 3" "handlers_of demo_kernel 0 = [1, 2]" "handlers_of demo_kernel 1 = []" "kn_calls demo_kernel = []"
  by code_simp+

subsection \<open>Properties\<close>



text \<open>
  C8:
  A destroyed handler is never called again: once the entity is destroyed, no packet of any later run calls its callback
  and nothing brings it back, whatever the callbacks do (\<^verbatim>\<open>activate\<close> on it included).
\<close>

theorem destroyed_never_called:
  assumes "kernel_inv n k" "good_lookup n lookup" "\<forall>p \<in> set pkts. events_ok n (snd p)" "destroyed k h"
  shows "\<exists>k' cs. kernel_thread_main (user_prog lookup prog) pkts k = Some (Inr k')
    \<and> kn_calls k' = kn_calls k @ cs \<and> h \<notin> set cs \<and> destroyed k' h"
proof -
  have "destroyed (k\<lparr>kn_running := True\<rparr>) h"
    using assms(4) by (simp add: destroyed_def)
  moreover obtain k' cs where "kernel_turns (user_prog lookup prog) pkts (k\<lparr>kn_running := True\<rparr>) = Some (Inr k')"
    "kn_calls k' = kn_calls k @ cs" "\<And>h. destroyed (k\<lparr>kn_running := True\<rparr>) h \<Longrightarrow> h \<notin> set cs \<and> destroyed k' h"
    using kernel_turns_safe [of n "k\<lparr>kn_running := True\<rparr>" lookup pkts prog] assms by auto
  ultimately show ?thesis
    by (auto simp: kernel_thread_main_def destroyed_def)
qed

theorem destroyed_never_called_witness:
  "\<exists>k' cs. kernel_thread_main (user_prog demo_lookup demo_prog) [(60, [0]), (42, [1, 0])] demo_kernel = Some (Inr k')
    \<and> kn_calls k' = cs \<and> 3 \<notin> set cs"
  using destroyed_never_called [OF demo_kernel_inv demo_lookup_good, of "[(60, [0]), (42, [1, 0])]" 3 demo_prog]
  by (auto simp: events_ok_def demo_kernel_state)

text \<open>
  The calls made for one packet: only handlers that were registered, for an event of the packet, and not destroyed when the
  packet's dispatch began, in the order of the packet's events and, within an event, of registration (a subsequence
  of it, as callbacks may deactivate handlers that follow). A handler that a callback registers is therefore not
  called for the packet at hand.
\<close>

theorem turn_calls_registered:
  assumes "kernel_inv n k" "kn_running k" "good_lookup n lookup" "events_ok n evs"
  shows "\<exists>k' cs. kernel_turn (user_prog lookup prog) len evs k = Some (Inr k') \<and> kn_calls k' = kn_calls k @ cs
    \<and> subseq cs (concat (map (\<lambda>ev. handlers_of k (nat ev)) evs))
    \<and> (\<forall>h \<in> set cs. h \<le> kn_global_id k \<and> \<not> destroyed k h \<and> (\<exists>ev \<in> set evs. live_event k h = Some (nat ev)))"
proof -
  obtain k' cs where k': "kernel_turn (user_prog lookup prog) len evs k = Some (Inr k')" "kn_calls k' = kn_calls k @ cs"
    "subseq cs (concat (map (\<lambda>ev. handlers_of k (nat ev)) evs))"
    using kernel_turn_safe [OF assms, of prog len] by auto
  then show ?thesis
    using called_live [OF assms(1) k'(3)] by blast
qed

theorem turn_calls_registered_witness:
  "\<exists>k' cs. kernel_turn (user_prog demo_lookup demo_prog) 60 [0, 1] (demo_kernel\<lparr>kn_running := True\<rparr>) = Some (Inr k')
    \<and> kn_calls k' = cs \<and> subseq cs [1, 2]"
proof -
  let ?k = "demo_kernel\<lparr>kn_running := True\<rparr>"
  have "handlers_of ?k 0 = [1, 2]" "handlers_of ?k 1 = []" "kn_calls ?k = []"
    by (code_simp)+
  then show ?thesis
    using turn_calls_registered [of 2 ?k demo_lookup "[0, 1]" demo_prog 60] demo_kernel_inv demo_lookup_good
    by (auto simp: events_ok_def)
qed

text \<open>
  C29:
  Dispatch in order: when no callback touches the kernel, a packet calls, for each of its events in the order they were
  pushed, exactly the active handlers of the event in the order of their registration.
\<close>

theorem dispatch_order:
  assumes "kernel_inv n k" "events_ok n evs"
  shows "\<exists>k'. run_events (user_prog lookup (\<lambda>_. [])) evs k = Inr k' \<and> kn_calls k' = kn_calls k
      @ concat (map (\<lambda>ev. filter (\<lambda>h. he_active (the (kn_ents k h))) (handlers_of k (nat ev))) evs)"
proof -
  have "user_prog lookup (\<lambda>_. []) = (\<lambda>_ k. k)"
    by (simp add: user_prog_def fun_eq_iff)
  then show ?thesis
    using run_events_quiet [OF assms, of "kn_calls k"] by simp
qed

theorem dispatch_order_witness:
  "\<exists>k'. run_events (user_prog demo_lookup (\<lambda>_. [])) [0, 1, 0] demo_kernel0 = Inr k' \<and> kn_calls k' = [1, 2, 3, 1, 2]"
proof -
  have "kn_calls demo_kernel0 = []" "concat (map (\<lambda>ev. filter (\<lambda>h. he_active (the (kn_ents demo_kernel0 h)))
      (handlers_of demo_kernel0 (nat ev))) [0, 1, 0]) = [1, 2, 3, 1, 2]"
    by (code_simp)+
  moreover have "events_ok 2 [0, 1, 0]"
    by (simp add: events_ok_def)
  ultimately show ?thesis
    using dispatch_order [of 2 demo_kernel0 "[0, 1, 0]" demo_lookup] demo_kernel0_inv by simp
qed

text \<open>
  C21:
  The requests of the message queue refine the abstract registry: carrying them out turns the list of each event into the
  result of applying, in the order of the queue, \<open>append the handler\<close> and \<open>remove the handler\<close> to it, with as
  many turns of the loop as there are requests.
\<close>

theorem requests_refine:
  assumes "kernel_inv n k"
  shows "\<exists>k'. handle_requests (length (mq_queue (kn_msgs k))) k = Some (Inr k') \<and> mq_queue (kn_msgs k') = []
    \<and> handlers_of k' = fold (spec_change (event_of k)) (mq_queue (kn_msgs k)) (handlers_of k)"
  using handle_requests_refines [OF assms order_refl] by blast

theorem requests_refine_witness:
  "\<exists>k'. handle_requests 2 (fold (user_step demo_lookup) [UOn ''B'', UDestroy 1] (demo_kernel\<lparr>kn_running := True\<rparr>))
      = Some (Inr k') \<and> handlers_of k' 0 = [2] \<and> handlers_of k' 1 = [4]"
proof -
  let ?k = "fold (user_step demo_lookup) [UOn ''B'', UDestroy 1] (demo_kernel\<lparr>kn_running := True\<rparr>)"
  have "kernel_inv 2 ?k"
    using user_prog_still [of 2 "demo_kernel\<lparr>kn_running := True\<rparr>" demo_lookup "\<lambda>_. [UOn ''B'', UDestroy 1]"]
      demo_kernel_inv demo_lookup_good unfolding user_prog_def by simp
  moreover have "length (mq_queue (kn_msgs ?k)) = 2"
    "fold (spec_change (event_of ?k)) (mq_queue (kn_msgs ?k)) (handlers_of ?k) 0 = [2]"
    "fold (spec_change (event_of ?k)) (mq_queue (kn_msgs ?k)) (handlers_of ?k) 1 = [4]"
    by (code_simp)+
  ultimately show ?thesis
    using requests_refine [of 2 ?k] by metis
qed

text \<open>
  \<^verbatim>\<open>Kernel::on\<close>: an unknown event raises; before the start the new handler, under a fresh id, is appended to the list
  of its event at once; while the kernel runs the lists stay as they are, a request is queued, and carrying out the
  queue appends the handler.
\<close>

theorem kernel_on_behaviour:
  assumes "kernel_inv n k" "good_lookup n lookup"
  shows "(lookup name = Event_NONE \<longrightarrow>
      kernel_on lookup name k = Some (Inl (RunTimeError (''no such event: '' @ name))))
    \<and> (lookup name \<noteq> Event_NONE \<longrightarrow> kn_ents k (kn_global_id k + 1) = None
      \<and> (\<exists>k'. kernel_on lookup name k = Some (Inr (kn_global_id k + 1, k')) \<and> kernel_inv n k'
        \<and> (\<not> kn_running k \<longrightarrow> handlers_of k' =
            (handlers_of k)(nat (lookup name) := handlers_of k (nat (lookup name)) @ [kn_global_id k + 1]))
        \<and> (kn_running k \<longrightarrow> handlers_of k' = handlers_of k
            \<and> mq_queue (kn_msgs k') = mq_queue (kn_msgs k) @ [AddHandler (kn_global_id k + 1)])))"
proof (cases "lookup name = Event_NONE")
  case True
  then show ?thesis by (simp add: kernel_on_def)
next
  case False
  then have "0 \<le> lookup name" "nat (lookup name) < n"
    using assms(2) by (auto simp: good_lookup_def)
  note ev = this
  have fresh: "kn_ents k (kn_global_id k + 1) = None"
    using fresh_id(1) [OF assms(1)] by simp
  show ?thesis
  proof (cases "kn_running k")
    case True
    then obtain k' where "kernel_on lookup name k = Some (Inr (kn_global_id k + 1, k'))" "kernel_inv n k'" "still k k'"
      "mq_queue (kn_msgs k') = mq_queue (kn_msgs k) @ [AddHandler (kn_global_id k + 1)]"
      using kernel_on_running [of n k lookup name] assms(1) ev by blast
    then show ?thesis
      using fresh True False still_handlers_of by simp
  next
    case idle: False
    then show ?thesis
      using kernel_on_idle [of n k lookup name] assms(1) ev fresh False by auto
  qed
qed

theorem kernel_on_behaviour_witness:
  "kernel_on demo_lookup ''C'' demo_kernel = Some (Inl (RunTimeError ''no such event: C''))
   \<and> (\<exists>k'. kernel_on demo_lookup ''A'' demo_kernel = Some (Inr (4, k')) \<and> kernel_inv 2 k')"
proof -
  have "kn_global_id demo_kernel = 3" by code_simp
  then show ?thesis
    using kernel_on_behaviour [OF demo_kernel_inv demo_lookup_good, of "''C''"]
      kernel_on_behaviour [OF demo_kernel_inv demo_lookup_good, of "''A''"]
    by (auto simp: demo_lookup_def Event_NONE_def)
qed

end
