(* ===== verification/PM_Pipeline.thy ===== *)
theory PM_Pipeline
  imports PM_Channel
begin

text \<open>
  The two threads around the ring: \<^verbatim>\<open>Input::thread_main\<close> of \<^verbatim>\<open>src/packetmachine.cc\<close> (retain a slot, read a
  packet into it, push it, close the channel at the end) and the loop of \<^verbatim>\<open>Kernel::thread_main\<close> of
  \<^verbatim>\<open>src/kernel.cc\<close> (pull a packet, decode it). A step is one access to a shared variable: \<^verbatim>\<open>push_idx_\<close>,
  \<^verbatim>\<open>pull_idx_\<close>, \<^verbatim>\<open>eos_\<close> or the packet object of a slot. The pointers in \<^verbatim>\<open>ring_\<close> never change, because
  \<^verbatim>\<open>push\<close> is called with the pointer that \<^verbatim>\<open>retain\<close> returned; \<open>rb_ring r n\<close> is the object behind pointer \<open>n\<close>.
  Accesses are sequentially consistent: \<^verbatim>\<open>std::atomic\<close> gives that for the two indices, and \<^verbatim>\<open>eos_\<close>, a plain
  \<^verbatim>\<open>bool\<close>, is taken to behave the same way.
  The capture source is a list of the results that \<^verbatim>\<open>Capture::read\<close> will give.
\<close>

subsection \<open>States\<close>

datatype 'a cap_result = CapOK 'a | CapNONE | CapERROR | CapEXIT

datatype prod_pc = PRetain | PWait nat | PRead nat | PPush nat | PClose | PDone

datatype cons_pc = CPull | CWait nat | CEmpty nat | CTake nat | CProc | CDone

record 'a pipe =
  pi_ring :: "'a ring"
  pi_src :: "'a cap_result list"
  pi_prod :: prod_pc
  pi_cons :: cons_pc
  pi_pulled :: "'a list"

definition pipe_init :: "(nat \<Rightarrow> 'a) \<Rightarrow> 'a cap_result list \<Rightarrow> 'a pipe" where
  "pipe_init objs src =
     \<lparr>pi_ring = RingBuffer_new objs, pi_src = src, pi_prod = PRetain, pi_cons = CPull, pi_pulled = []\<rparr>"

subsection \<open>Steps\<close>

text \<open>The flag of a step says whether it is a step forward, or a turn of a waiting loop.\<close>

definition read_slot :: "nat \<Rightarrow> 'a pipe \<Rightarrow> (bool \<times> 'a pipe) option" where
  "read_slot n s =
     (case pi_src s of
        [] \<Rightarrow> None
      | CapNONE # src \<Rightarrow> Some (False, s\<lparr>pi_src := src\<rparr>)
      | CapOK x # src \<Rightarrow>
          Some (True, s\<lparr>pi_src := src, pi_prod := PPush n,
            pi_ring := (pi_ring s)\<lparr>rb_ring := (rb_ring (pi_ring s))(n := x)\<rparr>\<rparr>)
      | CapERROR # src \<Rightarrow> Some (True, s\<lparr>pi_src := src, pi_prod := PClose\<rparr>)
      | CapEXIT # src \<Rightarrow> Some (True, s\<lparr>pi_src := src, pi_prod := PClose\<rparr>))"

fun prod_step :: "prod_pc \<Rightarrow> 'a pipe \<Rightarrow> (bool \<times> 'a pipe) option" where
  "prod_step PRetain s = Some (True, s\<lparr>pi_prod := PWait (rb_next (rb_push_idx (pi_ring s)))\<rparr>)"
| "prod_step (PWait n) s =
     (if n = rb_pull_idx (pi_ring s)
      then Some (False, s\<lparr>pi_ring := snd (rb_retain_wait (100, pi_ring s))\<rparr>)
      else Some (True, s\<lparr>pi_prod := PRead n\<rparr>))"
| "prod_step (PRead n) s = read_slot n s"
| "prod_step (PPush n) s =
     Some (True, s\<lparr>pi_prod := PRetain, pi_ring := rb_push (rb_ring (pi_ring s) n) (pi_ring s)\<rparr>)"
| "prod_step PClose s = Some (True, s\<lparr>pi_prod := PDone, pi_ring := rb_close (pi_ring s)\<rparr>)"
| "prod_step PDone s = None"

fun cons_step :: "cons_pc \<Rightarrow> 'a pipe \<Rightarrow> (bool \<times> 'a pipe) option" where
  "cons_step CPull s = Some (True, s\<lparr>pi_cons := CWait (rb_next (rb_pull_idx (pi_ring s)))\<rparr>)"
| "cons_step (CWait n) s =
     (if n = rb_next (rb_push_idx (pi_ring s))
      then Some (False, s\<lparr>pi_cons := CEmpty n\<rparr>)
      else Some (True, s\<lparr>pi_cons := CTake n\<rparr>))"
| "cons_step (CEmpty n) s =
     (if rb_eos (pi_ring s) then Some (True, s\<lparr>pi_cons := CDone\<rparr>)
      else Some (False, s\<lparr>pi_cons := CWait n, pi_ring := snd (rb_pull_turn (1, pi_ring s))\<rparr>))"
| "cons_step (CTake n) s =
     Some (True, s\<lparr>pi_cons := CProc, pi_pulled := pi_pulled s @ [rb_ring (pi_ring s) n],
       pi_ring := (pi_ring s)\<lparr>rb_pull_idx := n\<rparr>\<rparr>)"
| "cons_step CProc s = Some (True, s\<lparr>pi_cons := CPull\<rparr>)"
| "cons_step CDone s = None"

inductive pipe_step :: "bool \<Rightarrow> 'a pipe \<Rightarrow> 'a pipe \<Rightarrow> bool" where
  producer: "prod_step (pi_prod s) s = Some (b, s') \<Longrightarrow> pipe_step b s s'"
| consumer: "cons_step (pi_cons s) s = Some (b, s') \<Longrightarrow> pipe_step b s s'"

inductive pipe_run :: "'a pipe \<Rightarrow> 'a pipe \<Rightarrow> bool" where
  refl: "pipe_run s s"
| step: "pipe_run s s' \<Longrightarrow> pipe_step b s' s'' \<Longrightarrow> pipe_run s s''"

inductive_simps pipe_step_iff: "pipe_step b s s'"

subsection \<open>The invariant\<close>

text \<open>The packets a source delivers, and the packet read into a slot and not yet pushed.\<close>

fun delivered :: "'a cap_result list \<Rightarrow> 'a list" where
  "delivered [] = []"
| "delivered (CapOK x # s) = x # delivered s"
| "delivered (CapNONE # s) = delivered s"
| "delivered (CapERROR # s) = []"
| "delivered (CapEXIT # s) = []"

definition to_read :: "'a pipe \<Rightarrow> 'a list" where
  "to_read s = (if pi_prod s \<in> {PClose, PDone} then [] else delivered (pi_src s))"

definition pending :: "'a pipe \<Rightarrow> 'a list" where
  "pending s = (case pi_prod s of PPush n \<Rightarrow> [rb_ring (pi_ring s) n] | _ \<Rightarrow> [])"

definition flow :: "'a pipe \<Rightarrow> 'a list" where
  "flow s = pi_pulled s @ rb_contents (pi_ring s) @ pending s @ to_read s"

definition prod_ok :: "'a pipe \<Rightarrow> bool" where
  "prod_ok s \<longleftrightarrow>
     (case pi_prod s of
        PWait n \<Rightarrow> n = rb_next (rb_push_idx (pi_ring s))
      | PRead n \<Rightarrow> n = rb_next (rb_push_idx (pi_ring s)) \<and> \<not> rb_full (pi_ring s)
      | PPush n \<Rightarrow> n = rb_next (rb_push_idx (pi_ring s)) \<and> \<not> rb_full (pi_ring s)
      | _ \<Rightarrow> True)"

definition cons_ok :: "'a pipe \<Rightarrow> bool" where
  "cons_ok s \<longleftrightarrow>
     (case pi_cons s of
        CWait n \<Rightarrow> n = rb_next (rb_pull_idx (pi_ring s))
      | CEmpty n \<Rightarrow> n = rb_next (rb_pull_idx (pi_ring s))
      | CTake n \<Rightarrow> n = rb_next (rb_pull_idx (pi_ring s)) \<and> \<not> rb_empty (pi_ring s)
      | CProc \<Rightarrow> pi_pulled s \<noteq> [] \<and> rb_ring (pi_ring s) (rb_pull_idx (pi_ring s)) = last (pi_pulled s)
      | _ \<Rightarrow> True)"

definition pipe_inv :: "'a list \<Rightarrow> 'a pipe \<Rightarrow> bool" where
  "pipe_inv xs s \<longleftrightarrow>
     rb_wf (pi_ring s) \<and> prod_ok s \<and> cons_ok s \<and> (rb_eos (pi_ring s) \<longleftrightarrow> pi_prod s = PDone)
     \<and> (pi_cons s = CDone \<longrightarrow> pi_prod s = PDone)
     \<and> flow s = xs"

lemmas pipe_inv_defs = pipe_inv_def prod_ok_def cons_ok_def flow_def pending_def to_read_def

lemma pipe_inv_init: "pipe_inv (delivered src) (pipe_init objs src)"
  using RingBuffer_new_wf [of objs]
  by (simp add: pipe_inv_defs pipe_init_def) (simp add: RingBuffer_new_def)

text \<open>Writing the retained slot changes neither the unread packets nor the packet being decoded.\<close>

lemma fill_contents:
  assumes "rb_wf r" "\<not> rb_full r"
  shows "rb_contents (r\<lparr>rb_ring := (rb_ring r)(rb_next (rb_push_idx r) := x)\<rparr>) = rb_contents r"
  using rb_push_slot_fresh [OF assms] by (auto simp: rb_contents_def rb_count_def)

lemma not_full_pull: "\<not> rb_full r \<Longrightarrow> rb_pull_idx r \<noteq> rb_next (rb_push_idx r)"
  by (simp add: rb_full_def)

lemma rb_frame_more [simp]:
  "rb_full (rb_close r) = rb_full r" "rb_empty (rb_close r) = rb_empty r"
  "rb_full (r\<lparr>rb_ring := f\<rparr>) = rb_full r" "rb_empty (r\<lparr>rb_ring := f\<rparr>) = rb_empty r"
  "rb_wf (r\<lparr>rb_ring := f\<rparr>) = rb_wf r" "rb_eos (rb_push x r) = rb_eos r"
  "rb_pull_idx (rb_push x r) = rb_pull_idx r" "rb_eos (rb_close r)"
  "rb_pull_idx (rb_close r) = rb_pull_idx r" "rb_push_idx (rb_close r) = rb_push_idx r"
  "rb_ring (rb_close r) = rb_ring r"
  by (simp_all add: rb_full_def rb_empty_def rb_wf_def rb_push_def rb_close_def Let_def)

lemma rb_wait_frame [simp]:
  "rb_full (snd (rb_retain_wait (w, r))) = rb_full r" "rb_full (snd (rb_pull_turn (w, r))) = rb_full r"
  "rb_empty (snd (rb_retain_wait (w, r))) = rb_empty r" "rb_empty (snd (rb_pull_turn (w, r))) = rb_empty r"
  "rb_eos (snd (rb_retain_wait (w, r))) = rb_eos r" "rb_eos (snd (rb_pull_turn (w, r))) = rb_eos r"
  "rb_pull_idx (snd (rb_retain_wait (w, r))) = rb_pull_idx r"
  "rb_pull_idx (snd (rb_pull_turn (w, r))) = rb_pull_idx r"
  "rb_push_idx (snd (rb_retain_wait (w, r))) = rb_push_idx r"
  "rb_push_idx (snd (rb_pull_turn (w, r))) = rb_push_idx r"
  "rb_ring (snd (rb_retain_wait (w, r))) = rb_ring r" "rb_ring (snd (rb_pull_turn (w, r))) = rb_ring r"
  by (simp_all add: rb_retain_wait_def rb_pull_turn_def rb_full_def rb_empty_def)

lemma rb_push_not_empty: "rb_wf r \<Longrightarrow> \<not> rb_full r \<Longrightarrow> \<not> rb_empty (rb_push x r)"
  using rb_push_wf [of r x] rb_push_count [of r x] by (simp add: rb_empty_iff)

lemma rb_push_ring: "rb_ring (rb_push (rb_ring r (rb_next (rb_push_idx r))) r) = rb_ring r"
  by (simp add: rb_push_def Let_def)

lemma take_slot:
  assumes "rb_wf r" "\<not> rb_empty r"
  shows "rb_contents r = rb_ring r (rb_next (rb_pull_idx r))
           # rb_contents (r\<lparr>rb_pull_idx := rb_next (rb_pull_idx r)\<rparr>)"
    and "rb_wf (r\<lparr>rb_pull_idx := rb_next (rb_pull_idx r)\<rparr>)"
    and "\<not> rb_full (r\<lparr>rb_pull_idx := rb_next (rb_pull_idx r)\<rparr>)"
proof -
  obtain c where c: "rb_count r = Suc c"
    using assms by (cases "rb_count r") (simp_all add: rb_empty_iff)
  from rb_take_contents [OF assms(1) c] show "rb_contents r = rb_ring r (rb_next (rb_pull_idx r))
      # rb_contents (r\<lparr>rb_pull_idx := rb_next (rb_pull_idx r)\<rparr>)"
    by (simp add: rb_take_def Let_def)
  from rb_take_count [OF assms(1) c] show "rb_wf (r\<lparr>rb_pull_idx := rb_next (rb_pull_idx r)\<rparr>)"
      "\<not> rb_full (r\<lparr>rb_pull_idx := rb_next (rb_pull_idx r)\<rparr>)"
    using rb_count_less [of r] c by (simp_all add: rb_take_def Let_def rb_full_iff)
qed

text \<open>What each thread knows is stable under the steps of the other one.\<close>

lemma cons_ok_frame:
  assumes "cons_ok s" "pi_cons s' = pi_cons s" "pi_pulled s' = pi_pulled s"
    "rb_pull_idx (pi_ring s') = rb_pull_idx (pi_ring s)"
    "rb_ring (pi_ring s') (rb_pull_idx (pi_ring s)) = rb_ring (pi_ring s) (rb_pull_idx (pi_ring s))"
    "rb_empty (pi_ring s') \<Longrightarrow> rb_empty (pi_ring s)"
  shows "cons_ok s'"
  using assms by (simp add: cons_ok_def split: cons_pc.splits) blast

lemma prod_ok_frame:
  assumes "prod_ok s" "pi_prod s' = pi_prod s"
    "rb_push_idx (pi_ring s') = rb_push_idx (pi_ring s)"
    "rb_full (pi_ring s') \<Longrightarrow> rb_full (pi_ring s)"
  shows "prod_ok s'"
  using assms by (simp add: prod_ok_def split: prod_pc.splits) blast+

lemma prod_step_cons_ok:
  assumes "pipe_inv xs s" "prod_step (pi_prod s) s = Some (b, s')"
  shows "cons_ok s'"
proof (rule cons_ok_frame [of s])
  have inv: "rb_wf (pi_ring s)" "prod_ok s" "cons_ok s"
    using assms(1) by (simp_all add: pipe_inv_def)
  then show "cons_ok s" by simp
  show "rb_empty (pi_ring s)" if "rb_empty (pi_ring s')"
    using that inv assms(2) rb_push_not_empty [of "pi_ring s"]
    by (cases "pi_prod s") (auto simp: prod_ok_def read_slot_def split: if_splits list.splits cap_result.splits)
  show "rb_ring (pi_ring s') (rb_pull_idx (pi_ring s)) = rb_ring (pi_ring s) (rb_pull_idx (pi_ring s))"
    using inv assms(2) not_full_pull [of "pi_ring s"]
    by (cases "pi_prod s")
      (auto simp: prod_ok_def read_slot_def rb_push_ring split: if_splits list.splits cap_result.splits)
qed (use assms(2) in \<open>cases "pi_prod s";
      auto simp: read_slot_def split: if_splits list.splits cap_result.splits\<close>)+

lemma cons_step_prod_ok:
  assumes "pipe_inv xs s" "cons_step (pi_cons s) s = Some (b, s')"
  shows "prod_ok s'"
proof (rule prod_ok_frame [of s])
  have inv: "rb_wf (pi_ring s)" "prod_ok s" "cons_ok s"
    using assms(1) by (simp_all add: pipe_inv_def)
  then show "prod_ok s" by simp
  show "rb_full (pi_ring s)" if "rb_full (pi_ring s')"
    using that inv assms(2) take_slot(3) [of "pi_ring s"]
    by (cases "pi_cons s") (auto simp: cons_ok_def split: if_splits)
qed (use assms(2) in \<open>cases "pi_cons s"; auto split: if_splits\<close>)+

lemma prod_step_prod_ok:
  assumes "pipe_inv xs s" "prod_step (pi_prod s) s = Some (b, s')"
  shows "prod_ok s'"
  using assms
  by (cases "pi_prod s")
    (auto simp: pipe_inv_def prod_ok_def read_slot_def rb_full_def
      split: if_splits list.splits cap_result.splits)

lemma cons_step_cons_ok:
  assumes "pipe_inv xs s" "cons_step (pi_cons s) s = Some (b, s')"
  shows "cons_ok s'"
  using assms
  by (cases "pi_cons s") (auto simp: pipe_inv_def cons_ok_def rb_empty_def split: if_splits)

lemma read_slot_flow:
  assumes "rb_wf (pi_ring s)" "\<not> rb_full (pi_ring s)" "pi_prod s = PRead (rb_next (rb_push_idx (pi_ring s)))"
    "read_slot (rb_next (rb_push_idx (pi_ring s))) s = Some (b, s')"
  shows "rb_wf (pi_ring s') \<and> flow s' = flow s"
  using assms(3,4) assms(1) fill_contents [OF assms(1,2)]
  by (auto simp: flow_def pending_def to_read_def read_slot_def split: list.splits cap_result.splits)

lemma prod_step_flow:
  assumes "pipe_inv xs s" "prod_step (pi_prod s) s = Some (b, s')"
  shows "rb_wf (pi_ring s') \<and> flow s' = flow s"
proof (cases "pi_prod s")
  case (PRead n)
  with assms have "rb_wf (pi_ring s)" "\<not> rb_full (pi_ring s)" "n = rb_next (rb_push_idx (pi_ring s))"
    by (simp_all add: pipe_inv_def prod_ok_def)
  with PRead assms(2) show ?thesis
    by (simp add: read_slot_flow)
next
  case (PPush n)
  with assms have "rb_wf (pi_ring s)" "\<not> rb_full (pi_ring s)" "n = rb_next (rb_push_idx (pi_ring s))"
    by (simp_all add: pipe_inv_def prod_ok_def)
  with PPush assms(2) show ?thesis
    by (auto simp: rb_push_wf rb_push_contents flow_def pending_def to_read_def)
qed (use assms in \<open>auto simp: pipe_inv_def flow_def pending_def to_read_def split: if_splits\<close>)

lemma cons_step_frame:
  assumes "cons_step (pi_cons s) s = Some (b, s')"
  shows "pending s' = pending s" "to_read s' = to_read s"
  using assms
  by (cases "pi_cons s"; auto simp: pending_def to_read_def split: if_splits prod_pc.split)+

lemma cons_step_flow:
  assumes "pipe_inv xs s" "cons_step (pi_cons s) s = Some (b, s')"
  shows "rb_wf (pi_ring s') \<and> flow s' = flow s"
proof (cases "pi_cons s")
  case (CTake n)
  with assms(1) have "n = rb_next (rb_pull_idx (pi_ring s))" "\<not> rb_empty (pi_ring s)" "rb_wf (pi_ring s)"
    by (simp_all add: pipe_inv_def cons_ok_def)
  with CTake assms(2) take_slot(1,2) [of "pi_ring s"] cons_step_frame [OF assms(2)] show ?thesis
    by (auto simp: flow_def)
qed (use assms cons_step_frame [OF assms(2)] in \<open>auto simp: pipe_inv_def flow_def split: if_splits\<close>)

lemma prod_step_end:
  assumes "pipe_inv xs s" "prod_step (pi_prod s) s = Some (b, s')"
  shows "(rb_eos (pi_ring s') \<longleftrightarrow> pi_prod s' = PDone) \<and> (pi_cons s' = CDone \<longrightarrow> pi_prod s' = PDone)"
  using assms
  by (cases "pi_prod s")
    (auto simp: pipe_inv_def read_slot_def split: if_splits list.splits cap_result.splits)

lemma cons_step_end:
  assumes "pipe_inv xs s" "cons_step (pi_cons s) s = Some (b, s')"
  shows "(rb_eos (pi_ring s') \<longleftrightarrow> pi_prod s' = PDone) \<and> (pi_cons s' = CDone \<longrightarrow> pi_prod s' = PDone)"
  using assms by (cases "pi_cons s") (auto simp: pipe_inv_def split: if_splits)

lemma prod_step_inv:
  assumes "pipe_inv xs s" "prod_step (pi_prod s) s = Some (b, s')"
  shows "pipe_inv xs s'"
  using assms(1) prod_step_flow [OF assms] prod_step_end [OF assms] prod_step_prod_ok [OF assms]
    prod_step_cons_ok [OF assms]
  by (simp add: pipe_inv_def)

lemma cons_step_inv:
  assumes "pipe_inv xs s" "cons_step (pi_cons s) s = Some (b, s')"
  shows "pipe_inv xs s'"
  using assms(1) cons_step_flow [OF assms] cons_step_end [OF assms] cons_step_prod_ok [OF assms]
    cons_step_cons_ok [OF assms]
  by (simp add: pipe_inv_def)

lemma pipe_run_inv: "pipe_run s s' \<Longrightarrow> pipe_inv xs s \<Longrightarrow> pipe_inv xs s'"
  by (induction rule: pipe_run.induct) (auto simp: pipe_step_iff intro: prod_step_inv cons_step_inv)

lemma pipe_reach_inv: "pipe_run (pipe_init objs src) s \<Longrightarrow> pipe_inv (delivered src) s"
  using pipe_run_inv [OF _ pipe_inv_init] .

text \<open>A run is found by choosing who moves: \<open>True\<close> the capture thread, \<open>False\<close> the decoder.\<close>

definition pipe_move :: "bool \<Rightarrow> 'a pipe \<Rightarrow> 'a pipe" where
  "pipe_move t s =
     (case (if t then prod_step (pi_prod s) s else cons_step (pi_cons s) s) of
        None \<Rightarrow> s | Some (b, s') \<Rightarrow> s')"

lemma pipe_move_run: "pipe_run s s' \<Longrightarrow> pipe_run s (pipe_move t s')"
  by (auto simp: pipe_move_def split: option.splits
      intro: pipe_run.step pipe_step.intros)

lemma pipe_schedule: "pipe_run s s' \<Longrightarrow> pipe_run s (fold pipe_move ts s')"
  by (induction ts arbitrary: s') (auto intro: pipe_move_run)

subsection \<open>What the pipeline guarantees\<close>

lemma wait_slot_empty:
  "cons_ok s \<Longrightarrow> pi_cons s = CWait n \<Longrightarrow> n = rb_next (rb_push_idx (pi_ring s)) \<longleftrightarrow> rb_empty (pi_ring s)"
  by (simp add: cons_ok_def rb_empty_def)

lemma take_move:
  assumes "pipe_inv xs s" "rb_contents (pi_ring s) = y # ys" "pi_cons s = CTake n"
  shows "pi_pulled (pipe_move False s) = pi_pulled s @ [y]"
    and "\<not> rb_full (pi_ring (pipe_move False s))"
  using assms take_slot [of "pi_ring s"]
  by (auto simp: pipe_inv_def cons_ok_def pipe_move_def)

lemma contents_not_empty: "pipe_inv xs s \<Longrightarrow> rb_contents (pi_ring s) = y # ys \<Longrightarrow> \<not> rb_empty (pi_ring s)"
  by (auto simp: pipe_inv_def rb_empty_iff simp flip: rb_contents_length)

definition pull_moves :: "cons_pc \<Rightarrow> nat" where
  "pull_moves pc = (case pc of CTake n \<Rightarrow> 1 | CWait n \<Rightarrow> 2 | CPull \<Rightarrow> 3 | CEmpty n \<Rightarrow> 3 | CProc \<Rightarrow> 4 | CDone \<Rightarrow> 0)"

lemma pipe_move_inv: "pipe_inv xs s \<Longrightarrow> pipe_inv xs (pipe_move t s)"
  by (auto simp: pipe_move_def split: option.splits intro: prod_step_inv cons_step_inv)

lemma pull_move:
  assumes "pipe_inv xs s" "rb_contents (pi_ring s) = y # ys" "pi_cons s \<noteq> CDone"
    "\<nexists>n. pi_cons s = CEmpty n \<and> rb_eos (pi_ring s)" "\<nexists>n. pi_cons s = CTake n"
  defines "s' \<equiv> pipe_move False s"
  shows "rb_contents (pi_ring s') = y # ys" "pi_pulled s' = pi_pulled s"
    "pull_moves (pi_cons s) = Suc (pull_moves (pi_cons s'))"
    "pi_cons s' \<noteq> CDone" "\<nexists>n. pi_cons s' = CEmpty n"
  using assms(1-5) contents_not_empty [OF assms(1,2)] wait_slot_empty [of s]
  by (cases "pi_cons s"; simp add: s'_def pipe_move_def pull_moves_def pipe_inv_def)+

lemma pull_progress:
  assumes "pipe_inv xs s" "rb_contents (pi_ring s) = y # ys" "pi_cons s \<noteq> CDone"
    "\<nexists>n. pi_cons s = CEmpty n \<and> rb_eos (pi_ring s)"
  shows "pi_pulled ((pipe_move False ^^ pull_moves (pi_cons s)) s) = pi_pulled s @ [y]
    \<and> \<not> rb_full (pi_ring ((pipe_move False ^^ pull_moves (pi_cons s)) s))"
  using assms
proof (induction "pull_moves (pi_cons s)" arbitrary: s rule: less_induct)
  case less
  show ?case
  proof (cases "\<exists>n. pi_cons s = CTake n")
    case True
    then show ?thesis
      using take_move [OF less(2,3)] by (auto simp: pull_moves_def)
  next
    case False
    note m = pull_move [OF less(2-5) False]
    from less(1) [OF _ pipe_move_inv [OF less(2)] m(1,4)] m(2,3,5) show ?thesis
      by (simp add: funpow_swap1 del: funpow.simps(2)) (simp add: funpow_Suc_right del: funpow.simps(2))
  qed
qed

text \<open>Once the channel is closed, a decoder that then looks at the ring empties it before it stops.\<close>

definition draining :: "'a pipe \<Rightarrow> bool" where
  "draining s \<longleftrightarrow>
     pi_prod s = PDone
     \<and> (pi_cons s = CDone \<or> (\<exists>n. pi_cons s = CEmpty n) \<longrightarrow> rb_contents (pi_ring s) = [])"

lemma draining_step:
  assumes "pipe_inv xs s" "draining s" "pipe_step b s s'"
  shows "draining s'"
proof -
  have "rb_empty (pi_ring s) \<longleftrightarrow> rb_contents (pi_ring s) = []"
    using assms(1) by (simp add: pipe_inv_def rb_empty_iff flip: length_0_conv)
  then show ?thesis
    using assms wait_slot_empty [of s] by (cases "pi_cons s") (auto simp: draining_def pipe_step_iff pipe_inv_def split: if_splits)
qed

lemma draining_run: "pipe_run s s' \<Longrightarrow> pipe_inv xs s \<Longrightarrow> draining s \<Longrightarrow> draining s'"
  by (induction rule: pipe_run.induct) (auto intro: draining_step pipe_run_inv)

subsection \<open>Properties\<close>

text \<open>
  C4: No packet is lost, duplicated or reordered between the capture source and the decoder. In every state the
  two threads can reach, in any interleaving, the packets the decoder has pulled, followed by the unread packets
  of the ring, the packet read into the retained slot and the packets the source will still deliver, are the
  packets of the source in order.
\<close>

theorem pipeline_conserves:
  assumes "pipe_run (pipe_init objs src) s"
  shows "pi_pulled s @ rb_contents (pi_ring s) @ pending s @ to_read s = delivered src"
  using pipe_reach_inv [OF assms] by (simp add: pipe_inv_def flow_def)

definition demo_src :: "nat cap_result list" where
  "demo_src = [CapNONE, CapOK 7, CapOK 8, CapEXIT]"

definition demo :: "bool list \<Rightarrow> nat pipe" where
  "demo ts = fold pipe_move ts (pipe_init (\<lambda>_. 0) demo_src)"

lemma demo_run: "pipe_run (pipe_init (\<lambda>_. 0) demo_src) (demo ts)"
  by (simp add: demo_def pipe_schedule pipe_run.refl)

lemma demo_run_more: "pipe_run (demo ts) (demo (ts @ ts'))"
  by (simp add: demo_def pipe_schedule pipe_run.refl)

theorem pipeline_conserves_witness:
  "let s = demo [True, True, True, True, True, False, False]
   in pi_pulled s @ rb_contents (pi_ring s) @ pending s @ to_read s = delivered demo_src
     \<and> rb_contents (pi_ring s) = [7] \<and> to_read s = [8]"
proof -
  let ?s = "demo [True, True, True, True, True, False, False]"
  have "rb_contents (pi_ring ?s) = [7]" "to_read ?s = [8]"
    by code_simp+
  then show ?thesis
    using pipeline_conserves [OF demo_run, of "[True, True, True, True, True, False, False]"]
    by (simp add: Let_def)
qed

text \<open>
  C14: The threads do not touch the same packet object. While the capture thread reads into a slot or pushes it,
  that slot is neither the one the decoder is working on nor one that waits to be decoded; and while the decoder
  works on a packet, the object behind its pointer still is the packet it pulled.
\<close>

theorem pipeline_exclusive:
  assumes "pipe_run (pipe_init objs src) s"
  shows "(pi_prod s = PRead n \<or> pi_prod s = PPush n \<longrightarrow>
            n \<noteq> rb_pull_idx (pi_ring s)
            \<and> (\<forall>i < rb_count (pi_ring s). n \<noteq> (rb_pull_idx (pi_ring s) + Suc i) mod RING_SIZE))
       \<and> (pi_cons s = CProc \<longrightarrow>
            pi_pulled s \<noteq> [] \<and> rb_ring (pi_ring s) (rb_pull_idx (pi_ring s)) = last (pi_pulled s))"
proof -
  have inv: "rb_wf (pi_ring s)" "prod_ok s" "cons_ok s"
    using pipe_reach_inv [OF assms] by (simp_all add: pipe_inv_def)
  have "n = rb_next (rb_push_idx (pi_ring s)) \<and> \<not> rb_full (pi_ring s)"
    if "pi_prod s = PRead n \<or> pi_prod s = PPush n"
    using that inv(2) by (auto simp: prod_ok_def)
  then have "n \<noteq> rb_pull_idx (pi_ring s) \<and> (\<forall>i < rb_count (pi_ring s). n \<noteq> (rb_pull_idx (pi_ring s) + Suc i) mod RING_SIZE)"
    if "pi_prod s = PRead n \<or> pi_prod s = PPush n"
    using that not_full_pull [of "pi_ring s"] rb_push_slot_fresh [OF inv(1)] by metis
  moreover have "pi_pulled s \<noteq> [] \<and> rb_ring (pi_ring s) (rb_pull_idx (pi_ring s)) = last (pi_pulled s)"
    if "pi_cons s = CProc"
    using inv(3) that by (simp add: cons_ok_def)
  ultimately show ?thesis by blast
qed

theorem pipeline_exclusive_witness:
  "pi_prod (demo [True, True]) = PRead 1 \<and> 1 \<noteq> rb_pull_idx (pi_ring (demo [True, True]))"
proof -
  have "pi_prod (demo [True, True]) = PRead 1"
    by code_simp
  then show ?thesis
    using pipeline_exclusive [OF demo_run, of "[True, True]" 1] by blast
qed



text \<open>
  C34: If the channel is closed when the decoder next looks at the ring, the decoder ends only after it has pulled
  every packet the source delivered.
\<close>

theorem drained_after_close:
  assumes "pipe_run (pipe_init objs src) s" "pi_prod s = PDone" "pi_cons s = CWait n"
    "pipe_run s s'" "pi_cons s' = CDone"
  shows "pi_pulled s' = delivered src"
proof -
  note inv = pipe_reach_inv [OF assms(1)]
  have "draining s'"
    using draining_run [OF assms(4) inv] assms(2,3) by (simp add: draining_def)
  then show ?thesis
    using pipe_run_inv [OF assms(4) inv] assms(5)
    by (simp add: draining_def pipe_inv_def flow_def pending_def to_read_def)
qed

theorem drained_after_close_witness:
  "pi_pulled (demo (replicate 13 True @ [False] @ replicate 10 False)) = delivered demo_src"
proof -
  let ?ts = "replicate 13 True @ [False]"
  have c: "pi_prod (demo ?ts) = PDone" "pi_cons (demo ?ts) = CWait 1"
      "pi_cons (demo (?ts @ replicate 10 False)) = CDone"
    by code_simp+
  show ?thesis
    using drained_after_close [OF demo_run c(1,2) demo_run_more c(3)] by simp
qed

text \<open>
  C35: A packet can be lost at the end of a capture: if the decoder finds the ring empty, and the capture thread
  then pushes a packet and closes the channel before the decoder reads \<^verbatim>\<open>eos_\<close>, \<^verbatim>\<open>pull\<close> returns \<^verbatim>\<open>nullptr\<close> and
  both threads end with the packet unread.
\<close>

theorem close_race_loses_packet:
  "\<exists>s. pipe_run (pipe_init objs [CapOK x, CapEXIT]) s \<and> pi_prod s = PDone \<and> pi_cons s = CDone
    \<and> pi_pulled s = [] \<and> rb_contents (pi_ring s) = [x]"
proof -
  let ?ts = "[False, False, True, True, True, True, True, True, True, True, False]"
  let ?s = "fold pipe_move ?ts (pipe_init objs [CapOK x, CapEXIT])"
  have "pi_prod ?s = PDone \<and> pi_cons ?s = CDone \<and> pi_pulled ?s = [] \<and> rb_contents (pi_ring ?s) = [x]"
    by (simp add: pipe_move_def pipe_init_def RingBuffer_new_def rb_next_def RING_SIZE_def read_slot_def
        rb_push_def rb_close_def rb_contents_def rb_count_def Let_def)
  then show ?thesis
    using pipe_schedule [OF pipe_run.refl, of "pipe_init objs [CapOK x, CapEXIT]" ?ts] by blast
qed

end
