(* ===== verification/PM_Machine.thy ===== *)
theory PM_Machine
  imports PM_Kernel PM_Pipeline
begin

text \<open>
  The user's interface: capture sources (\<^verbatim>\<open>src/capture.cc\<close>), threads (\<^verbatim>\<open>src/thread.cc\<close>) and class \<^verbatim>\<open>Machine\<close> of
  \<^verbatim>\<open>src/packetmachine.cc\<close>. libpcap is a parameter \<open>pcap_ops\<close> over an opaque handle \<open>'h\<close>; of pthreads only what a
  thread object may be asked in which state is modelled, with the result of \<^verbatim>\<open>pthread_timedjoin_np\<close> a parameter.
\<close>

subsection \<open>Capture sources\<close>

record pcap_frame =
  fr_data :: "byte list"
  fr_caplen :: "32 word"
  fr_ts :: timeval

record 'h pcap_ops =
  po_open_live :: "string \<Rightarrow> string + 'h"
  po_open_offline :: "string \<Rightarrow> string + 'h"
  po_next_ex :: "'h \<Rightarrow> int \<times> pcap_frame \<times> 'h"
  po_geterr :: "'h \<Rightarrow> string"

record 'h capture =
  cp_name :: string
  cp_pd :: "'h option"
  cp_error :: string
  cp_ready :: bool

definition Capture_new :: "string \<Rightarrow> 'h capture" where
  "Capture_new name = \<lparr>cp_name = name, cp_pd = None, cp_error = [], cp_ready = False\<rparr>"

definition PcapDev_new :: "'h pcap_ops \<Rightarrow> string \<Rightarrow> 'h capture" where
  "PcapDev_new ops dev_name =
     (case po_open_live ops dev_name of
        Inl errbuf \<Rightarrow> (Capture_new dev_name)\<lparr>cp_error := errbuf\<rparr>
      | Inr pd \<Rightarrow> (Capture_new dev_name)\<lparr>cp_pd := Some pd, cp_ready := True\<rparr>)"

definition PcapFile_new :: "'h pcap_ops \<Rightarrow> string \<Rightarrow> 'h capture" where
  "PcapFile_new ops file_path =
     (case po_open_offline ops file_path of
        Inl errbuf \<Rightarrow> (Capture_new file_path)\<lparr>cp_error := errbuf\<rparr>
      | Inr pd \<Rightarrow> (Capture_new file_path)\<lparr>cp_pd := Some pd, cp_ready := True\<rparr>)"

text \<open>\<^verbatim>\<open>read\<close> of either class; the result is the code, the packet object written to, and the source. A frame whose
  data is shorter than its \<^verbatim>\<open>caplen\<close> is read out of bounds.\<close>

definition PcapDev_read ::
  "'h pcap_ops \<Rightarrow> (nat \<Rightarrow> bool) \<Rightarrow> packet \<Rightarrow> 'h capture \<Rightarrow> (unit cap_result \<times> packet \<times> 'h capture) res" where
  "PcapDev_read ops realloc pkt cap =
     (if \<not> cp_ready cap then Inr (CapERROR, pkt, cap\<lparr>cp_error := ''pcap is not ready''\<rparr>)
      else
        (case cp_pd cap of
           None \<Rightarrow> Inl UndefinedBehaviour
         | Some pd \<Rightarrow>
             (case po_next_ex ops pd of
                (rc, fr, pd') \<Rightarrow>
                  let cap = cap\<lparr>cp_pd := Some pd'\<rparr>
                  in if rc = 1 then
                       (case bslice_opt 0 (unat (fr_caplen fr)) (fr_data fr) of
                          None \<Rightarrow> Inl UndefinedBehaviour
                        | Some data \<Rightarrow>
                            (case packet_store realloc data pkt of
                               (False, pkt) \<Rightarrow> Inr (CapERROR, pkt, cap\<lparr>cp_error := ''memory allocation error''\<rparr>)
                             | (True, pkt) \<Rightarrow>
                                 let pkt = packet_set_cap_len (fr_caplen fr) pkt;
                                     pkt = packet_set_tv (fr_ts fr) pkt
                                 in Inr (CapOK (), pkt, cap)))
                     else if rc = 0 then Inr (CapNONE, pkt, cap)
                     else if rc = -1 then
                       Inr (CapERROR, pkt, cap\<lparr>cp_error := po_geterr ops pd', cp_ready := False\<rparr>)
                     else if rc = -2 then Inr (CapEXIT, pkt, cap\<lparr>cp_ready := False\<rparr>)
                     else Inl AssertFailed)))"

definition PcapFile_read ::
  "'h pcap_ops \<Rightarrow> (nat \<Rightarrow> bool) \<Rightarrow> packet \<Rightarrow> 'h capture \<Rightarrow> (unit cap_result \<times> packet \<times> 'h capture) res" where
  "PcapFile_read ops realloc pkt cap =
     (if \<not> cp_ready cap then Inr (CapERROR, pkt, cap\<lparr>cp_error := ''pcap is not ready''\<rparr>)
      else
        (case cp_pd cap of
           None \<Rightarrow> Inl UndefinedBehaviour
         | Some pd \<Rightarrow>
             (case po_next_ex ops pd of
                (rc, fr, pd') \<Rightarrow>
                  let cap = cap\<lparr>cp_pd := Some pd'\<rparr>
                  in if rc = 1 then
                       (case bslice_opt 0 (unat (fr_caplen fr)) (fr_data fr) of
                          None \<Rightarrow> Inl UndefinedBehaviour
                        | Some data \<Rightarrow>
                            (case packet_store realloc data pkt of
                               (False, pkt) \<Rightarrow> Inr (CapERROR, pkt, cap\<lparr>cp_error := ''memory allocation error''\<rparr>)
                             | (True, pkt) \<Rightarrow>
                                 let pkt = packet_set_cap_len (fr_caplen fr) pkt;
                                     pkt = packet_set_tv (fr_ts fr) pkt
                                 in Inr (CapOK (), pkt, cap)))
                     else if rc = 0 then Inr (CapNONE, pkt, cap)
                     else if rc = -1 then
                       Inr (CapERROR, pkt, cap\<lparr>cp_error := po_geterr ops pd', cp_ready := False\<rparr>)
                     else if rc = -2 then Inr (CapEXIT, pkt, cap\<lparr>cp_ready := False\<rparr>)
                     else Inl AssertFailed)))"

subsection \<open>Threads\<close>

record timespec =
  ts_sec :: int
  ts_nsec :: int

datatype pthread = NoThread | ThreadRunning | ThreadJoined

definition Thread_start :: "pthread \<Rightarrow> pthread" where
  "Thread_start th = ThreadRunning"

definition Thread_join :: "pthread \<Rightarrow> pthread res" where
  "Thread_join th = (if th = ThreadRunning then Inr ThreadJoined else Inl UndefinedBehaviour)"

definition BILLION :: int where
  "BILLION = 1000000000"

definition ETIMEDOUT :: int where
  "ETIMEDOUT = 110"

text \<open>The absolute deadline of \<^verbatim>\<open>join(timeout)\<close>, from the time \<open>now\<close> that \<^verbatim>\<open>clock_gettime\<close> gives.\<close>

definition join_deadline :: "timespec \<Rightarrow> timespec \<Rightarrow> timespec" where
  "join_deadline now timeout =
     (let tv = \<lparr>ts_sec = ts_sec now + ts_sec timeout, ts_nsec = ts_nsec now + ts_nsec timeout\<rparr>
      in if ts_nsec tv > BILLION
         then \<lparr>ts_sec = ts_sec tv + ts_nsec tv div BILLION, ts_nsec = ts_nsec tv mod BILLION\<rparr>
         else tv)"

definition Thread_join_timeout ::
  "(timespec \<Rightarrow> int) \<Rightarrow> timespec \<Rightarrow> timespec \<Rightarrow> pthread \<Rightarrow> pthread res" where
  "Thread_join_timeout timedjoin now timeout th =
     (if th \<noteq> ThreadRunning then Inl UndefinedBehaviour
      else
        let r = timedjoin (join_deadline now timeout)
        in if r = 0 then Inr ThreadJoined
           else if r = ETIMEDOUT then Inr th
           else Inl AssertFailed)"

definition Thread_stop :: "pthread \<Rightarrow> pthread res" where
  "Thread_stop th = (if th = ThreadRunning then Inr ThreadJoined else Inl UndefinedBehaviour)"

subsection \<open>Machine\<close>

text \<open>\<open>mc_input\<close> is the thread of the \<^verbatim>\<open>Input\<close> object that \<^verbatim>\<open>start\<close> creates, \<open>mc_thread\<close> that of the kernel.\<close>

record 'h machine =
  mc_cap :: "'h capture option"
  mc_input :: "pthread option"
  mc_thread :: pthread
  mc_kernel :: kernel
  mc_dec :: decoder

definition Machine_new :: "config \<Rightarrow> (string, pmodule) smap \<Rightarrow> 'h machine res" where
  "Machine_new config mods =
     bind_res (decoder_init config mods) (\<lambda>(dec, _).
       Inr \<lparr>mc_cap = None, mc_input = None, mc_thread = NoThread, mc_kernel = Kernel_new (length (dc_events dec)),
            mc_dec = dec\<rparr>)"

definition add_pcapdev :: "'h pcap_ops \<Rightarrow> string \<Rightarrow> 'h machine \<Rightarrow> 'h machine res" where
  "add_pcapdev ops dev_name m =
     (if mc_cap m \<noteq> None then Inl (ConfigError ''data source has been configured'')
      else
        let cap = PcapDev_new ops dev_name
        in if \<not> cp_ready cap then Inl (ConfigError (cp_error cap)) else Inr (m\<lparr>mc_cap := Some cap\<rparr>))"

definition add_pcapfile :: "'h pcap_ops \<Rightarrow> string \<Rightarrow> 'h machine \<Rightarrow> 'h machine res" where
  "add_pcapfile ops file_path m =
     (if mc_cap m \<noteq> None then Inl (ConfigError ''data source has been configured'')
      else
        let cap = PcapFile_new ops file_path
        in if \<not> cp_ready cap then Inl (ConfigError (cp_error cap)) else Inr (m\<lparr>mc_cap := Some cap\<rparr>))"

definition data_source_name :: "'h machine \<Rightarrow> string" where
  "data_source_name m = (case mc_cap m of Some cap \<Rightarrow> cp_name cap | None \<Rightarrow> [])"

definition machine_start :: "'h machine \<Rightarrow> 'h machine res" where
  "machine_start m =
     (if mc_cap m = None then Inl (ConfigError ''no input source is available'')
      else
        let m = m\<lparr>mc_thread := Thread_start (mc_thread m)\<rparr>
        in Inr (m\<lparr>mc_input := Some (Thread_start NoThread)\<rparr>))"

definition machine_join ::
  "(timespec \<Rightarrow> int) \<Rightarrow> timespec \<Rightarrow> timespec option \<Rightarrow> 'h machine \<Rightarrow> (bool \<times> 'h machine) res" where
  "machine_join timedjoin now timeout m =
     (case mc_input m of
        None \<Rightarrow> Inl UndefinedBehaviour
      | Some th \<Rightarrow>
          bind_res
            (case timeout of
               Some t \<Rightarrow> Thread_join_timeout timedjoin now t th
             | None \<Rightarrow> Thread_join th)
            (\<lambda>th'. bind_res (Thread_join (mc_thread m)) (\<lambda>kth.
               Inr (True, m\<lparr>mc_input := Some th', mc_thread := kth\<rparr>))))"

definition machine_loop :: "(timespec \<Rightarrow> int) \<Rightarrow> timespec \<Rightarrow> 'h machine \<Rightarrow> 'h machine res" where
  "machine_loop timedjoin now m =
     bind_res (machine_start m) (\<lambda>m. bind_res (machine_join timedjoin now None m) (\<lambda>(_, m). Inr m))"

definition machine_halt :: "'h machine \<Rightarrow> 'h machine res" where
  "machine_halt m =
     (case mc_input m of
        None \<Rightarrow> Inl UndefinedBehaviour
      | Some th \<Rightarrow>
          bind_res (Thread_stop th) (\<lambda>th'. bind_res (Thread_stop (mc_thread m)) (\<lambda>kth.
            Inr (m\<lparr>mc_input := Some th', mc_thread := kth\<rparr>))))"

definition machine_on :: "string \<Rightarrow> 'h machine \<Rightarrow> (hdlr_id \<times> 'h machine) res option" where
  "machine_on event_name m =
     map_option (\<lambda>r. bind_res r (\<lambda>(h, k). Inr (h, m\<lparr>mc_kernel := k\<rparr>)))
       (kernel_on (lookup_event_id (mc_dec m)) event_name (mc_kernel m))"

definition machine_recv_pkt :: "'h machine \<Rightarrow> 64 word" where
  "machine_recv_pkt m = kn_recv_pkt (mc_kernel m)"

definition machine_recv_size :: "'h machine \<Rightarrow> 64 word" where
  "machine_recv_size m = kn_recv_size (mc_kernel m)"

definition machine_lookup_param_key :: "'h machine \<Rightarrow> string \<Rightarrow> pkey" where
  "machine_lookup_param_key m name = lookup_param_key (mc_dec m) name"

definition machine_lookup_param_name :: "'h machine \<Rightarrow> pkey \<Rightarrow> string res" where
  "machine_lookup_param_name m key = lookup_param_name_key (mc_dec m) key"

definition machine_lookup_event_id :: "'h machine \<Rightarrow> string \<Rightarrow> event_id" where
  "machine_lookup_event_id m name = lookup_event_id (mc_dec m) name"

definition machine_lookup_event_name :: "'h machine \<Rightarrow> event_id \<Rightarrow> string res" where
  "machine_lookup_event_name m eid = lookup_event_name (mc_dec m) eid"

subsection \<open>What the input thread relies on\<close>

text \<open>The results of reading into the packet objects \<open>pkts\<close>, up to the first error or the end: what the pipeline takes as
  its source.\<close>

type_synonym 'h capture_read =
  "'h pcap_ops \<Rightarrow> (nat \<Rightarrow> bool) \<Rightarrow> packet \<Rightarrow> 'h capture \<Rightarrow> (unit cap_result \<times> packet \<times> 'h capture) res"

fun replay ::
  "'h capture_read \<Rightarrow> 'h pcap_ops \<Rightarrow> (nat \<Rightarrow> bool) \<Rightarrow> packet list \<Rightarrow> 'h capture \<Rightarrow> (packet cap_result list \<times> 'h capture) res"
where
  "replay read ops realloc [] cap = Inr ([], cap)"
| "replay read ops realloc (pkt # pkts) cap =
     bind_res (read ops realloc pkt cap) (\<lambda>(r, pkt', cap').
       case r of
         CapOK _ \<Rightarrow> bind_res (replay read ops realloc pkts cap') (\<lambda>(rs, cap''). Inr (CapOK pkt' # rs, cap''))
       | CapNONE \<Rightarrow> bind_res (replay read ops realloc pkts cap') (\<lambda>(rs, cap''). Inr (CapNONE # rs, cap''))
       | CapERROR \<Rightarrow> Inr ([CapERROR], cap')
       | CapEXIT \<Rightarrow> Inr ([CapEXIT], cap'))"

text \<open>libpcap gives the frames \<open>frs\<close>, each with as many bytes as its \<^verbatim>\<open>caplen\<close>, and then reports the end of the file.\<close>

fun yields :: "'h pcap_ops \<Rightarrow> pcap_frame list \<Rightarrow> 'h \<Rightarrow> bool" where
  "yields ops [] pd = (fst (po_next_ex ops pd) = -2)"
| "yields ops (fr # frs) pd =
     (case po_next_ex ops pd of
        (rc, fr', pd') \<Rightarrow> rc = 1 \<and> fr' = fr \<and> length (fr_data fr) = unat (fr_caplen fr) \<and> yields ops frs pd')"

definition holds_frame :: "packet \<Rightarrow> pcap_frame \<Rightarrow> bool" where
  "holds_frame pkt fr \<longleftrightarrow> packet_wf pkt \<and> packet_bytes pkt = fr_data fr \<and> pk_len pkt = length (fr_data fr)
     \<and> pk_cap_len pkt = ucast (fr_caplen fr) \<and> pk_tv pkt = fr_ts fr"

locale capture_source =
  fixes read :: "'h capture_read"
  assumes read_closed: "\<not> cp_ready cap \<Longrightarrow>
      read ops realloc pkt cap = Inr (CapERROR, pkt, cap\<lparr>cp_error := ''pcap is not ready''\<rparr>)"
    and read_frame: "cp_ready cap \<Longrightarrow> cp_pd cap = Some pd \<Longrightarrow> po_next_ex ops pd = (1, fr, pd') \<Longrightarrow>
      length (fr_data fr) = unat (fr_caplen fr) \<Longrightarrow> packet_wf pkt \<Longrightarrow> realloc (length (fr_data fr)) \<Longrightarrow>
      \<exists>pkt'. read ops realloc pkt cap = Inr (CapOK (), pkt', cap\<lparr>cp_pd := Some pd'\<rparr>) \<and> holds_frame pkt' fr"
    and read_exit: "cp_ready cap \<Longrightarrow> cp_pd cap = Some pd \<Longrightarrow> po_next_ex ops pd = (-2, fr, pd') \<Longrightarrow>
      read ops realloc pkt cap = Inr (CapEXIT, pkt, cap\<lparr>cp_pd := Some pd', cp_ready := False\<rparr>)"
begin

lemma replay_frames:
  assumes "cp_ready cap" "cp_pd cap = Some pd" "yields ops frs pd" "\<forall>fr \<in> set frs. realloc (length (fr_data fr))" "\<forall>p \<in> set pkts. packet_wf p"
    "length frs < length pkts"
  shows "\<exists>ps cap'. replay read ops realloc pkts cap = Inr (map CapOK ps @ [CapEXIT], cap')
    \<and> list_all2 holds_frame ps frs \<and> \<not> cp_ready cap'
    \<and> (\<forall>pkt. read ops realloc pkt cap' = Inr (CapERROR, pkt, cap'\<lparr>cp_error := ''pcap is not ready''\<rparr>))"
  using assms
proof (induction frs arbitrary: pkts cap pd)
  case Nil
  then obtain pkt pkts' where pkts: "pkts = pkt # pkts'"
    by (cases pkts) auto
  obtain fr pd' where "po_next_ex ops pd = (-2, fr, pd')"
    using Nil.prems(3) by (cases "po_next_ex ops pd") auto
  then show ?case
    using read_exit [OF Nil.prems(1,2)] pkts by (auto simp: read_closed)
next
  case (Cons fr frs)
  then obtain pkt pkts' where pkts: "pkts = pkt # pkts'"
    by (cases pkts) auto
  obtain pd' where pd': "po_next_ex ops pd = (1, fr, pd')" "length (fr_data fr) = unat (fr_caplen fr)" "yields ops frs pd'"
    using Cons.prems(3) by (cases "po_next_ex ops pd") auto
  moreover have "packet_wf pkt" "realloc (length (fr_data fr))"
    using Cons.prems(4,5) pkts by simp_all
  ultimately obtain pkt' where pkt': "read ops realloc pkt cap = Inr (CapOK (), pkt', cap\<lparr>cp_pd := Some pd'\<rparr>)"
    "holds_frame pkt' fr"
    using read_frame [OF Cons.prems(1,2)] by blast
  obtain ps cap' where "replay read ops realloc pkts' (cap\<lparr>cp_pd := Some pd'\<rparr>) = Inr (map CapOK ps @ [CapEXIT], cap')"
    "list_all2 holds_frame ps frs" "\<not> cp_ready cap'"
    using Cons.IH [of "cap\<lparr>cp_pd := Some pd'\<rparr>" pd' pkts'] Cons.prems pd'(3) pkts by auto
  then show ?case
    using pkt' pkts read_closed by (intro exI [of _ "pkt' # ps"] exI [of _ cap']) auto
qed

end

lemma store_frame:
  assumes "packet_wf pkt" "realloc (length (fr_data fr))"
  shows "\<exists>pkt'. packet_store realloc (fr_data fr) pkt = (True, pkt')
    \<and> holds_frame (packet_set_tv (fr_ts fr) (packet_set_cap_len (fr_caplen fr) pkt')) fr"
proof -
  have ok: "fst (packet_store realloc (fr_data fr) pkt)"
    using assms(2) by (simp add: packet_store_def)
  obtain pkt' where pkt': "packet_store realloc (fr_data fr) pkt = (True, pkt')"
    using ok by (cases "packet_store realloc (fr_data fr) pkt") auto
  then show ?thesis
    using packet_store_bytes [OF assms(1) ok] packet_store_wf [OF assms(1), of realloc "fr_data fr"]
    by (auto simp: holds_frame_def packet_set_tv_def packet_set_cap_len_def packet_wf_def packet_bytes_def split: option.splits)
qed

interpretation pcapdev: capture_source "PcapDev_read :: 'h capture_read"
proof (unfold_locales, goal_cases)
  case (2 cap pd ops fr pd' pkt realloc)
  then show ?case
    using store_frame [of pkt realloc fr] by (auto simp: PcapDev_read_def Let_def bslice_opt_def bslice_def)
qed (auto simp: PcapDev_read_def Let_def)

lemma PcapFile_read_eq: "PcapFile_read = (PcapDev_read :: 'h capture_read)"
  by (simp add: PcapFile_read_def PcapDev_read_def fun_eq_iff)

interpretation pcapfile: capture_source "PcapFile_read :: 'h capture_read"
  unfolding PcapFile_read_eq by (rule pcapdev.capture_source_axioms)

subsection \<open>Properties\<close>

lemma delivered_exit: "delivered (map CapOK ps @ [CapEXIT]) = ps"
  by (induction ps) auto


text \<open>A file of one frame; the handle is the list of the frames that are left.\<close>

definition demo_pcap_frame :: pcap_frame where
  "demo_pcap_frame = \<lparr>fr_data = [1, 2, 3], fr_caplen = 3, fr_ts = \<lparr>tv_sec = 7, tv_usec = 8\<rparr>\<rparr>"

definition demo_ops :: "pcap_frame list pcap_ops" where
  "demo_ops =
     \<lparr>po_open_live = (\<lambda>_. Inl ''no such device''), po_open_offline = (\<lambda>_. Inr [demo_pcap_frame]),
      po_next_ex = (\<lambda>h. case h of [] \<Rightarrow> (-2, demo_pcap_frame, []) | fr # frs \<Rightarrow> (1, fr, frs)), po_geterr = (\<lambda>_. [])\<rparr>"

definition demo_machine :: "pcap_frame list machine" where
  "demo_machine =
     \<lparr>mc_cap = None, mc_input = None, mc_thread = NoThread, mc_kernel = Kernel_new (length (dc_events demo_dec)),
      mc_dec = demo_dec\<rparr>"


text \<open>
  The life of a machine: a second data source is refused, a source that libpcap cannot open is refused with libpcap's message, and
  in both cases nothing changes; without a source \<^verbatim>\<open>start\<close> raises; with one \<^verbatim>\<open>loop\<close> starts and joins both
  threads and leaves handlers, definitions and the source alone; \<^verbatim>\<open>join\<close> and \<^verbatim>\<open>halt\<close> before \<^verbatim>\<open>start\<close>
  dereference a null pointer.
\<close>

theorem machine_life_cycle:
  "(mc_cap m \<noteq> None \<longrightarrow>
      add_pcapdev ops name m = Inl (ConfigError ''data source has been configured'')
      \<and> add_pcapfile ops name m = Inl (ConfigError ''data source has been configured'')
      \<and> (\<exists>m'. machine_loop timedjoin now m = Inr m' \<and> mc_input m' = Some ThreadJoined \<and> mc_thread m' = ThreadJoined
           \<and> mc_kernel m' = mc_kernel m \<and> mc_dec m' = mc_dec m \<and> mc_cap m' = mc_cap m))
   \<and> (mc_cap m = None \<longrightarrow>
      machine_start m = Inl (ConfigError ''no input source is available'')
      \<and> (\<forall>e. po_open_live ops name = Inl e \<longrightarrow> add_pcapdev ops name m = Inl (ConfigError e))
      \<and> (\<forall>e. po_open_offline ops name = Inl e \<longrightarrow> add_pcapfile ops name m = Inl (ConfigError e)))
   \<and> (mc_input m = None \<longrightarrow>
      machine_join timedjoin now t m = Inl UndefinedBehaviour \<and> machine_halt m = Inl UndefinedBehaviour)"
  by (auto simp: add_pcapdev_def add_pcapfile_def machine_loop_def machine_start_def machine_join_def machine_halt_def
      PcapDev_new_def PcapFile_new_def Capture_new_def Thread_start_def Thread_join_def Let_def)

theorem machine_life_cycle_witness:
  "machine_start demo_machine = Inl (ConfigError ''no input source is available'')
   \<and> add_pcapdev demo_ops ''eth0'' demo_machine = Inl (ConfigError ''no such device'')"
  using machine_life_cycle [of demo_machine demo_ops "''eth0''"] by (simp add: demo_machine_def demo_ops_def)

text \<open>
  C40:
  \<^verbatim>\<open>join(timeout)\<close> waits until the current time plus the timeout, to the nanosecond; but when the two nanosecond parts add up
  to exactly one second the deadline is left with a \<^verbatim>\<open>tv_nsec\<close> of 1000000000, outside the range of a
  \<^verbatim>\<open>timespec\<close> (the code compares with \<^verbatim>\<open>>\<close> instead of \<^verbatim>\<open>>=\<close>), and in every other case it is in range.
\<close>

theorem join_deadline_exact:
  assumes "0 \<le> ts_nsec now" "ts_nsec now < BILLION" "0 \<le> ts_nsec t" "ts_nsec t < BILLION"
  shows "ts_sec (join_deadline now t) * BILLION + ts_nsec (join_deadline now t)
      = (ts_sec now * BILLION + ts_nsec now) + (ts_sec t * BILLION + ts_nsec t)
    \<and> (if ts_nsec now + ts_nsec t = BILLION then ts_nsec (join_deadline now t) = BILLION
        else 0 \<le> ts_nsec (join_deadline now t) \<and> ts_nsec (join_deadline now t) < BILLION)"
proof -
  have "(ts_nsec now + ts_nsec t) div BILLION * BILLION + (ts_nsec now + ts_nsec t) mod BILLION = ts_nsec now + ts_nsec t"
    by simp
  moreover have "0 < BILLION" by (simp add: BILLION_def)
  ultimately show ?thesis
    using assms unfolding join_deadline_def Let_def
    by (auto simp: distrib_right pos_mod_bound simp del: div_mult_mod_eq)
qed

theorem join_deadline_exact_witness:
  "ts_nsec (join_deadline \<lparr>ts_sec = 5, ts_nsec = 400000000\<rparr> \<lparr>ts_sec = 1, ts_nsec = 600000000\<rparr>) = BILLION"
  using join_deadline_exact [of "\<lparr>ts_sec = 5, ts_nsec = 400000000\<rparr>" "\<lparr>ts_sec = 1, ts_nsec = 600000000\<rparr>"]
  by (simp add: BILLION_def)

lemma decoder_lookup_good:
  assumes "decoder_init config mods = Inr (dec, lcs)"
  shows "good_lookup (length (dc_events dec)) (lookup_event_id dec)"
proof -
  have inv: "smap_find (dc_event_map dec) = map_of (map (\<lambda>e. (ev_name e, e)) (dc_events dec))"
    "\<forall>i < length (dc_events dec). ev_id (dc_events dec ! i) = int i"
    using decoder_init_inv [OF assms] by (simp_all add: registry_inv_def)
  have "0 \<le> ev_id d \<and> nat (ev_id d) < length (dc_events dec)" if "d \<in> set (dc_events dec)" for d
    using that inv(2) by (auto simp: in_set_conv_nth)
  then show ?thesis
    using inv(1) by (auto simp: good_lookup_def lookup_event_id_def dest!: map_of_SomeD split: option.splits)
qed



end
