(* ===== verification/PM_System.thy ===== *)
theory PM_System
  imports PM_Events PM_Machine
begin

text \<open>
  The decoding thread as a whole: \<^verbatim>\<open>Kernel::thread_main\<close> of \<^verbatim>\<open>src/kernel.cc\<close> with the decoder of \<^verbatim>\<open>src/decoder.cc\<close> and all its modules. A
  callback gets the property by const reference; what it does to the kernel may depend on the packet and the property (\<open>prog m prop\<close>).
\<close>

subsection \<open>The thread\<close>

text \<open>\<^verbatim>\<open>prop.event(i)->id()\<close> for the indices of the loop.\<close>

primrec event_ids :: "nat list \<Rightarrow> 'b property \<Rightarrow> event_id list res" where
  "event_ids [] prop = Inr []"
| "event_ids (i # is) prop =
     bind_res (property_event i prop) (\<lambda>e.
       case e of
         None \<Rightarrow> Inl UndefinedBehaviour
       | Some ev \<Rightarrow> bind_res (event_ids is prop) (\<lambda>evs. Inr (ev # evs)))"

text \<open>One packet: decode it, call the handlers of its events, carry out the requests.\<close>

definition packet_turn :: "('t, 'k) lru_ops \<Rightarrow> 'b buffer_ops \<Rightarrow> decoder \<Rightarrow> (mem \<Rightarrow> 'b property \<Rightarrow> hdlr_id \<Rightarrow> user_op list) \<Rightarrow> packet \<times> mem
    \<Rightarrow> ('t, 'b) amod list \<Rightarrow> payload \<Rightarrow> 'b property \<Rightarrow> kernel \<Rightarrow> (('t, 'b) amod list \<times> payload \<times> 'b property \<times> kernel) res option" where
  "packet_turn L ops dec prog x mods pd prop k =
     (case x of (pkt, m) \<Rightarrow>
        bind_opt (Decoder_decode L ops dec m mods (payload_reset pkt pd) (property_init pkt prop)) (\<lambda>(mods, pd, prop).
        bind_opt (Some (event_ids [0..<pr_event_idx prop] prop)) (\<lambda>evs.
        bind_opt (kernel_turn (user_prog (lookup_event_id dec) (prog m prop)) (pk_cap_len pkt) evs k) (\<lambda>k.
          Some (Inr (mods, pd, prop, k))))))"

fun packet_turns :: "('t, 'k) lru_ops \<Rightarrow> 'b buffer_ops \<Rightarrow> decoder \<Rightarrow> (mem \<Rightarrow> 'b property \<Rightarrow> hdlr_id \<Rightarrow> user_op list) \<Rightarrow> (packet \<times> mem) list
    \<Rightarrow> ('t, 'b) amod list \<Rightarrow> payload \<Rightarrow> 'b property \<Rightarrow> kernel \<Rightarrow> (('t, 'b) amod list \<times> payload \<times> 'b property \<times> kernel) res option" where
  "packet_turns L ops dec prog [] mods pd prop k = Some (Inr (mods, pd, prop, k))"
| "packet_turns L ops dec prog (x # pkts) mods pd prop k =
     bind_opt (packet_turn L ops dec prog x mods pd prop k) (\<lambda>(mods, pd, prop, k). packet_turns L ops dec prog pkts mods pd prop k)"

text \<open>\<open>pd\<close> and \<open>prop\<close> are the local variables, new for every run.\<close>

definition Kernel_thread_main :: "('t, 'k) lru_ops \<Rightarrow> 'b buffer_ops \<Rightarrow> decoder \<Rightarrow> (mem \<Rightarrow> 'b property \<Rightarrow> hdlr_id \<Rightarrow> user_op list)
    \<Rightarrow> (packet \<times> mem) list \<Rightarrow> payload \<Rightarrow> 'b property \<Rightarrow> ('t, 'b) amod list \<Rightarrow> kernel \<Rightarrow> (('t, 'b) amod list \<times> kernel) res option" where
  "Kernel_thread_main L ops dec prog pkts pd prop mods k =
     bind_opt (packet_turns L ops dec prog pkts mods pd prop (k\<lparr>kn_running := True\<rparr>)) (\<lambda>(mods, pd, prop, k).
       Some (Inr (mods, k\<lparr>kn_running := False\<rparr>)))"

subsection \<open>Events\<close>

lemma event_ids_all:
  assumes "property_wf p"
  shows "event_ids [0..<pr_event_idx p] p = Inr (events p)"
proof -
  have wf: "pr_event_idx p \<le> length (pr_event p)"
    using assms by (simp add: property_wf_def)
  have "list_all (\<lambda>i. i < pr_event_idx p) is \<Longrightarrow> event_ids is p = Inr (map (nth (pr_event p)) is)" for "is"
    using wf by (induction "is") (auto simp: property_event_def)
  moreover have "map (nth (pr_event p)) [0..<pr_event_idx p] = events p"
    using wf by (intro nth_equalityI) (simp_all add: events_def)
  ultimately show ?thesis
    by (simp add: list_all_iff del: upt_Suc)
qed

subsection \<open>Safety of a run\<close>

text \<open>The modules between two packets: as the decoder needs them, and with known events.\<close>

definition mods_idle :: "('t \<Rightarrow> nat set) \<Rightarrow> ('t \<Rightarrow> nat list) \<Rightarrow> decoder \<Rightarrow> ('t, 'b) amod list \<Rightarrow> bool" where
  "mods_idle ins outs dec mods \<longleftrightarrow> mods_ok ins outs (table_class dec) std_rank mods \<and> length mods = 12
     \<and> (\<forall>a \<in> set mods. amod_events a \<subseteq> known_events dec)"

lemma Decoder_make_idle:
  assumes "lru_laws L ins outs" "Decoder_make L config = Inr (dec, mods)"
  shows "mods_idle ins outs dec mods"
  using Decoder_make_ok [OF assms] Decoder_make_known [OF assms(2)] by (simp add: mods_idle_def)

lemma Decoder_decode_known:
  assumes laws: "lru_laws L ins outs" "buffer_laws ops" and make: "Decoder_make L config = Inr (dec, mods0)"
    and idle: "mods_idle ins outs dec mods" "idle_ok (table_class dec) ops p" and len: "pk_len pkt = length (m_pkt m)"
  shows "\<exists>mods' pd' p'. Decoder_decode L ops dec m mods (payload_reset pkt pd) (property_init pkt p) = Some (Inr (mods', pd', p'))
    \<and> mods_idle ins outs dec mods' \<and> idle_ok (table_class dec) ops p' \<and> property_wf p' \<and> events_ok (length (dc_events dec)) (events p')"
proof -
  have mods: "mods_ok ins outs (table_class dec) std_rank mods" "length mods = 12" "\<forall>a \<in> set mods. amod_events a \<subseteq> known_events dec"
    using idle(1) by (simp_all add: mods_idle_def)
  have pd: "payload_inv (length (m_pkt m)) (payload_reset pkt pd)"
    using payload_reset_inv [of pkt pd] len by simp
  have p: "property_ok (table_class dec) (property_init pkt p)" "addr_ok ops (property_init pkt p)"
    using idle(2) by (simp_all add: idle_ok_def)
  note eth = Decoder_make_ok(3) [OF laws(1) make]
  obtain mods1 pd1 p1 where d: "decode_loop L ops dec m mods 4 (payload_reset pkt pd) (property_init pkt p) = Some (Inr (mods1, pd1, p1))"
      "mods_ok ins outs (table_class dec) std_rank mods1" "kept_mods mods mods1" "property_ok (table_class dec) p1" "addr_ok ops p1"
    using decode_loop_returns [OF laws mods(1) pd p, of 4 dec] mods(2) by (auto simp: advance_def)
  have ev: "set (events p1) \<subseteq> known_events dec \<and> map amod_events mods1 = map amod_events mods"
    by (rule ev.decode_loop_keeps [OF _ mods(3) d(1)]) (use Decoder_make_known(1) [OF make] mods(2) in simp_all)
  then have "\<forall>a \<in> set mods1. amod_events a \<subseteq> known_events dec"
    using mods(3) by (metis (no_types, lifting) imageE image_eqI list.set_map)
  then show ?thesis
    using d ev mods(2) property_ok_idle [OF d(4,5)]
    by (auto simp: Decoder_decode_def eth mods_idle_def kept_mods_def property_ok_def events_ok_def)
qed

lemma Decoder_make_lookup:
  assumes "Decoder_make L config = Inr (dec, mods)"
  shows "good_lookup (length (dc_events dec)) (lookup_event_id dec)"
  using assms decoder_lookup_good by (auto simp: Decoder_make_def)

lemma packet_turn_safe:
  assumes "lru_laws L ins outs" "buffer_laws ops" "Decoder_make L config = Inr (dec, mods0)"
    and "mods_idle ins outs dec mods" "idle_ok (table_class dec) ops p" "pk_len (fst x) = length (m_pkt (snd x))"
    and "n = length (dc_events dec)" "kernel_inv n k" "kn_running k"
  shows "\<exists>mods' pd' p' k' cs. packet_turn L ops dec prog x mods pd p k = Some (Inr (mods', pd', p', k'))
    \<and> mods_idle ins outs dec mods' \<and> idle_ok (table_class dec) ops p' \<and> kernel_inv n k' \<and> kn_running k'
    \<and> mq_queue (kn_msgs k') = [] \<and> kn_calls k' = kn_calls k @ cs \<and> (\<forall>h. destroyed k h \<longrightarrow> h \<notin> set cs \<and> destroyed k' h)
    \<and> kn_recv_pkt k' = kn_recv_pkt k + 1 \<and> kn_recv_size k' = kn_recv_size k + pk_cap_len (fst x)"
proof -
  obtain pkt m where x: "x = (pkt, m)" by (cases x)
  obtain mods1 pd1 p1 where d: "Decoder_decode L ops dec m mods (payload_reset pkt pd) (property_init pkt p) = Some (Inr (mods1, pd1, p1))"
      "mods_idle ins outs dec mods1" "idle_ok (table_class dec) ops p1" "property_wf p1" "events_ok n (events p1)"
    using Decoder_decode_known [OF assms(1-5), of pkt m pd] assms(6,7) x by auto
  obtain k1 cs where k1: "kernel_turn (user_prog (lookup_event_id dec) (prog m p1)) (pk_cap_len pkt) (events p1) k = Some (Inr k1)"
      "kernel_inv n k1" "kn_running k1" "mq_queue (kn_msgs k1) = []" "kn_calls k1 = kn_calls k @ cs"
      "subseq cs (concat (map (\<lambda>ev. handlers_of k (nat ev)) (events p1)))"
      "kn_recv_pkt k1 = kn_recv_pkt k + 1" "kn_recv_size k1 = kn_recv_size k + pk_cap_len pkt" "\<forall>h. destroyed k h \<longrightarrow> destroyed k1 h"
    using kernel_turn_safe [OF assms(8,9) Decoder_make_lookup [OF assms(3), folded assms(7)] d(5), of "prog m p1" "pk_cap_len pkt"] by auto
  have "h \<notin> set cs" if "destroyed k h" for h
    using called_live(3) [OF assms(8) k1(6)] that by blast
  then show ?thesis
    using d k1 by (simp add: packet_turn_def x event_ids_all)
qed

lemma packet_turns_safe:
  assumes "lru_laws L ins outs" "buffer_laws ops" "Decoder_make L config = Inr (dec, mods0)" "n = length (dc_events dec)"
  shows "mods_idle ins outs dec mods \<Longrightarrow> idle_ok (table_class dec) ops p \<Longrightarrow> list_all (\<lambda>(pkt, m). pk_len pkt = length (m_pkt m)) pkts \<Longrightarrow>
    kernel_inv n k \<Longrightarrow> kn_running k \<Longrightarrow>
    \<exists>mods' pd' p' k' cs. packet_turns L ops dec prog pkts mods pd p k = Some (Inr (mods', pd', p', k'))
    \<and> mods_idle ins outs dec mods' \<and> kernel_inv n k' \<and> (pkts \<noteq> [] \<longrightarrow> mq_queue (kn_msgs k') = [])
    \<and> kn_calls k' = kn_calls k @ cs \<and> (\<forall>h. destroyed k h \<longrightarrow> h \<notin> set cs \<and> destroyed k' h)
    \<and> kn_recv_pkt k' = kn_recv_pkt k + word_of_nat (length pkts)
    \<and> kn_recv_size k' = kn_recv_size k + sum_list (map (pk_cap_len \<circ> fst) pkts)"
proof (induction pkts arbitrary: mods pd p k)
  case (Cons x pkts)
  have len: "pk_len (fst x) = length (m_pkt (snd x))" "list_all (\<lambda>(pkt, m). pk_len pkt = length (m_pkt m)) pkts"
    using Cons.prems(3) by (auto split: prod.splits)
  obtain mods1 pd1 p1 k1 cs where t: "packet_turn L ops dec prog x mods pd p k = Some (Inr (mods1, pd1, p1, k1))"
      "mods_idle ins outs dec mods1" "idle_ok (table_class dec) ops p1" "kernel_inv n k1" "kn_running k1" "mq_queue (kn_msgs k1) = []"
      "kn_calls k1 = kn_calls k @ cs" "\<forall>h. destroyed k h \<longrightarrow> h \<notin> set cs \<and> destroyed k1 h"
      "kn_recv_pkt k1 = kn_recv_pkt k + 1" "kn_recv_size k1 = kn_recv_size k + pk_cap_len (fst x)"
    using packet_turn_safe [OF assms(1-3) Cons.prems(1,2) len(1) assms(4) Cons.prems(4,5), of prog pd] by auto
  obtain mods' pd' p' k' cs' where r: "packet_turns L ops dec prog pkts mods1 pd1 p1 k1 = Some (Inr (mods', pd', p', k'))"
      "mods_idle ins outs dec mods'" "kernel_inv n k'" "pkts \<noteq> [] \<longrightarrow> mq_queue (kn_msgs k') = []"
      "kn_calls k' = kn_calls k1 @ cs'" "\<forall>h. destroyed k1 h \<longrightarrow> h \<notin> set cs' \<and> destroyed k' h"
      "kn_recv_pkt k' = kn_recv_pkt k1 + word_of_nat (length pkts)"
      "kn_recv_size k' = kn_recv_size k1 + sum_list (map (pk_cap_len \<circ> fst) pkts)"
    using Cons.IH [OF t(2,3) len(2) t(4,5), of pd1] by (elim exE conjE) (rule that)
  have "pkts = [] \<Longrightarrow> k' = k1"
    using r(1) by simp
  then show ?case
    using t r by (intro exI [of _ mods'] exI [of _ pd'] exI [of _ p'] exI [of _ k'] exI [of _ "cs @ cs'"]) (auto simp: comp_def)
qed auto

subsection \<open>Who is called\<close>

text \<open>Callbacks that leave the kernel alone.\<close>

lemma kernel_turn_quiet:
  assumes "kernel_inv n k" "events_ok n evs" "mq_queue (kn_msgs k) = []"
  shows "kernel_turn (user_prog lookup (\<lambda>_. [])) len evs k = Some (Inr (k\<lparr>kn_recv_pkt := kn_recv_pkt k + 1, kn_recv_size := kn_recv_size k + len,
      kn_calls := kn_calls k @ concat (map (\<lambda>ev. filter (\<lambda>h. he_active (the (kn_ents k h))) (handlers_of k (nat ev))) evs)\<rparr>))"
proof -
  let ?k = "k\<lparr>kn_recv_pkt := kn_recv_pkt k + 1, kn_recv_size := kn_recv_size k + len\<rparr>"
  have prog: "user_prog lookup (\<lambda>_. []) = (\<lambda>_ k. k)"
    by (simp add: user_prog_def fun_eq_iff)
  have "handlers_of ?k = handlers_of k"
    by (simp add: handlers_of_def fun_eq_iff)
  then have "run_events (\<lambda>_ k. k) evs ?k = Inr (?k\<lparr>kn_calls := kn_calls k @
      concat (map (\<lambda>ev. filter (\<lambda>h. he_active (the (kn_ents k h))) (handlers_of k (nat ev))) evs)\<rparr>)"
    using run_events_quiet [of n ?k evs "kn_calls k"] assms(1,2) by simp
  moreover have "\<not> mq_has_msg (kn_msgs k)"
    using assms(1,3) by (simp add: kernel_inv_def queue_ok_def mq_wf_def)
  ultimately show ?thesis
    by (simp add: kernel_turn_def prog)
qed

lemma registry_event_name:
  assumes "registry_inv dec" "lookup_event_id dec name \<noteq> Event_NONE"
  shows "0 \<le> lookup_event_id dec name" "nat (lookup_event_id dec name) < length (dc_events dec)"
    "ev_name (dc_events dec ! nat (lookup_event_id dec name)) = name"
proof -
  have inv: "smap_find (dc_event_map dec) = map_of (map (\<lambda>e. (ev_name e, e)) (dc_events dec))"
      "\<forall>i < length (dc_events dec). ev_id (dc_events dec ! i) = int i"
    using assms(1) by (simp_all add: registry_inv_def)
  obtain d where "smap_find (dc_event_map dec) name = Some d" "lookup_event_id dec name = ev_id d"
    using assms(2) by (auto simp: lookup_event_id_def split: option.splits)
  moreover from this obtain i where "i < length (dc_events dec)" "d = dc_events dec ! i" "ev_name d = name"
    unfolding inv(1) by (auto dest!: map_of_SomeD simp: in_set_conv_nth)
  ultimately show "0 \<le> lookup_event_id dec name" "nat (lookup_event_id dec name) < length (dc_events dec)"
      "ev_name (dc_events dec ! nat (lookup_event_id dec name)) = name"
    using inv(2) by simp_all
qed

text \<open>The names of the events of a frame with a DNS message, in the order they are raised.\<close>

definition dns_event_names :: "mem \<Rightarrow> string list" where
  "dns_event_names m = [''Ethernet'', ''IPv4'', ''UDP'', ''DNS'', if bit (m_pkt m ! 45) 7 then ''DNS.reply'' else ''DNS.query'']"

lemma five_of_six: "x \<in> set [a, b, c, d, if w then e else f] \<Longrightarrow> x \<in> {a, b, c, d, e, f}"
  by (cases w) auto

lemma dns_event_ids:
  assumes "Decoder_make L config = Inr (dec, mods)"
  shows "[mod_event dec 4, mod_event dec 6, mod_event dec 11, mod_event dec 2,
      mod_ev (dc_modules dec ! 2) (if bit (m_pkt m ! 45) 7 then ''reply'' else ''query'')] = map (lookup_event_id dec) (dns_event_names m)"
    "\<And>name. name \<in> set (dns_event_names m) \<Longrightarrow> 0 \<le> lookup_event_id dec name \<and> nat (lookup_event_id dec name) < length (dc_events dec)
      \<and> ev_name (dc_events dec ! nat (lookup_event_id dec name)) = name"
proof -
  note id = Decoder_make_event_id [OF assms]
  have e: "mod_event dec 4 = lookup_event_id dec ''Ethernet''" "mod_event dec 6 = lookup_event_id dec ''IPv4''"
      "mod_event dec 11 = lookup_event_id dec ''UDP''" "mod_event dec 2 = lookup_event_id dec ''DNS''"
      "mod_ev (dc_modules dec ! 2) ''reply'' = lookup_event_id dec ''DNS.reply''"
      "mod_ev (dc_modules dec ! 2) ''query'' = lookup_event_id dec ''DNS.query''"
    using id(1) [of 4 "[]"] id(1) [of 6 "[]"] id(1) [of 11 "[]"] id(1) [of 2 "[]"] id(1) [of 2 "''reply''"] id(1) [of 2 "''query''"]
    by (simp_all add: mod_event_eq event_full_name_def)
  then show "[mod_event dec 4, mod_event dec 6, mod_event dec 11, mod_event dec 2,
      mod_ev (dc_modules dec ! 2) (if bit (m_pkt m ! 45) 7 then ''reply'' else ''query'')] = map (lookup_event_id dec) (dns_event_names m)"
    by (simp add: dns_event_names_def)
  have k: "lookup_event_id dec n \<noteq> Event_NONE" if "n \<in> {''Ethernet'', ''IPv4'', ''UDP'', ''DNS'', ''DNS.reply'', ''DNS.query''}" for n
    using that id(2) [of 4 "[]"] id(2) [of 6 "[]"] id(2) [of 11 "[]"] id(2) [of 2 "[]"] id(2) [of 2 "''reply''"] id(2) [of 2 "''query''"] e
    by (elim insertE) (simp_all add: mod_event_eq Event_NONE_def)
  show "0 \<le> lookup_event_id dec name \<and> nat (lookup_event_id dec name) < length (dc_events dec)
      \<and> ev_name (dc_events dec ! nat (lookup_event_id dec name)) = name" if "name \<in> set (dns_event_names m)" for name
  proof -
    have "name \<in> {''Ethernet'', ''IPv4'', ''UDP'', ''DNS'', ''DNS.reply'', ''DNS.query''}"
      using that unfolding dns_event_names_def by (rule five_of_six)
    from registry_event_name [OF Decoder_make_events(4) [OF assms] k [OF this]] show ?thesis by simp
  qed
qed

lemma concat_single:
  assumes "distinct xs"
  shows "concat (map (\<lambda>x. if x = y then [h] else []) xs) = (if y \<in> set xs then [h] else [])"
  using assms by (induction xs) auto

text \<open>One handler, for the event \<open>name\<close>.\<close>

definition only_handler :: "kernel \<Rightarrow> nat \<Rightarrow> hdlr_id \<Rightarrow> bool" where
  "only_handler k i h \<longleftrightarrow> handlers_of k = (\<lambda>_. [])(i := [h]) \<and> (\<exists>e. kn_ents k h = Some e \<and> he_active e) \<and> mq_queue (kn_msgs k) = []"

lemma on_only_handler:
  assumes "0 \<le> lookup name" "nat (lookup name) < n" "lookup name \<noteq> Event_NONE"
  shows "\<exists>h k. kernel_on lookup name (Kernel_new n) = Some (Inr (h, k)) \<and> kernel_inv n k \<and> only_handler k (nat (lookup name)) h \<and> kn_calls k = []"
proof -
  have new: "handlers_of (Kernel_new n) = (\<lambda>_. [])" "\<not> kn_running (Kernel_new n)"
    by (auto simp: handlers_of_def Kernel_new_def List.map_filter_simps fun_eq_iff)
  obtain k where k: "kernel_on lookup name (Kernel_new n) = Some (Inr (kn_global_id (Kernel_new n) + 1, k))" "kernel_inv n k"
      "handlers_of k = (\<lambda>_. [])(nat (lookup name) := [kn_global_id (Kernel_new n) + 1])"
    using kernel_on_idle [of n "Kernel_new n" lookup name, OF Kernel_new_inv new(2) assms(1,2)] by (auto simp: new(1))
  have "kn_ents k (kn_global_id (Kernel_new n) + 1) = Some (HandlerEntity_new (lookup name)) \<and> mq_queue (kn_msgs k) = [] \<and> kn_calls k = []"
    using k(1) assms(3) by (auto simp: kernel_on_def Kernel_new_def add_handler_def Let_def MsgQueue_new_def event_slot_def split: if_splits)
  with k show ?thesis
    by (auto simp: only_handler_def HandlerEntity_new_def)
qed

lemma dns_packet_turn:
  assumes "lru_laws L ins outs" "buffer_laws ops" "Decoder_make L config = Inr (dec, mods)"
    and "idle_ok (table_class dec) ops p" "dns_in_frame m" "pk_len pkt = length (m_pkt m)"
    and k: "kernel_inv (length (dc_events dec)) k" "only_handler k (nat (lookup_event_id dec name)) h" and name: "lookup_event_id dec name \<noteq> Event_NONE"
  shows "\<exists>pd' p' k'. packet_turn L ops dec (\<lambda>_ _ _. []) (pkt, m) mods pd p k = Some (Inr (mods, pd', p', k'))
    \<and> idle_ok (table_class dec) ops p' \<and> kernel_inv (length (dc_events dec)) k' \<and> only_handler k' (nat (lookup_event_id dec name)) h
    \<and> kn_calls k' = kn_calls k @ (if name \<in> set (dns_event_names m) then [h] else [])"
proof -
  let ?n = "length (dc_events dec)" and ?l = "lookup_event_id dec" and ?ns = "dns_event_names m"
  note ids = dns_event_ids [OF assms(3), where m = m]
  obtain pd' p' where d: "Decoder_decode L ops dec m mods (payload_reset pkt pd) (property_init pkt p) = Some (Inr (mods, pd', p'))"
      "idle_ok (table_class dec) ops p'" "property_wf p'" "events p' = map ?l ?ns"
    using dns_frame_decode [OF assms(1-3) Decoder_make_ok(1) [OF assms(1,3)] _ assms(4-6) HOL.refl, of pd]
    unfolding ids(1) by (auto simp: kept_mods_def)
  have ok: "events_ok ?n (events p')"
    using ids(2) by (auto simp: events_ok_def d(4))
  have same: "nat (?l x) = nat (?l name) \<longleftrightarrow> x = name" if "x \<in> set ?ns" for x
    using ids(2) [OF that] registry_event_name(3) [OF Decoder_make_events(4) [OF assms(3)] name] by metis
  have hs: "handlers_of k = (\<lambda>_. [])(nat (?l name) := [h])" "\<exists>e. kn_ents k h = Some e \<and> he_active e" "mq_queue (kn_msgs k) = []"
    using k(2) by (simp_all add: only_handler_def)
  have "concat (map (\<lambda>ev. filter (\<lambda>h. he_active (the (kn_ents k h))) (handlers_of k (nat ev))) (events p'))
      = concat (map (\<lambda>x. if x = name then [h] else []) ?ns)"
    unfolding d(4) map_map
    by (intro arg_cong [where f = concat] map_cong HOL.refl) (use hs(2) same in \<open>auto simp: hs(1)\<close>)
  also have "\<dots> = (if name \<in> set ?ns then [h] else [])"
    by (rule concat_single) (simp add: dns_event_names_def)
  finally have calls: "concat (map (\<lambda>ev. filter (\<lambda>h. he_active (the (kn_ents k h))) (handlers_of k (nat ev))) (events p'))
      = (if name \<in> set ?ns then [h] else [])" .
  let ?k = "k\<lparr>kn_recv_pkt := kn_recv_pkt k + 1, kn_recv_size := kn_recv_size k + pk_cap_len pkt,
      kn_calls := kn_calls k @ (if name \<in> set ?ns then [h] else [])\<rparr>"
  have "packet_turn L ops dec (\<lambda>_ _ _. []) (pkt, m) mods pd p k = Some (Inr (mods, pd', p', ?k))"
    using d(1,3) kernel_turn_quiet [OF k(1) ok hs(3), of ?l "pk_cap_len pkt", unfolded calls] by (simp add: packet_turn_def event_ids_all)
  moreover have "handlers_of ?k = handlers_of k"
    by (simp add: handlers_of_def fun_eq_iff)
  then have "only_handler ?k (nat (?l name)) h"
    using k(2) by (simp add: only_handler_def)
  ultimately show ?thesis
    using d(2) k(1) by auto
qed

lemma dns_packet_turns:
  assumes "lru_laws L ins outs" "buffer_laws ops" "Decoder_make L config = Inr (dec, mods)" "lookup_event_id dec name \<noteq> Event_NONE"
  shows "idle_ok (table_class dec) ops p \<Longrightarrow> list_all (\<lambda>(pkt, m). dns_in_frame m \<and> pk_len pkt = length (m_pkt m)) pkts \<Longrightarrow>
    kernel_inv (length (dc_events dec)) k \<Longrightarrow> only_handler k (nat (lookup_event_id dec name)) h \<Longrightarrow>
    \<exists>pd' p' k'. packet_turns L ops dec (\<lambda>_ _ _. []) pkts mods pd p k = Some (Inr (mods, pd', p', k'))
      \<and> kn_calls k' = kn_calls k @ replicate (length (filter (\<lambda>(pkt, m). name \<in> set (dns_event_names m)) pkts)) h"
proof (induction pkts arbitrary: pd p k)
  case (Cons x pkts)
  obtain pkt m where x: "x = (pkt, m)" by (cases x)
  have f: "dns_in_frame m" "pk_len pkt = length (m_pkt m)"
    using Cons.prems(2) by (simp_all add: x)
  obtain pd1 p1 k1 where t: "packet_turn L ops dec (\<lambda>_ _ _. []) (pkt, m) mods pd p k = Some (Inr (mods, pd1, p1, k1))"
      "idle_ok (table_class dec) ops p1" "kernel_inv (length (dc_events dec)) k1" "only_handler k1 (nat (lookup_event_id dec name)) h"
      "kn_calls k1 = kn_calls k @ (if name \<in> set (dns_event_names m) then [h] else [])"
    using dns_packet_turn [OF assms(1-3) Cons.prems(1) f Cons.prems(3,4) assms(4), of pd] by blast
  show ?case
    using Cons.IH [OF t(2) _ t(3,4), of pd1] Cons.prems(2) t(1,5) by (auto simp: x)
qed simp

end
