(* ===== verification/PM_Repr.thy ===== *)
theory PM_Repr
  imports PM_Net PM_DHCP PM_Message PM_Session
begin

text \<open>
  Printing of values: the virtual \<^verbatim>\<open>repr\<close> of \<^verbatim>\<open>src/packetmachine/value.hpp\<close> for all classes, with \<^verbatim>\<open>Array::repr\<close> and \<^verbatim>\<open>Map::repr\<close> of
  \<^verbatim>\<open>src/value.cc\<close>, which call the \<^verbatim>\<open>repr\<close> of the values they refer to, and the functions that print into a string. The references of a
  property could form a cycle in principle, so the depth of the calls is bounded by fuel; \<open>None\<close>: not deep enough. For values whose references
  have a rank, the rank is enough fuel.
\<close>

subsection \<open>Definitions\<close>

text \<open>The classes without references. \<^verbatim>\<open>NoneValue\<close> and \<^verbatim>\<open>ValueStorage\<close> inherit \<^verbatim>\<open>Value::repr\<close>.\<close>

definition leaf_repr :: "(byte list \<Rightarrow> string) \<Rightarrow> mem \<Rightarrow> pvalue \<Rightarrow> ostream \<Rightarrow> ostream res" where
  "leaf_repr inet_ntop m v os =
     (case v_cls v of
        VIPv4Addr \<Rightarrow> ipv4addr_repr m v os
      | VIPv6Addr \<Rightarrow> ipv6addr_repr inet_ntop m v os
      | VPortNumber \<Rightarrow> port_repr m v os
      | VIcmpType \<Rightarrow> IcmpType_repr m v os
      | VIcmpCode _ \<Rightarrow> IcmpCode_repr m v os
      | VNSName _ \<Rightarrow> NSName_repr m v os
      | VNSData _ \<Rightarrow> NSData_repr inet_ntop m v os
      | VNSType \<Rightarrow> NSType_repr m v os
      | _ \<Rightarrow> value_repr m v os)"

text \<open>The loop of \<^verbatim>\<open>Array::repr\<close> and the loop of \<^verbatim>\<open>Map::repr\<close>, which goes through the keys in their order.\<close>

fun repr_items :: "(vref \<Rightarrow> ostream \<Rightarrow> ostream res option) \<Rightarrow> vref list \<Rightarrow> ostream \<Rightarrow> ostream res option" where
  "repr_items f [] os = Some (Inr os)"
| "repr_items f (r # rs) os = bind_opt (f r os) (\<lambda>os. repr_items f rs (os_puts '', '' os))"

fun repr_entries :: "(vref \<Rightarrow> ostream \<Rightarrow> ostream res option) \<Rightarrow> (string, vref option) smap \<Rightarrow> ostream \<Rightarrow> ostream res option" where
  "repr_entries f [] os = Some (Inr os)"
| "repr_entries f ((k, r) # kvs) os =
     (case r of
        None \<Rightarrow> Some (Inl UndefinedBehaviour)
      | Some r \<Rightarrow>
          bind_opt (f r (os_puts ([CHR 0x22] @ k @ [CHR 0x22] @ '': '') os)) (\<lambda>os. repr_entries f kvs (os_puts '', '' os)))"

definition deref :: "vref \<Rightarrow> 'b property \<Rightarrow> pvalue res" where
  "deref r p = (case r of RNone \<Rightarrow> Inr (new_object VNone) | _ \<Rightarrow> property_obj r p)"

primrec object_repr :: "nat \<Rightarrow> (byte list \<Rightarrow> string) \<Rightarrow> mem \<Rightarrow> 'b property \<Rightarrow> vref \<Rightarrow> ostream \<Rightarrow> ostream res option" where
  "object_repr 0 inet_ntop m p r os = None"
| "object_repr (Suc fuel) inet_ntop m p r os =
     bind_opt (Some (deref r p)) (\<lambda>v.
       case v_cls v of
         VArray refs \<Rightarrow>
           bind_opt (repr_items (object_repr fuel inet_ntop m p) refs (os_puts ''['' os)) (\<lambda>os. Some (Inr (os_puts '']'' os)))
       | c \<Rightarrow>
           (case cls_map c of
              Some kvs \<Rightarrow>
                bind_opt (repr_entries (object_repr fuel inet_ntop m p) kvs (os_puts ''{'' os)) (\<lambda>os. Some (Inr (os_puts ''}'' os)))
            | None \<Rightarrow> Some (leaf_repr inet_ntop m v os)))"

text \<open>\<^verbatim>\<open>std::string repr() const\<close> and \<^verbatim>\<open>operator<<\<close>.\<close>

definition object_text :: "nat \<Rightarrow> (byte list \<Rightarrow> string) \<Rightarrow> mem \<Rightarrow> 'b property \<Rightarrow> vref \<Rightarrow> string res option" where
  "object_text fuel inet_ntop m p r = bind_opt (object_repr fuel inet_ntop m p r os_new) (\<lambda>ss. Some (Inr (os_text ss)))"

definition os_put_object :: "nat \<Rightarrow> (byte list \<Rightarrow> string) \<Rightarrow> mem \<Rightarrow> 'b property \<Rightarrow> vref \<Rightarrow> ostream \<Rightarrow> ostream res option" where
  "os_put_object fuel inet_ntop m p r os = bind_opt (object_text fuel inet_ntop m p r) (\<lambda>s. Some (Inr (os_puts s os)))"

text \<open>The functions that return a string: \<^verbatim>\<open>hex()\<close>, \<^verbatim>\<open>ip4()\<close>, \<^verbatim>\<open>ip6()\<close> and \<^verbatim>\<open>mac()\<close>; and \<^verbatim>\<open>uint(unsigned long*)\<close>.\<close>

definition hex_text :: "mem \<Rightarrow> 'a bvalue_scheme \<Rightarrow> string res" where
  "hex_text m v = bind_res (value_hex m v os_new) (\<lambda>(ss, _). Inr (os_text ss))"

definition ip4_text :: "mem \<Rightarrow> 'a bvalue_scheme \<Rightarrow> string res" where
  "ip4_text m v = bind_res (value_ip4 m v os_new) (\<lambda>(ss, _). Inr (os_text ss))"

definition ip6_text :: "(byte list \<Rightarrow> string) \<Rightarrow> mem \<Rightarrow> 'a bvalue_scheme \<Rightarrow> string res" where
  "ip6_text inet_ntop m v = bind_res (value_ip6 inet_ntop m v os_new) (\<lambda>(ss, _). Inr (os_text ss))"

definition mac_text :: "mem \<Rightarrow> 'a bvalue_scheme \<Rightarrow> string res" where
  "mac_text m v = bind_res (value_mac m v os_new) (\<lambda>(ss, _). Inr (os_text ss))"

definition value_ulong :: "mem \<Rightarrow> 'a bvalue_scheme \<Rightarrow> (64 word option) res" where
  "value_ulong m v = bind_res (value_uint64 m v) (\<lambda>d. Inr d)"

subsection \<open>Enough fuel\<close>

definition cls_refs :: "vclass \<Rightarrow> vref set" where
  "cls_refs c =
     (case c of VArray refs \<Rightarrow> set refs | _ \<Rightarrow> (case cls_map c of Some kvs \<Rightarrow> {r. Some r \<in> snd ` set kvs} | None \<Rightarrow> {}))"

lemma bind_opt_not_None: "r \<noteq> None \<Longrightarrow> (\<And>x. f x \<noteq> None) \<Longrightarrow> bind_opt r f \<noteq> None"
  by (auto simp: bind_opt_def split: option.splits sum.splits)

lemma repr_items_returns: "(\<And>r os. r \<in> set rs \<Longrightarrow> f r os \<noteq> None) \<Longrightarrow> repr_items f rs os \<noteq> None"
  by (induction rs arbitrary: os) (simp_all add: bind_opt_not_None del: not_None_eq)

lemma repr_entries_returns: "(\<And>r os. Some r \<in> snd ` set kvs \<Longrightarrow> f r os \<noteq> None) \<Longrightarrow> repr_entries f kvs os \<noteq> None"
proof (induction kvs arbitrary: os)
  case (Cons e kvs)
  show ?case
  proof (cases e)
    case (Pair k r)
    then show ?thesis
      using Cons by (cases r) (simp_all add: bind_opt_not_None del: not_None_eq)
  qed
qed simp

lemma object_repr_returns:
  assumes "\<And>r v r'. deref r p = Inr v \<Longrightarrow> r' \<in> cls_refs (v_cls v) \<Longrightarrow> rank r' < rank r"
  shows "rank r < fuel \<Longrightarrow> object_repr fuel inet_ntop m p r os \<noteq> None"
proof (induction fuel arbitrary: r os)
  case (Suc fuel)
  have below: "object_repr fuel inet_ntop m p r' os \<noteq> None" if "deref r p = Inr v" "r' \<in> cls_refs (v_cls v)" for v r' os
    using Suc.IH [of r'] assms [OF that] Suc.prems by simp
  show ?case
  proof (cases "deref r p")
    case (Inr v)
    show ?thesis
    proof (cases "v_cls v")
      case (VArray refs)
      then show ?thesis
        using below [OF Inr] by (simp add: Inr cls_refs_def bind_opt_not_None repr_items_returns del: not_None_eq)
    qed (use below [OF Inr] in \<open>simp_all add: Inr cls_refs_def bind_opt_not_None repr_entries_returns del: not_None_eq\<close>)
  qed simp
qed simp

subsection \<open>What is printed\<close>

lemma shown_repr: "shown m v = Some (bs, e) \<Longrightarrow> value_repr m v os = Inr (os_puts (repr_bytes bs) os)"
  by (auto simp: shown_def value_repr_def split: if_splits option.splits)

lemma plain_repr:
  assumes "deref r p = Inr v" "v_cls v = VPlain" "shown m v = Some (bs, e)"
  shows "object_repr (Suc fuel) inet_ntop m p r os = Some (Inr (os_puts (repr_bytes bs) os))"
  using assms(1,2) shown_repr [OF assms(3)] by (simp add: leaf_repr_def)

lemma array_repr:
  assumes "deref r p = Inr v" "v_cls v = VArray refs"
  shows "object_repr (Suc fuel) inet_ntop m p r os
    = bind_opt (repr_items (object_repr fuel inet_ntop m p) refs (os_puts ''['' os)) (\<lambda>os. Some (Inr (os_puts '']'' os)))"
  using assms by simp

lemma repr_items_texts:
  assumes "\<And>i os. i < length rs \<Longrightarrow> f (rs ! i) os = Some (Inr (os_puts (ts ! i) os))" "length ts = length rs"
  shows "repr_items f rs os = Some (Inr (os_puts (concat (map (\<lambda>t. t @ '', '') ts)) os))"
  using assms
proof (induction rs arbitrary: ts os)
  case Nil
  then show ?case by (simp add: os_puts_def)
next
  case (Cons r rs)
  then obtain t ts' where ts: "ts = t # ts'"
    by (cases ts) auto
  have "f r os = Some (Inr (os_puts t os))" for os
    using Cons.prems(1) [of 0] by (simp add: ts)
  moreover have "repr_items f rs os = Some (Inr (os_puts (concat (map (\<lambda>t. t @ '', '') ts')) os))" for os
    by (rule Cons.IH) (use Cons.prems(1) [of "Suc i" for i] Cons.prems(2) in \<open>auto simp: ts\<close>)
  ultimately show ?case
    by (simp add: ts os_puts_append)
qed

text \<open>An option of DHCP and the list of options, as they are printed.\<close>

definition quoted :: "string \<Rightarrow> string" where
  "quoted k = [CHR 0x22] @ k @ [CHR 0x22]"

definition option_text :: "byte \<times> byte list \<Rightarrow> string" where
  "option_text e =
     ''{'' @ quoted ''data'' @ '': '' @ repr_bytes (snd e) @ '', '' @ quoted ''length'' @ '': '' @ repr_bytes [word_of_nat (length (snd e))]
       @ '', '' @ quoted ''type'' @ '': '' @ repr_bytes [fst e] @ '', }''"

definition options_text :: "(byte \<times> byte list) list \<Rightarrow> string" where
  "options_text es = ''['' @ concat (map (\<lambda>e. option_text e @ '', '') es) @ '']''"

definition plain_members :: "(nat \<Rightarrow> string) \<Rightarrow> pmodule \<Rightarrow> bool" where
  "plain_members D this \<longleftrightarrow> list_all (\<lambda>n. D (pid_of this n) = ''Value'') [''_opt_type'', ''_opt_length'', ''_opt_data'']"

lemma is_a_Value: "is_a ''Value'' c \<Longrightarrow> c = VPlain"
  by (cases c) (simp_all add: is_a_def)

lemma option_entries:
  assumes "is_a ''DhcpOption'' c" "option_refs c (RVal pt it) (RVal pl il) (RVal pv iv)"
  shows "c = VDhcpOption [(''data'', Some (RVal pv iv)), (''length'', Some (RVal pl il)), (''type'', Some (RVal pt it))]"
proof (cases c)
  case (VDhcpOption kvs)
  then obtain a b d where "kvs = [(''data'', a), (''length'', b), (''type'', d)]"
    using assms(1) by (auto simp: is_a_def map_eq_Cons_conv)
  then show ?thesis
    using assms(2) VDhcpOption by (auto simp: option_refs_def map_find_def smap_find_def split: option.splits)
qed (use assms(1) in \<open>simp_all add: is_a_def\<close>)

lemma deref_live: "property_wf p \<Longrightarrow> i < length (live p pid) \<Longrightarrow> deref (RVal pid i) p = Inr (live p pid ! i)"
  by (simp add: deref_def live_property_obj)

lemma option_repr:
  assumes "dhcp_ready D this" "plain_members D this" "property_ok D p" "option_built m this (live p) i it il iv e"
  shows "object_repr (Suc (Suc fuel)) inet_ntop m p (RVal (pid_of this ''_option'') i) os = Some (Inr (os_puts (option_text e) os))"
proof -
  have p: "property_wf p" "typed D p"
    using assms(3) by (simp_all add: property_ok_def)
  note b = assms(4) [unfolded option_built_def]
  have D: "D (pid_of this ''_option'') = ''DhcpOption''" "D (pid_of this ''_opt_type'') = ''Value''"
      "D (pid_of this ''_opt_length'') = ''Value''" "D (pid_of this ''_opt_data'') = ''Value''"
    using assms(1,2) by (simp_all add: dhcp_ready_def plain_members_def)
  have cls: "v_cls (live p (pid_of this ''_option'') ! i) = VDhcpOption [(''data'', Some (RVal (pid_of this ''_opt_data'') iv)),
      (''length'', Some (RVal (pid_of this ''_opt_length'') il)), (''type'', Some (RVal (pid_of this ''_opt_type'') it))]"
    using option_entries typed_live_is [OF p(2,1), of i "pid_of this ''_option''"] b D(1) by metis
  have plain: "object_repr (Suc fuel) inet_ntop m p (RVal (pid_of this n) j) os = Some (Inr (os_puts (repr_bytes bs) os))"
    if "D (pid_of this n) = ''Value''" "j < length (live p (pid_of this n))" "shown m (live p (pid_of this n) ! j) = Some (bs, en)" for n j bs en os
    by (rule plain_repr [OF deref_live [OF p(1) that(2)] _ that(3)])
      (use typed_live_is [OF p(2,1) that(2)] that(1) is_a_Value in simp)
  have "deref (RVal (pid_of this ''_option'') i) p = Inr (live p (pid_of this ''_option'') ! i)"
    using deref_live [OF p(1)] b by blast
  then show ?thesis
    using plain [OF D(2)] plain [OF D(3)] plain [OF D(4)] b
    by (subst object_repr.simps) (simp add: cls option_text_def quoted_def os_puts_append del: object_repr.simps)
qed

lemma options_built_nth: "options_built m this H i it il iv es \<Longrightarrow> j < length es \<Longrightarrow> option_built m this H (i + j) (it + j) (il + j) (iv + j) (es ! j)"
proof (induction es arbitrary: i it il iv j)
  case (Cons e es)
  then show ?case
    by (cases j) (auto dest!: Cons.IH)
qed simp

text \<open>
  C17: A DHCP message can be read in its printed form. After decoding, the value of the parameter \<^verbatim>\<open>DHCP.options\<close> prints as the list of the
  options of the message in their order, each with its data, length and type, and printing neither fails nor recurses deeper than the list, an
  option and its members.
\<close>

theorem dhcp_options_print:
  assumes "dhcp_ready D this" "plain_members D this" "payload_inv (length (m_pkt m)) pd" "property_ok D p" "240 \<le> pl_length pd"
    and "bslice (pl_ptr pd + 240) (pl_length pd - 240) (m_pkt m) = concat (map dhcp_wire opts) @ rest"
    and "\<forall>e \<in> set opts. fst e \<noteq> 0xFF \<and> length (snd e) < 256" "rest = [] \<or> hd rest = 0xFF"
  shows "\<exists>pd' p'. DHCP_decode this m pd p = Inr (Module_NONE, pd', p')
    \<and> object_text 3 inet_ntop m p' (RVal (pid_of this ''options'') (length (live p' (pid_of this ''options'')) - 1)) = Some (Inr (options_text opts))"
proof -
  let ?pa = "pid_of this ''options''" and ?po = "pid_of this ''_option''"
  obtain pd' p' where r: "DHCP_decode this m pd p = Inr (Module_NONE, pd', p')" "DHCP_post D this m pd p (Module_NONE, pd', p')"
    using DHCP_returns [OF assms(1,3,4)] by (auto simp: returns_def DHCP_post_def)
  have ok: "property_ok D p'"
    using DHCP_post_advance [OF r(2) assms(3,4)] by (simp add: advance_def)
  have parse: "opts = dhcp_parse (bslice (pl_ptr pd + 240) (pl_length pd - 240) (m_pkt m))"
    using dhcp_parse_wire [OF assms(7,8)] assms(6) by simp
  obtain vs v i it il iv where H: "live p' ?pa = vs @ [v\<lparr>v_cls := VArray (map (RVal ?po) [i..<i + length opts])\<rparr>]"
      "options_built m this (live p') i it il iv opts"
    using DHCP_post_built [OF assms(5) r(2) parse] .
  have items: "repr_items (object_repr (Suc (Suc 0)) inet_ntop m p') (map (RVal ?po) [i..<i + length opts]) os
      = Some (Inr (os_puts (concat (map (\<lambda>t. t @ '', '') (map option_text opts))) os))" for os
    by (rule repr_items_texts)
      (use option_repr [OF assms(1,2) ok options_built_nth [OF H(2)], of _ 0] in \<open>simp_all del: object_repr.simps\<close>)
  have "deref (RVal ?pa (length (live p' ?pa) - 1)) p' = Inr (v\<lparr>v_cls := VArray (map (RVal ?po) [i..<i + length opts])\<rparr>)"
    using deref_live [of p' "length (live p' ?pa) - 1" ?pa] ok by (simp add: H(1) property_ok_def)
  from array_repr [OF this, of "map (RVal ?po) [i..<i + length opts]" "Suc (Suc 0)" inet_ntop m os_new]
  have "object_repr 3 inet_ntop m p' (RVal ?pa (length (live p' ?pa) - 1)) os_new = Some (Inr (os_puts (options_text opts) os_new))"
    by (simp add: items os_puts_append options_text_def comp_def numeral_3_eq_3 del: object_repr.simps One_nat_def)
  then have "object_text 3 inet_ntop m p' (RVal ?pa (length (live p' ?pa) - 1)) = Some (Inr (options_text opts))"
    by (simp add: object_text_def os_puts_def os_new_def del: object_repr.simps)
  with r(1) show ?thesis by blast
qed

theorem dhcp_options_print_witness:
  "\<exists>pd' p'. DHCP_decode demo_dhcp (demo_mem demo_dhcp_packet) (demo_pd demo_dhcp_packet) demo_prop = Inr (Module_NONE, pd', p')
     \<and> object_text 3 (\<lambda>_. []) (demo_mem demo_dhcp_packet) p' (RVal (pid_of demo_dhcp ''options'') (length (live p' (pid_of demo_dhcp ''options'')) - 1))
       = Some (Inr (''[{'' @ quoted ''data'' @ '': ., '' @ quoted ''length'' @ '': ., '' @ quoted ''type'' @ '': 5, }, {''
           @ quoted ''data'' @ '': ab, '' @ quoted ''length'' @ '': ., '' @ quoted ''type'' @ '': ., }, ]''))"
proof -
  have "length demo_dhcp_packet = 249"
    "bslice 240 9 demo_dhcp_packet = concat (map dhcp_wire [(53, [1]), (12, [0x61, 0x62])]) @ [0xFF, 0]"
    by code_simp+
  moreover have "plain_members (demo_D demo_dhcp) demo_dhcp"
    by code_simp
  moreover have "options_text [(53, [1]), (12, [0x61, 0x62])] = ''[{'' @ quoted ''data'' @ '': ., '' @ quoted ''length'' @ '': ., ''
      @ quoted ''type'' @ '': 5, }, {'' @ quoted ''data'' @ '': ab, '' @ quoted ''length'' @ '': ., '' @ quoted ''type'' @ '': ., }, ]''"
    by code_simp
  ultimately show ?thesis
    using dhcp_options_print [OF demo_dhcp_ready, of "demo_mem demo_dhcp_packet" "demo_pd demo_dhcp_packet" demo_prop
        "[(53, [1]), (12, [0x61, 0x62])]" "[0xFF, 0]" "\<lambda>_. []"] by (simp del: One_nat_def)
qed

end
