(* ===== verification/Spec2Isabelle.thy ===== *)
theory Spec2Isabelle
  imports PM_System PM_Repr
begin

text \<open>
  \<^bold>\<open>PacketMachine\<close>: a library that captures packets, decodes them into named parameters and events, and calls the handlers a user has
  registered for the events.

  \<^bold>\<open>The program.\<close> A \<^verbatim>\<open>Machine\<close> (\<^verbatim>\<open>src/packetmachine.cc\<close>) owns capture sources (\<^verbatim>\<open>src/capture.cc\<close>), a ring buffer of packets
  (\<^verbatim>\<open>src/channel.hpp\<close>) and a \<^verbatim>\<open>Kernel\<close> (\<^verbatim>\<open>src/kernel.cc\<close>). The capture thread (\<^verbatim>\<open>Input::thread_main\<close>) reads packets into the slots of the
  ring; the kernel's thread (\<^verbatim>\<open>Kernel::thread_main\<close>) pulls them, lets the \<^verbatim>\<open>Decoder\<close> (\<^verbatim>\<open>src/decoder.cc\<close>) run the protocol modules
  (\<^verbatim>\<open>src/modules/*.cc\<close>) over each packet, and dispatches the events that the modules pushed onto the \<^verbatim>\<open>Property\<close> (\<^verbatim>\<open>src/property.cc\<close>). User
  threads and callbacks register and remove handlers through a message queue.

  \<^bold>\<open>Theories, in the order of their imports.\<close>
  \<^item> \<open>PM_Prelude\<close>: scalar types of \<^verbatim>\<open>common.hpp\<close>, the exceptions of \<^verbatim>\<open>exception.hpp\<close> as the error type \<open>pm_error\<close>, byte order,
    slices, the result monad and the shared simplification rules. The error \<open>UndefinedBehaviour\<close> stands for a read outside an object, a
    use of a null or deleted pointer and an index outside a vector, so "returns \<open>Inr\<close>" includes memory safety everywhere below.
  \<^item> \<open>Std_Map\<close>, \<open>Std_Stream\<close>: the parts of \<^verbatim>\<open>std::map\<close> and \<^verbatim>\<open>std::ostream\<close> that the sources use. \<open>Std_Map\<close> has the locale \<open>insert_map\<close>.
  \<^item> \<open>PM_Value\<close> (\<^verbatim>\<open>value.hpp\<close>, \<^verbatim>\<open>value.cc\<close>): values as pointers into the packet, into a reassembly buffer or into their own buffer;
    numbers and addresses read and printed; arrays and maps of references.
  \<^item> \<open>PM_Packet\<close> (\<^verbatim>\<open>packet.cc\<close> and class \<^verbatim>\<open>Payload\<close> of \<^verbatim>\<open>property.cc\<close>): packet storage and the decoding cursor, locale \<open>reader\<close>.
  \<^item> \<open>PM_Config\<close> (\<^verbatim>\<open>config.cc\<close>), \<open>PM_Module\<close> (\<^verbatim>\<open>module.cc\<close>, \<^verbatim>\<open>module.hpp\<close>): configuration, and the parameter, event and configuration
    definitions of a module.
  \<^item> \<open>PM_Property\<close> (\<^verbatim>\<open>property.cc\<close>): tables of values that are recycled from packet to packet, locale \<open>value_table\<close>: a recycled object
    is indistinguishable from a new one.
  \<^item> \<open>PM_Channel\<close> (\<^verbatim>\<open>channel.hpp\<close>), locale \<open>fifo\<close> with the ring buffer and the message queue as its instances, and \<open>PM_Pipeline\<close>: capture
    thread and decoding thread as the step relation \<open>pipe_step\<close>, one step for each access to a shared variable. No packet is lost, repeated
    or reordered, the two threads never hold the same slot, the decoder makes progress and drains the ring; and the one race of \<^verbatim>\<open>close\<close>.
  \<^item> \<open>PM_Decoder\<close> (\<^verbatim>\<open>decoder.cc\<close>): numbering of modules, parameters and events, check of the configuration, look-ups by id and name.
    \<open>PM_Registry\<close>: what the numbering establishes for the modules.
  \<^item> \<open>PM_Proto\<close>: the contract of \<^verbatim>\<open>Module::decode\<close>, locale \<open>protocol\<close>. \<open>PM_Object\<close>: values that refer to other values.
  \<^item> \<open>PM_Link\<close> (\<^verbatim>\<open>ether.cc\<close>, \<^verbatim>\<open>dot1q.cc\<close>, \<^verbatim>\<open>pppoe.cc\<close>, \<^verbatim>\<open>arp.cc\<close>), \<open>PM_Net\<close> (\<^verbatim>\<open>ipv4.cc\<close>, \<^verbatim>\<open>ipv6.cc\<close>, \<^verbatim>\<open>icmp.cc\<close>, \<^verbatim>\<open>udp.cc\<close>),
    \<open>PM_DHCP\<close> (\<^verbatim>\<open>dhcp.cc\<close>): every module is an instance of \<open>protocol\<close>, and the values it leaves are the fields of the packet.
  \<^item> \<open>PM_Label\<close>, \<open>PM_NameService\<close>, \<open>PM_Message\<close> (\<^verbatim>\<open>utils.cc\<close>, \<^verbatim>\<open>dns.cc\<close>, \<^verbatim>\<open>mdns.cc\<close>): domain names with compression pointers, the
    sections of a message, and printing. A name that was encoded, and a message that was encoded, is read back as it was.
  \<^item> \<open>PM_Session\<close>, \<open>PM_Reassembly\<close>, \<open>PM_TCP\<close> (\<^verbatim>\<open>tcp.cc\<close>): the sessions with their state machine and stored segments, the byte stream
    that results from segments in any order, the key of a connection and the table of sessions with its time-outs.
  \<^item> \<open>PM_Decode\<close>: \<^verbatim>\<open>build_module_map\<close> of \<^verbatim>\<open>module.cc\<close>, the \<^verbatim>\<open>setup\<close> of every module, and the loop of \<^verbatim>\<open>Decoder::decode\<close> over the module
    objects (\<open>amod\<close>). The locale \<open>framed_protocol\<close> extends \<open>protocol\<close> by what a module leaves alone; all modules are instances. The loop
    ends for every packet, nothing is read outside it, every value has the class of its definition, and a frame with a DNS message raises
    the events of its layers in order. \<open>PM_Frame\<close>: what every module keeps of the property, proved once in the locale \<open>property_inv\<close> and
    used for the events a module may push and for the lengths of the addresses (locale \<open>property_inv_addr\<close>).
  \<^item> \<open>PM_Kernel\<close> (\<^verbatim>\<open>kernel.cc\<close>, class \<^verbatim>\<open>Handler\<close> of \<^verbatim>\<open>packetmachine.cc\<close>): registration, removal and dispatch of handlers; callbacks are
    arbitrary sequences of user calls. The kernel's loop returns for all of them, a destroyed handler is never called, requests have the
    effect of the same calls on an abstract table.
  \<^item> \<open>PM_Machine\<close> (\<^verbatim>\<open>capture.cc\<close>, \<^verbatim>\<open>thread.cc\<close>, class \<^verbatim>\<open>Machine\<close>): sources, life cycle and counters; the packets of a file reach the
    decoder.
  \<^item> \<open>PM_Events\<close>: the numbering of the events: every event a module can push is one the decoder knows, under the id that its name has.
    \<open>PM_System\<close>: \<^verbatim>\<open>Kernel::thread_main\<close> with the real decoder and all modules in place of the two abstractions of \<open>PM_Decode\<close> and \<open>PM_Kernel\<close>.
  \<^item> \<open>PM_Repr\<close> (\<^verbatim>\<open>value.hpp\<close>, \<^verbatim>\<open>value.cc\<close>): the virtual \<^verbatim>\<open>repr\<close> of all classes, with the recursion of arrays and maps through their references.
    The options of a DHCP message print as the list they are.
  \<^item> This theory: the two properties of the whole thread, from the bytes of the packets to the calls of the handlers.

  \<^bold>\<open>Loops.\<close> Loops over lists are structural. The loops over packet bytes (\<open>DHCP_options\<close>, \<open>label_loop\<close>, \<open>ns_loop\<close>, \<open>ns_target\<close>, \<open>ns_txt\<close>)
  are functions with a measure: the bytes left, or for names the 256 bytes after which the reader gives up. \<open>handle_requests\<close> has as fuel the
  length of the queue, and \<open>decode_stream\<close> the number of stored segments plus one, both proved to be enough. \<open>object_repr\<close> has as fuel the depth
  of the references; a rank of the references is enough, and for the options of DHCP the depth is 3. \<open>expire_sessions\<close> and
  \<open>decode_loop\<close> may run forever in principle and are functions into an option; that they return is proved.

  \<^bold>\<open>Parameters.\<close> Code outside the repository is an argument of the definitions: \<^verbatim>\<open>tb::LruHash\<close> and \<^verbatim>\<open>tb::HashKey\<close> (\<open>lru_ops\<close>, laws
  \<open>lru_laws\<close>), \<^verbatim>\<open>tb::Buffer\<close> (\<open>buffer_ops\<close>, laws \<open>buffer_laws\<close>), libpcap (\<open>pcap_ops\<close>), the result of \<^verbatim>\<open>pthread_timedjoin_np\<close>, of
  \<^verbatim>\<open>inet_ntop\<close> and of \<^verbatim>\<open>realloc\<close>. The lists \<open>list_lru\<close> and \<open>list_buffer\<close> show that the laws can hold, and the witnesses use them.

  \<^bold>\<open>Not modelled.\<close> \<^verbatim>\<open>debug.hpp\<close> (debug output); \<^verbatim>\<open>Property::ts_d\<close> (floating point);
  destructors, because the model has no use of an object after its end except for TCP sessions, whose \<^verbatim>\<open>delete\<close> is modelled. The host is
  taken to be little-endian, as on the platforms the program is built for, and \<^verbatim>\<open>eos_\<close> of the ring, a plain \<^verbatim>\<open>bool\<close>, to be read and written
  in program order.
\<close>

section \<open>The program as a whole\<close>


text \<open>A run of the default decoder over two packets, one of them of a single byte, with a callback that registers a handler for the events of TCP
  whenever it is called.\<close>

definition demo_frames :: "(packet \<times> mem) list" where
  "demo_frames =
     [((Packet_new 0 0 \<lparr>tv_sec = 0, tv_usec = 0\<rparr>)\<lparr>pk_len := 54, pk_cap_len := 54\<rparr>, demo_mem demo_dns_frame),
      ((Packet_new 0 0 \<lparr>tv_sec = 1, tv_usec = 0\<rparr>)\<lparr>pk_len := 1, pk_cap_len := 1\<rparr>, demo_mem [0xFF])]"


text \<open>
  C2: From the wire to the user. A user who registers one handler with \<^verbatim>\<open>on\<close> for any event the decoder knows, on a machine with the default
  modules, sees it called exactly once for every frame with a DNS message that raises this event, and never for the others: for
  \<^verbatim>\<open>Ethernet\<close>, \<^verbatim>\<open>IPv4\<close>, \<^verbatim>\<open>UDP\<close> and \<^verbatim>\<open>DNS\<close> every frame does, for \<^verbatim>\<open>DNS.query\<close> and \<^verbatim>\<open>DNS.reply\<close> those of that kind, for all other events none.
\<close>

theorem dns_handler_calls:
  assumes "lru_laws L ins outs" "buffer_laws ops" "Decoder_make L config = Inr (dec, mods)" "lookup_event_id dec name \<noteq> Event_NONE"
    and "list_all (\<lambda>(pkt, m). dns_in_frame m \<and> pk_len pkt = length (m_pkt m)) pkts"
  shows "\<exists>h k mods' k'. kernel_on (lookup_event_id dec) name (Kernel_new (length (dc_events dec))) = Some (Inr (h, k))
    \<and> Kernel_thread_main L ops dec (\<lambda>_ _ _. []) pkts pd (Property_new ops i0 s0 d0) mods k = Some (Inr (mods', k'))
    \<and> kn_calls k' = replicate (length (filter (\<lambda>(pkt, m). name \<in> set (dns_event_names m)) pkts)) h"
proof -
  let ?n = "length (dc_events dec)" and ?l = "lookup_event_id dec"
  obtain h k where k: "kernel_on ?l name (Kernel_new ?n) = Some (Inr (h, k))" "kernel_inv ?n k" "only_handler k (nat (?l name)) h" "kn_calls k = []"
    using on_only_handler [of "lookup_event_id dec" name, OF registry_event_name(1,2) [OF Decoder_make_events(4) [OF assms(3)] assms(4)] assms(4)] by blast
  have "handlers_of (k\<lparr>kn_running := True\<rparr>) = handlers_of k"
    by (simp add: handlers_of_def fun_eq_iff)
  with k have "kernel_inv ?n (k\<lparr>kn_running := True\<rparr>)" "only_handler (k\<lparr>kn_running := True\<rparr>) (nat (?l name)) h" "kn_calls (k\<lparr>kn_running := True\<rparr>) = []"
    by (simp_all add: only_handler_def)
  then show ?thesis
    using dns_packet_turns [OF assms(1-4) Property_new_idle [where ?i0.0 = i0 and ?s0.0 = s0 and ?d0.0 = d0] assms(5), where k = "k\<lparr>kn_running := True\<rparr>" and h = h and pd = pd] k(1)
    by (auto simp: Kernel_thread_main_def)
qed

theorem dns_handler_calls_witness:
  "\<exists>dec mods h k mods' k'. Decoder_make list_lru [] = Inr (dec, mods)
     \<and> kernel_on (lookup_event_id dec) ''DNS.query'' (Kernel_new (length (dc_events dec))) = Some (Inr (h, k))
     \<and> Kernel_thread_main list_lru list_buffer dec (\<lambda>_ _ _. []) [hd demo_frames, hd demo_frames] (demo_pd []) (Property_new list_buffer 0 0 0) mods k
         = Some (Inr (mods', k'))
     \<and> kn_calls k' = [h, h]"
proof -
  obtain dec and mods :: "(list_lru, byte list) amod list" where m: "Decoder_make list_lru [] = Inr (dec, mods)"
    using Decoder_make_default by blast
  have f: "dns_in_frame (demo_mem demo_dns_frame)" "length demo_dns_frame = 54" "''DNS.query'' \<in> set (dns_event_names (demo_mem demo_dns_frame))"
    by code_simp+
  have ok: "list_all (\<lambda>(pkt, m). dns_in_frame m \<and> pk_len pkt = length (m_pkt m)) [hd demo_frames, hd demo_frames]"
    using f(1,2) by (simp add: demo_frames_def demo_mem_def)
  have all: "filter (\<lambda>(pkt, m). ''DNS.query'' \<in> set (dns_event_names m)) [hd demo_frames, hd demo_frames] = [hd demo_frames, hd demo_frames]"
    using f(3) by (simp add: demo_frames_def del: insert_iff)
  have "lookup_event_id dec ''DNS.query'' \<noteq> Event_NONE"
    using dns_event_ids(2) [OF m f(3)] by (auto simp: Event_NONE_def)
  from dns_handler_calls [OF list_lru_laws list_buffer_laws m this ok, of "demo_pd []" 0 0 0] m show ?thesis
    unfolding all by (auto simp: numeral_2_eq_2)
qed

end
